(* ===== verification/IoPrelude.thy ===== *)
theory IoPrelude
  imports Main "HOL-Library.Word"
begin

text \<open>
  Shared vocabulary of the development: the C++ integer types and their conversions, faults
  (exceptions, failed assertions, undefined behaviour) as values, sequencing of operations that
  may fault, the boost error code and end point data, decimal printing, and the lens through
  which an object embedded in a larger state is read and written back.
\<close>

section \<open>Machine types\<close>

type_synonym byte = "8 word"
type_synonym c_int = "32 word"
type_synonym ushort = "16 word"

text \<open>
  Sizes (\<open>size_t\<close>, 64 bits) are natural numbers; each conversion from or to \<open>int\<close> is
  written out. \<open>size_of_int\<close> is the implicit conversion of an \<open>int\<close> to \<open>size_t\<close>
  (sign extension, so a negative number becomes a huge size), \<open>int_of_size\<close> is
  \<open>static_cast<int>\<close> of a size, \<open>ushort_of_int\<close> is \<open>static_cast<unsigned short>\<close>.
\<close>

definition size_of_int :: "c_int \<Rightarrow> nat" where
  "size_of_int n = unat (scast n :: 64 word)"

definition int_of_size :: "nat \<Rightarrow> c_int" where
  "int_of_size n = of_nat n"

definition ushort_of_int :: "c_int \<Rightarrow> ushort" where
  "ushort_of_int n = ucast n"

text \<open>The sum of two sizes wraps at 64 bits.\<close>

definition size_add :: "nat \<Rightarrow> nat \<Rightarrow> nat" where
  "size_add m n = (m + n) mod 2 ^ 64"

lemma size_add_small: "m + n < 2 ^ 64 \<Longrightarrow> size_add m n = m + n"
  by (simp add: size_add_def)

lemma size_of_int_eq: "size_of_int n = nat (sint n mod 2 ^ 64)"
proof -
  have "unat (scast n :: 64 word) = nat (uint (scast n :: 64 word))"
    by simp
  also have "\<dots> = nat (sint n mod 2 ^ 64)"
    by (simp only: scast_eq uint_word_of_int) simp
  finally show ?thesis by (simp add: size_of_int_def)
qed

lemma c_int_range: "- (2 ^ 31) \<le> sint (n :: c_int)" "sint (n :: c_int) < 2 ^ 31"
  using sint_ge [of n] sint_lt [of n] by simp_all

lemma size_of_int_nonneg:
  assumes "0 \<le> sint n"
  shows "size_of_int n = nat (sint n)"
proof -
  have "sint n mod 2 ^ 64 = sint n"
    using assms c_int_range [of n] by (intro mod_pos_pos_trivial) simp_all
  then show ?thesis by (simp add: size_of_int_eq)
qed

lemma size_of_int_pos: "0 < sint n \<Longrightarrow> 0 < size_of_int n"
  by (simp add: size_of_int_nonneg)

lemma size_of_int_less: "0 \<le> sint n \<Longrightarrow> size_of_int n < 2 ^ 31"
  using c_int_range [of n] by (simp add: size_of_int_nonneg nat_less_iff)

lemma size_of_int_neg:
  assumes "sint n < 0"
  shows "2 ^ 63 \<le> size_of_int n"
proof -
  have "sint n mod 2 ^ 64 = (sint n + 2 ^ 64) mod 2 ^ 64"
    by (simp only: mod_add_self2)
  also have "\<dots> = sint n + 2 ^ 64"
    using assms c_int_range [of n] by (intro mod_pos_pos_trivial) simp_all
  finally show ?thesis
    using c_int_range [of n] by (simp add: size_of_int_eq le_nat_iff)
qed

lemma sint_of_nat_c_int:
  assumes "n < 2 ^ 31"
  shows "sint (of_nat n :: c_int) = int n"
  using assms by (simp add: sint_uint uint_nat unat_of_nat signed_take_bit_int_eq_self take_bit_eq_mod)

lemma size_of_int_of_nat: "n < 2 ^ 31 \<Longrightarrow> size_of_int (int_of_size n) = n"
  by (simp add: int_of_size_def size_of_int_nonneg sint_of_nat_c_int)

section \<open>Faults and sequencing\<close>

text \<open>
  What can end an operation early. \<open>RuntimeError\<close> is a thrown \<open>std::runtime_error\<close> with
  its message, \<open>BadFunctionCall\<close> a call of an empty \<open>std::function\<close>, \<open>FutureError\<close> a
  \<open>std::future_error\<close>, \<open>SystemError\<close> a \<open>boost::system::system_error\<close> thrown by a socket
  or address function, \<open>Aborted\<close> a failed \<open>assert\<close> (only in builds without \<open>NDEBUG\<close>),
  \<open>Deadlock\<close> a second lock of a held \<open>std::mutex\<close> by the same thread, and
  \<open>Undefined\<close> an operation the C++ standard gives no meaning.
\<close>

datatype fault =
    RuntimeError string
  | BadFunctionCall
  | FutureError string
  | SystemError int
  | AppException string
  | Aborted string
  | Deadlock string
  | Undefined string

text \<open>
  An operation takes a state and returns its outcome with the state it leaves: an exception does
  not roll the state back. \<open>and_then\<close> runs the rest only after a normal return.
\<close>

type_synonym ('a, 's) outcome = "(fault + 'a) \<times> 's"

definition and_then :: "('a, 's) outcome \<Rightarrow> ('a \<Rightarrow> 's \<Rightarrow> ('b, 's) outcome) \<Rightarrow> ('b, 's) outcome" where
  "and_then r k = (case r of (Inl f, s) \<Rightarrow> (Inl f, s) | (Inr a, s) \<Rightarrow> k a s)"

lemma and_then_simps [simp]:
  "and_then (Inl f, s) k = (Inl f, s)"
  "and_then (Inr a, s) k = k a s"
  by (simp_all add: and_then_def)

lemma and_then_split:
  "P (and_then r k) \<longleftrightarrow>
    (\<forall>f s. r = (Inl f, s) \<longrightarrow> P (Inl f, s)) \<and> (\<forall>a s. r = (Inr a, s) \<longrightarrow> P (k a s))"
  by (cases r; cases "fst r") (auto simp: and_then_def)

text \<open>\<open>assert(c)\<close> before the continuation \<open>k\<close>; \<open>nd\<close> says whether \<open>NDEBUG\<close> is defined.\<close>

definition cassert :: "bool \<Rightarrow> bool \<Rightarrow> string \<Rightarrow> 's \<Rightarrow> ('a, 's) outcome \<Rightarrow> ('a, 's) outcome" where
  "cassert nd c msg s k = (if \<not> nd \<and> \<not> c then (Inl (Aborted msg), s) else k)"

lemma cassert_holds [simp]: "c \<Longrightarrow> cassert nd c msg s k = k"
  by (simp add: cassert_def)

section \<open>Boost data\<close>

text \<open>
  A \<open>boost::system::error_code\<close> is a number, zero for success, with the text its category
  gives it. \<open>operation_aborted\<close> is the code of a cancelled operation (\<open>ECANCELED\<close> on the
  POSIX systems the makefiles build for).
\<close>

record error_code =
  ec_value :: int
  ec_message :: string

definition no_error :: error_code where
  "no_error = \<lparr>ec_value = 0, ec_message = ''Success''\<rparr>"

definition operation_aborted :: int where
  "operation_aborted = 125"

definition ec_set :: "error_code \<Rightarrow> bool" where
  "ec_set ec \<longleftrightarrow> ec_value ec \<noteq> 0"

lemma ec_set_no_error [simp]: "\<not> ec_set no_error"
  by (simp add: ec_set_def no_error_def)

text \<open>An IP address and an end point (address and port) as the sources pass them around.\<close>

datatype ip_address = V4 "32 word" | V6 "128 word"

type_synonym end_point = "ip_address \<times> ushort"

section \<open>Decimal numbers in messages\<close>

fun show_nat :: "nat \<Rightarrow> string" where
  "show_nat n =
     (if n < 10 then [char_of (48 + n)] else show_nat (n div 10) @ [char_of (48 + n mod 10)])"

declare show_nat.simps [simp del]

definition show_c_int :: "c_int \<Rightarrow> string" where
  "show_c_int n = (if sint n < 0 then ''-'' @ show_nat (nat (- sint n)) else show_nat (nat (sint n)))"

lemma show_nat_not_Nil [simp]: "show_nat n \<noteq> []"
  by (subst show_nat.simps) simp

section \<open>Objects inside a larger state\<close>

text \<open>
  A handler of an embedded object runs application callbacks, and those see the whole state, not
  only the object. Such a handler is defined over any state from which the object can be read
  (\<open>get\<close>) and into which it can be written back (\<open>put\<close>); the laws say that the two are
  a field access of that state.
\<close>

locale host =
  fixes get :: "'s \<Rightarrow> 'o" and put :: "'o \<Rightarrow> 's \<Rightarrow> 's"
  assumes get_put: "get (put x s) = x"
    and put_put: "put x (put y s) = put x s"
    and put_get: "put (get s) s = s"
begin

lemmas host_laws = get_put put_put put_get

lemma put_same: "get s = x \<Longrightarrow> put x s = s"
  using put_get by auto

end

text \<open>An operation on the object, run inside the larger state.\<close>

definition on_host :: "('s \<Rightarrow> 'o) \<Rightarrow> ('o \<Rightarrow> 's \<Rightarrow> 's) \<Rightarrow> ('o \<Rightarrow> ('a, 'o) outcome) \<Rightarrow> 's \<Rightarrow> ('a, 's) outcome" where
  "on_host get put f s = (case f (get s) of (r, x) \<Rightarrow> (r, put x s))"

text \<open>The object on its own is its own host.\<close>

definition self_get :: "'o \<Rightarrow> 'o" where
  "self_get x = x"

definition self_put :: "'o \<Rightarrow> 'o \<Rightarrow> 'o" where
  "self_put x s = x"

interpretation self: host self_get self_put
  by unfold_locales (simp_all add: self_get_def self_put_def)

end
