(* ===== verification/CircularBuffer.thy ===== *)
theory CircularBuffer
  imports IoPrelude
begin

text \<open>
  The receive buffer (\<open>IoServices/IoCircularBuffer.h\<close> and \<open>.cpp\<close>): a vector into whose
  spare capacity a socket writes, whose size is then raised over the new bytes, and which chains
  one asynchronous read after another. First the part of \<open>std::vector\<close> it relies on, with its
  raw memory, then the class, then its invariants and the stream it delivers.
\<close>

section \<open>The vector and its raw memory\<close>

text \<open>
  A vector is its allocated memory and the number of elements in use. A cell is \<open>None\<close> while
  its content is indeterminate. \<open>reserve\<close> allocates exactly what it is asked for, as libstdc++
  and libc++ do, and moves the elements in use; a cell of the new spare area is indeterminate.
  The no-op \<open>construct\<close> of \<open>ResizeReserveAllocator\<close> makes \<open>resize\<close> within the capacity
  leave the memory as it is.
\<close>

record vec =
  cells :: "byte option list"
  vsize :: nat

definition vec_empty :: vec where
  "vec_empty = \<lparr>cells = [], vsize = 0\<rparr>"

definition vec_capacity :: "vec \<Rightarrow> nat" where
  "vec_capacity v = length (cells v)"

definition vec_data :: "vec \<Rightarrow> byte option list" where
  "vec_data v = take (vsize v) (cells v)"

definition vec_max_size :: nat where
  "vec_max_size = 2 ^ 63 - 1"

definition vec_reserve :: "nat \<Rightarrow> vec \<Rightarrow> vec" where
  "vec_reserve n v =
     (if n \<le> vec_capacity v then v
      else v\<lparr>cells := take (vsize v) (cells v) @ replicate (n - vsize v) None\<rparr>)"

text \<open>
  The \<open>rebind\<close>, the move \<open>construct\<close> and the empty variadic \<open>construct\<close> of the allocator:
  elements moved to a new allocation keep their value, elements that appear by a resize are not
  written. Beyond the capacity \<open>resize\<close> allocates at least twice the size.
\<close>

definition vec_resize :: "nat \<Rightarrow> vec \<Rightarrow> vec" where
  "vec_resize n v =
     (if n \<le> vec_capacity v then v\<lparr>vsize := n\<rparr>
      else let cap = vsize v + max (vsize v) (n - vsize v)
           in v\<lparr>cells := take (vsize v) (cells v) @ replicate (cap - vsize v) None, vsize := n\<rparr>)"

text \<open>\<open>erase(begin, begin + n)\<close>: the later elements move down, the cells behind them stay.\<close>

definition vec_erase_front :: "nat \<Rightarrow> vec \<Rightarrow> vec" where
  "vec_erase_front n v =
     (let m = vsize v - n
      in v\<lparr>cells := take m (drop n (cells v)) @ drop m (cells v), vsize := m\<rparr>)"

text \<open>Somebody else writes bytes through a pointer into the memory.\<close>

definition vec_poke :: "nat \<Rightarrow> byte list \<Rightarrow> vec \<Rightarrow> vec" where
  "vec_poke off bs v =
     v\<lparr>cells := take off (cells v) @ map Some bs @ drop (off + length bs) (cells v)\<rparr>"

definition vec_wf :: "vec \<Rightarrow> bool" where
  "vec_wf v \<longleftrightarrow> vsize v \<le> vec_capacity v"

lemma vec_wf_empty [simp]: "vec_wf vec_empty"
  by (simp add: vec_wf_def vec_empty_def)

lemma length_vec_data: "vec_wf v \<Longrightarrow> length (vec_data v) = vsize v"
  by (simp add: vec_wf_def vec_data_def vec_capacity_def)

lemma vec_reserve_facts:
  assumes "vec_wf v"
  shows "vec_wf (vec_reserve n v)"
    and "vec_data (vec_reserve n v) = vec_data v"
    and "vsize (vec_reserve n v) = vsize v"
    and "vec_capacity (vec_reserve n v) = max n (vec_capacity v)"
  using assms by (auto simp: vec_reserve_def vec_wf_def vec_data_def vec_capacity_def)

lemma vec_resize_up:
  assumes "vec_wf v" and "vsize v + n \<le> vec_capacity v"
  shows "vec_wf (vec_resize (vsize v + n) v)"
    and "vec_data (vec_resize (vsize v + n) v) = vec_data v @ take n (drop (vsize v) (cells v))"
    and "vsize (vec_resize (vsize v + n) v) = vsize v + n"
    and "vec_capacity (vec_resize (vsize v + n) v) = vec_capacity v"
  using assms by (auto simp: vec_resize_def vec_wf_def vec_data_def vec_capacity_def take_add)

lemma vec_resize_0:
  shows "vec_wf (vec_resize 0 v)" and "vec_data (vec_resize 0 v) = []"
    and "vsize (vec_resize 0 v) = 0" and "vec_capacity (vec_resize 0 v) = vec_capacity v"
  by (auto simp: vec_resize_def vec_wf_def vec_data_def vec_capacity_def)

lemma vec_erase_front_facts:
  assumes "vec_wf v" and "n \<le> vsize v"
  shows "vec_wf (vec_erase_front n v)"
    and "vec_data (vec_erase_front n v) = drop n (vec_data v)"
    and "vsize (vec_erase_front n v) = vsize v - n"
    and "vec_capacity (vec_erase_front n v) = vec_capacity v"
  using assms
  by (auto simp: vec_erase_front_def vec_wf_def vec_data_def vec_capacity_def Let_def drop_take)

lemma vec_poke_facts:
  assumes "vec_wf v" and "vsize v \<le> off" and "off + length bs \<le> vec_capacity v"
  shows "vec_wf (vec_poke off bs v)"
    and "vec_data (vec_poke off bs v) = vec_data v"
    and "vsize (vec_poke off bs v) = vsize v"
    and "vec_capacity (vec_poke off bs v) = vec_capacity v"
    and "take (length bs) (drop off (cells (vec_poke off bs v))) = map Some bs"
  using assms by (auto simp: vec_poke_def vec_wf_def vec_data_def vec_capacity_def min_def)

section \<open>The class\<close>

text \<open>
  The fields of \<open>IoCircularBuffer\<close>. A \<open>std::function\<close> that may be empty is an option; a
  callback is named by a value of type \<open>'cb\<close> and run by an argument of the handler.
  \<open>_readSomeIn\<close> belongs to the owner of the buffer and only starts an asynchronous read, so
  calling it is recorded: \<open>reads\<close> holds, oldest first, the slot (offset and length) of every
  read that was started and has not completed.
\<close>

record 'cb circ =
  hasContext :: bool
  shouldRead :: bool
  buffer :: vec
  chunkSize :: c_int
  readSomeIn :: bool
  notifyAvailable :: "'cb option"
  reads :: "(nat \<times> nat) list"

definition IoCircularBuffer_default :: "'cb circ" where
  "IoCircularBuffer_default =
     \<lparr>hasContext = False, shouldRead = False, buffer = vec_empty, chunkSize = 0,
      readSomeIn = False, notifyAvailable = None, reads = []\<rparr>"

definition IoCircularBuffer_new :: "'cb circ" where
  "IoCircularBuffer_new = IoCircularBuffer_default\<lparr>readSomeIn := True\<rparr>"

text \<open>
  The move assignment takes the buffer, the chunk size and both callbacks, and leaves the two
  atomic flags of the target as they are.
\<close>

definition IoCircularBuffer_move_assign :: "'cb circ \<Rightarrow> 'cb circ \<Rightarrow> 'cb circ" where
  "IoCircularBuffer_move_assign lhs rhs =
     lhs\<lparr>buffer := buffer rhs, chunkSize := chunkSize rhs, readSomeIn := readSomeIn rhs,
         notifyAvailable := notifyAvailable rhs, reads := reads rhs\<rparr>"

text \<open>
  \<open>ReadSome\<close>: room for a chunk behind the data, then a read into that room. The sum is a
  \<open>size_t\<close> and wraps.
\<close>

definition IoCircularBuffer_ReadSome :: "bool \<Rightarrow> 'cb circ \<Rightarrow> (unit, 'cb circ) outcome" where
  "IoCircularBuffer_ReadSome nd c =
     (let requiredCapacity = size_add (vsize (buffer c)) (size_of_int (chunkSize c))
      in if requiredCapacity \<ge> vec_max_size
         then (Inl (RuntimeError ''Exceeded circular buffer capacity''), c)
         else
           let b = (if requiredCapacity > vec_capacity (buffer c)
                    then vec_reserve requiredCapacity (buffer c) else buffer c);
               c1 = c\<lparr>buffer := b\<rparr>
           in cassert nd (vec_capacity b \<noteq> 0) ''nextSlotPtr != nullptr'' c1
                (if \<not> readSomeIn c1 then (Inl BadFunctionCall, c1)
                 else (Inr (), c1\<lparr>reads := reads c1 @ [(vsize b, size_of_int (chunkSize c1))]\<rparr>)))"

definition IoCircularBuffer_BeginChainedRead ::
  "bool \<Rightarrow> 'cb option \<Rightarrow> c_int \<Rightarrow> bool \<Rightarrow> 'cb circ \<Rightarrow> (unit, 'cb circ) outcome" where
  "IoCircularBuffer_BeginChainedRead nd notifySome chunk immediate c =
     (if notifyAvailable c \<noteq> None
      then (Inl (RuntimeError ''IO circular buffer - read some already in progress''), c)
      else
        let c1 = c\<lparr>notifyAvailable := notifySome, chunkSize := chunk, shouldRead := immediate\<rparr>
        in if immediate then IoCircularBuffer_ReadSome nd c1 else (Inr (), c1))"

definition IoCircularBuffer_BeginReadSome :: "bool \<Rightarrow> 'cb circ \<Rightarrow> (unit, 'cb circ) outcome" where
  "IoCircularBuffer_BeginReadSome nd c =
     (if shouldRead c then (Inr (), c)
      else IoCircularBuffer_ReadSome nd (c\<lparr>shouldRead := True\<rparr>))"

definition IoCircularBuffer_EndReadSome :: "'cb circ \<Rightarrow> 'cb circ" where
  "IoCircularBuffer_EndReadSome c = c\<lparr>shouldRead := False\<rparr>"

text \<open>Every accessor first asserts and then checks that a read handler is running.\<close>

definition with_context :: "bool \<Rightarrow> string \<Rightarrow> 'cb circ \<Rightarrow> ('a, 'cb circ) outcome \<Rightarrow> ('a, 'cb circ) outcome" where
  "with_context nd msg c k =
     cassert nd (hasContext c) msg c
       (if \<not> hasContext c then (Inl (RuntimeError msg), c) else k)"

definition IoCircularBuffer_Consume :: "bool \<Rightarrow> nat \<Rightarrow> 'cb circ \<Rightarrow> (unit, 'cb circ) outcome" where
  "IoCircularBuffer_Consume nd len c =
     with_context nd ''Circular buffer must have the callback context to consume'' c
       (if len > vsize (buffer c)
        then (Inl (RuntimeError (''IO circular buffer consume of '' @ show_nat len @
                                 '', available: '' @ show_nat (vsize (buffer c)))), c)
        else
          let capacity = vec_capacity (buffer c);
              b = (if len = vsize (buffer c) then vec_resize 0 (buffer c)
                   else vec_erase_front len (buffer c));
              b' = (if vec_capacity b < capacity then vec_reserve capacity b else b)
          in (Inr (), c\<lparr>buffer := b'\<rparr>))"

text \<open>
  \<open>CopyTo\<close> appends the first \<open>len\<close> bytes to \<open>dest\<close>; beyond the size, or before the
  start for a negative length, \<open>std::copy\<close> has no defined meaning.
\<close>

definition IoCircularBuffer_CopyTo ::
  "bool \<Rightarrow> byte option list \<Rightarrow> c_int \<Rightarrow> 'cb circ \<Rightarrow> (byte option list, 'cb circ) outcome" where
  "IoCircularBuffer_CopyTo nd dest len c =
     with_context nd ''Circular buffer must have the callback context to consume'' c
       (if sint len < 0 \<or> nat (sint len) > vsize (buffer c)
        then (Inl (Undefined ''std::copy outside of the buffer''), c)
        else (Inr (dest @ take (nat (sint len)) (vec_data (buffer c))), c))"

text \<open>The pointer \<open>Get\<close> returns reaches the whole allocation, so the model returns its cells.\<close>

definition IoCircularBuffer_Get :: "bool \<Rightarrow> 'cb circ \<Rightarrow> (byte option list, 'cb circ) outcome" where
  "IoCircularBuffer_Get nd c =
     with_context nd ''Circular buffer must have the callback context to get data pointer'' c
       (Inr (cells (buffer c)), c)"

definition IoCircularBuffer_Size :: "bool \<Rightarrow> 'cb circ \<Rightarrow> (nat, 'cb circ) outcome" where
  "IoCircularBuffer_Size nd c =
     with_context nd ''Circular buffer must have the callback context to get size'' c
       (Inr (vsize (buffer c)), c)"

definition IoCircularBuffer_Capacity :: "bool \<Rightarrow> 'cb circ \<Rightarrow> (nat, 'cb circ) outcome" where
  "IoCircularBuffer_Capacity nd c =
     with_context nd ''Circular buffer must have the callback context to get capacity'' c
       (Inr (vec_capacity (buffer c)), c)"

text \<open>
  \<open>ReadSomeHandler\<close>, in the state \<open>s\<close> that holds the buffer. \<open>app cb n\<close> runs the callback
  \<open>cb\<close> with \<open>n\<close> available bytes. The context guard's destructor clears the flag on every way
  out of its block: the early return, a normal return and an exception of the callback. A failed
  assertion ends the process without running destructors.
\<close>

definition clear_context :: "('s \<Rightarrow> 'cb circ) \<Rightarrow> ('cb circ \<Rightarrow> 's \<Rightarrow> 's) \<Rightarrow> 's \<Rightarrow> 's" where
  "clear_context get put s = put ((get s)\<lparr>hasContext := False\<rparr>) s"

definition IoCircularBuffer_ReadSomeHandler ::
  "bool \<Rightarrow> ('s \<Rightarrow> 'cb circ) \<Rightarrow> ('cb circ \<Rightarrow> 's \<Rightarrow> 's) \<Rightarrow>
   ('cb \<Rightarrow> nat \<Rightarrow> 's \<Rightarrow> (unit, 's) outcome) \<Rightarrow> nat \<Rightarrow> 's \<Rightarrow> (unit, 's) outcome" where
  "IoCircularBuffer_ReadSomeHandler nd get put app bytesRead s =
     (let s1 = put ((get s)\<lparr>hasContext := True\<rparr>) s
      in cassert nd (vsize (buffer (get s1)) + bytesRead \<le> vec_capacity (buffer (get s1)))
           ''_buffer.size() + bytesRead <= _buffer.capacity()'' s1
           (let c1 = get s1;
                s2 = put (c1\<lparr>buffer := vec_resize (vsize (buffer c1) + bytesRead) (buffer c1)\<rparr>) s1
            in if bytesRead = 0 then (Inr (), clear_context get put s2)
               else
                 let available = vsize (buffer (get s2));
                     (r, s3) = (case notifyAvailable (get s2) of
                                  None \<Rightarrow> (Inl BadFunctionCall, s2)
                                | Some cb \<Rightarrow> app cb available s2);
                     s4 = clear_context get put s3
                 in and_then (r, s4)
                      (\<lambda>_ s. if shouldRead (get s) then on_host get put (IoCircularBuffer_ReadSome nd) s
                             else (Inr (), s))))"

section \<open>Behaviour of the single operations\<close>

named_theorems circ_defs

lemmas circ_op_defs [circ_defs] =
  IoCircularBuffer_ReadSome_def IoCircularBuffer_BeginChainedRead_def
  IoCircularBuffer_BeginReadSome_def IoCircularBuffer_EndReadSome_def
  IoCircularBuffer_Consume_def IoCircularBuffer_CopyTo_def IoCircularBuffer_Get_def
  IoCircularBuffer_Size_def IoCircularBuffer_Capacity_def with_context_def cassert_def

lemma with_context_in [simp]: "hasContext c \<Longrightarrow> with_context nd msg c k = k"
  by (simp add: with_context_def)

text \<open>How a missing context shows: by the assertion, or by the exception behind it.\<close>

definition context_fault :: "bool \<Rightarrow> string \<Rightarrow> fault" where
  "context_fault nd msg = (if nd then RuntimeError msg else Aborted msg)"

lemma with_context_out:
  "\<not> hasContext c \<Longrightarrow> with_context nd msg c k = (Inl (context_fault nd msg), c)"
  by (simp add: with_context_def cassert_def context_fault_def)

lemma Consume_out:
  "\<not> hasContext c \<Longrightarrow> snd (IoCircularBuffer_Consume nd len c) = c"
  by (simp add: IoCircularBuffer_Consume_def with_context_out)

lemma Consume_in:
  assumes "hasContext c" and "vec_wf (buffer c)" and "len \<le> vsize (buffer c)"
  obtains b where "IoCircularBuffer_Consume nd len c = (Inr (), c\<lparr>buffer := b\<rparr>)"
    and "vec_data b = drop len (vec_data (buffer c))"
    and "vec_wf b" and "vec_capacity b = vec_capacity (buffer c)"
proof -
  define b where "b = (if len = vsize (buffer c) then vec_resize 0 (buffer c)
                       else vec_erase_front len (buffer c))"
  have b: "vec_data b = drop len (vec_data (buffer c))" "vec_wf b"
    "vec_capacity b = vec_capacity (buffer c)"
    using assms
    by (auto simp: b_def vec_resize_0 vec_erase_front_facts length_vec_data)
  show ?thesis
    by (rule that [of b]) (use assms b in \<open>auto simp: IoCircularBuffer_Consume_def Let_def b_def\<close>)
qed

lemma Consume_too_much:
  "hasContext c \<Longrightarrow> vsize (buffer c) < len \<Longrightarrow>
    IoCircularBuffer_Consume nd len c =
      (Inl (RuntimeError (''IO circular buffer consume of '' @ show_nat len @
                          '', available: '' @ show_nat (vsize (buffer c)))), c)"
  by (simp add: IoCircularBuffer_Consume_def)

section \<open>Invariant\<close>

text \<open>
  \<open>circ_base\<close> is what always holds: the vector is well-formed and below its maximal size, every
  byte in use is determinate, the owner's read function is set, and once a chained read was set up
  its chunk is positive. \<open>circ_inv\<close> is the invariant between handlers: nobody has the context,
  at most one read is outstanding, and its slot is the chunk right behind the data, inside the
  allocation. \<open>circ_ctx\<close> holds while a callback runs: no read is outstanding.
\<close>

definition circ_base :: "'cb circ \<Rightarrow> bool" where
  "circ_base c \<longleftrightarrow> vec_wf (buffer c) \<and> vec_capacity (buffer c) < vec_max_size
     \<and> None \<notin> set (vec_data (buffer c)) \<and> readSomeIn c
     \<and> (notifyAvailable c \<noteq> None \<longrightarrow> 0 < sint (chunkSize c))"

definition circ_slot :: "'cb circ \<Rightarrow> nat \<times> nat" where
  "circ_slot c = (vsize (buffer c), size_of_int (chunkSize c))"

definition circ_inv :: "'cb circ \<Rightarrow> bool" where
  "circ_inv c \<longleftrightarrow> circ_base c \<and> \<not> hasContext c
     \<and> (reads c = [] \<or>
        reads c = [circ_slot c] \<and> fst (circ_slot c) + snd (circ_slot c) \<le> vec_capacity (buffer c)
        \<and> shouldRead c \<and> notifyAvailable c \<noteq> None)"

definition circ_ctx :: "'cb circ \<Rightarrow> bool" where
  "circ_ctx c \<longleftrightarrow> circ_base c \<and> hasContext c \<and> reads c = [] \<and> shouldRead c
     \<and> notifyAvailable c \<noteq> None"

lemmas circ_inv_defs = circ_inv_def circ_base_def circ_slot_def

lemma circ_inv_new [simp]: "circ_inv IoCircularBuffer_new"
  by (simp add: circ_inv_defs IoCircularBuffer_new_def IoCircularBuffer_default_def
      vec_capacity_def vec_data_def vec_empty_def vec_wf_def vec_max_size_def)

text \<open>A read is started from a state that only lacks it, or the buffer is full and unchanged.\<close>

lemma ReadSome_cases:
  assumes "circ_base c" and "notifyAvailable c \<noteq> None" and "shouldRead c" and "\<not> hasContext c"
    and "reads c = []"
  obtains
    (full) "IoCircularBuffer_ReadSome nd c =
              (Inl (RuntimeError ''Exceeded circular buffer capacity''), c)"
      and "vsize (buffer c) + size_of_int (chunkSize c) \<ge> vec_max_size"
  | (started) c' where "IoCircularBuffer_ReadSome nd c = (Inr (), c')" and "circ_inv c'"
      and "reads c' = [circ_slot c']"
      and "vec_data (buffer c') = vec_data (buffer c)"
      and "vec_capacity (buffer c') =
             max (vsize (buffer c) + size_of_int (chunkSize c)) (vec_capacity (buffer c))"
      and "notifyAvailable c' = notifyAvailable c" and "chunkSize c' = chunkSize c"
      and "shouldRead c'"
      and "circ_slot c' = circ_slot c"
proof -
  let ?r = "vsize (buffer c) + size_of_int (chunkSize c)"
  from assms(1,2) have ch: "0 < sint (chunkSize c)" and wf: "vec_wf (buffer c)"
    and cap: "vec_capacity (buffer c) < vec_max_size"
    by (simp_all add: circ_base_def)
  have "vsize (buffer c) < 2 ^ 63 - 1"
    using wf cap by (simp add: vec_wf_def vec_max_size_def)
  then have mod: "size_add (vsize (buffer c)) (size_of_int (chunkSize c)) = ?r"
    using size_of_int_less [of "chunkSize c"] ch by (simp add: size_add_small)
  have pos: "0 < size_of_int (chunkSize c)"
    using ch by (rule size_of_int_pos)
  show thesis
  proof (cases "vec_max_size \<le> ?r")
    case True
    then show thesis
      by (intro full) (simp_all add: IoCircularBuffer_ReadSome_def mod)
  next
    case False
    let ?b = "vec_reserve ?r (buffer c)"
    let ?c = "c\<lparr>buffer := ?b, reads := [circ_slot c]\<rparr>"
    note res = vec_reserve_facts [OF wf, of ?r]
    have eq: "(if vec_capacity (buffer c) < ?r then ?b else buffer c) = ?b"
      by (simp add: vec_reserve_def)
    have nz: "vec_capacity ?b \<noteq> 0"
      using res pos by linarith
    have slot: "circ_slot ?c = circ_slot c"
      by (simp add: circ_slot_def res)
    show thesis
    proof (rule started [of ?c])
      show "IoCircularBuffer_ReadSome nd c = (Inr (), ?c)"
        using False nz assms(1,5)
        by (simp add: IoCircularBuffer_ReadSome_def mod eq res(3) circ_slot_def Let_def circ_base_def)
      show "circ_inv ?c"
        using assms False cap res by (auto simp: circ_inv_defs)
    qed (use slot assms(3) in \<open>simp_all add: res\<close>)
  qed
qed

section \<open>What a callback may do\<close>

text \<open>
  The calls on the buffer that change it and are open to an application callback: consuming, and
  the start of a read (through \<open>LaunchRead\<close> of a datagram listener). The accessors
  \<open>CopyTo\<close>, \<open>Get\<close>, \<open>Size\<close> and \<open>Capacity\<close> leave the buffer as it is.
\<close>

inductive ctx_step :: "bool \<Rightarrow> 'cb circ \<Rightarrow> 'cb circ \<Rightarrow> bool" for nd where
  consume: "IoCircularBuffer_Consume nd len c = (r, c') \<Longrightarrow> ctx_step nd c c'"
| begin_read: "IoCircularBuffer_BeginReadSome nd c = (r, c') \<Longrightarrow> ctx_step nd c c'"

definition app_in_context ::
  "bool \<Rightarrow> ('s \<Rightarrow> 'cb circ) \<Rightarrow> ('cb \<Rightarrow> nat \<Rightarrow> 's \<Rightarrow> (unit, 's) outcome) \<Rightarrow> bool" where
  "app_in_context nd get app \<longleftrightarrow>
     (\<forall>cb n s r s'. app cb n s = (r, s') \<longrightarrow> circ_ctx (get s) \<longrightarrow>
        (ctx_step nd)\<^sup>*\<^sup>* (get s) (get s'))"

text \<open>\<open>ctx_mono c c'\<close>: some bytes were taken from the front and nothing else changed.\<close>

definition ctx_mono :: "'cb circ \<Rightarrow> 'cb circ \<Rightarrow> bool" where
  "ctx_mono c c' \<longleftrightarrow> (\<exists>k. vec_data (buffer c') = drop k (vec_data (buffer c)))
     \<and> vec_capacity (buffer c') = vec_capacity (buffer c)
     \<and> notifyAvailable c' = notifyAvailable c \<and> chunkSize c' = chunkSize c"

lemma ctx_mono_refl [simp]: "ctx_mono c c"
  by (auto simp: ctx_mono_def intro: exI [of _ 0])

lemma ctx_mono_trans: "ctx_mono a b \<Longrightarrow> ctx_mono b c \<Longrightarrow> ctx_mono a c"
  by (auto simp: ctx_mono_def)

lemma set_drop_notin: "x \<notin> set xs \<Longrightarrow> x \<notin> set (drop k xs)"
  using set_drop_subset [of k xs] by auto

lemma ctx_step_keeps:
  assumes "ctx_step nd c c'" and "circ_ctx c"
  shows "circ_ctx c' \<and> ctx_mono c c'"
  using assms(1)
proof (cases rule: ctx_step.cases)
  case (consume len r)
  from assms(2) have c: "hasContext c" "vec_wf (buffer c)"
    by (simp_all add: circ_ctx_def circ_base_def)
  show ?thesis
  proof (cases "len \<le> vsize (buffer c)")
    case True
    with c obtain b where b: "IoCircularBuffer_Consume nd len c = (Inr (), c\<lparr>buffer := b\<rparr>)"
      "vec_data b = drop len (vec_data (buffer c))" "vec_wf b"
      "vec_capacity b = vec_capacity (buffer c)"
      by (rule Consume_in)
    from consume b(1) have [simp]: "c' = c\<lparr>buffer := b\<rparr>" by simp
    show ?thesis
      using assms(2) b(2-4) set_drop_notin [of None "vec_data (buffer c)" len]
      by (auto simp: circ_ctx_def circ_base_def ctx_mono_def)
  next
    case False
    with c consume assms(2) show ?thesis by (simp add: Consume_too_much)
  qed
next
  case (begin_read r)
  with assms(2) show ?thesis
    by (simp add: circ_ctx_def IoCircularBuffer_BeginReadSome_def)
qed

lemma ctx_steps_keep:
  "(ctx_step nd)\<^sup>*\<^sup>* c c' \<Longrightarrow> circ_ctx c \<Longrightarrow> circ_ctx c' \<and> ctx_mono c c'"
proof (induction rule: rtranclp_induct)
  case base
  then show ?case by simp
next
  case (step d e)
  then show ?case using ctx_step_keeps [of nd d e] ctx_mono_trans by blast
qed

section \<open>The read handler\<close>

text \<open>
  The environment's part of a completed read: the bytes are in the slot the oldest outstanding
  read was given, and that read is over.
\<close>

definition circ_fill :: "byte list \<Rightarrow> 'cb circ \<Rightarrow> 'cb circ" where
  "circ_fill bs c = (case reads c of [] \<Rightarrow> c
     | (off, len) # rest \<Rightarrow> c\<lparr>buffer := vec_poke off bs (buffer c), reads := rest\<rparr>)"

text \<open>The buffer as the callback finds it, after \<open>bs\<close> was received.\<close>

definition circ_enter :: "byte list \<Rightarrow> 'cb circ \<Rightarrow> 'cb circ" where
  "circ_enter bs c = (let d = circ_fill bs c
     in d\<lparr>hasContext := True, buffer := vec_resize (vsize (buffer d) + length bs) (buffer d)\<rparr>)"

definition fits_read :: "byte list \<Rightarrow> 'cb circ \<Rightarrow> bool" where
  "fits_read bs c \<longleftrightarrow> bs \<noteq> [] \<and> reads c \<noteq> [] \<and> length bs \<le> snd (hd (reads c))"

lemma circ_enter_facts:
  assumes "circ_inv c" and "fits_read bs c"
  shows "circ_ctx (circ_enter bs c)"
    and "vec_data (buffer (circ_enter bs c)) = vec_data (buffer c) @ map Some bs"
    and "vsize (buffer (circ_enter bs c)) = vsize (buffer c) + length bs"
    and "vec_capacity (buffer (circ_enter bs c)) = vec_capacity (buffer c)"
    and "notifyAvailable (circ_enter bs c) = notifyAvailable c"
    and "chunkSize (circ_enter bs c) = chunkSize c"
    and "vsize (buffer (circ_fill bs c)) + length bs \<le> vec_capacity (buffer (circ_fill bs c))"
proof -
  let ?b = "buffer c" and ?p = "vec_poke (vsize (buffer c)) bs (buffer c)"
  from assms have r: "reads c = [(vsize ?b, size_of_int (chunkSize c))]"
    and le: "vsize ?b + size_of_int (chunkSize c) \<le> vec_capacity ?b"
      "length bs \<le> size_of_int (chunkSize c)"
    and wf: "vec_wf ?b" and base: "circ_base c" and sr: "shouldRead c" "notifyAvailable c \<noteq> None"
    by (auto simp: circ_inv_defs fits_read_def)
  from le have fit: "vsize ?b + length bs \<le> vec_capacity ?b" by simp
  note p = vec_poke_facts [OF wf order.refl fit]
  have fit': "vsize ?p + length bs \<le> vec_capacity ?p"
    using fit p by simp
  note q = vec_resize_up [OF p(1) fit']
  have e: "circ_enter bs c = c\<lparr>hasContext := True, reads := [],
      buffer := vec_resize (vsize ?p + length bs) ?p\<rparr>"
    by (simp add: circ_enter_def circ_fill_def r)
  show d: "vec_data (buffer (circ_enter bs c)) = vec_data (buffer c) @ map Some bs"
    using q(2) p by (simp add: e)
  show "circ_ctx (circ_enter bs c)"
    using base sr q p by (auto simp: circ_ctx_def circ_base_def e)
  show "vsize (buffer (circ_fill bs c)) + length bs \<le> vec_capacity (buffer (circ_fill bs c))"
    using fit' by (simp add: circ_fill_def r)
  show "vsize (buffer (circ_enter bs c)) = vsize (buffer c) + length bs"
    "vec_capacity (buffer (circ_enter bs c)) = vec_capacity (buffer c)"
    "notifyAvailable (circ_enter bs c) = notifyAvailable c"
    "chunkSize (circ_enter bs c) = chunkSize c"
    using p q by (simp_all add: e)
qed

text \<open>
  The interface of an owner of a receive buffer. Its one operation beyond the field access is the
  callback runner \<open>app\<close>, which promises to touch the buffer only through the calls that are open
  to a callback. Under that promise a completed read keeps the invariant, shows the callback all
  old and new bytes, and leaves some suffix of them.
\<close>

locale reading_host = host get put
  for get :: "'s \<Rightarrow> 'cb circ" and put :: "'cb circ \<Rightarrow> 's \<Rightarrow> 's"
begin

lemma handler_unfold:
  assumes "circ_inv (get s)" and "fits_read bs (get s)" and "notifyAvailable (get s) = Some cb"
    and "app cb (vsize (buffer (get s)) + length bs) (put (circ_enter bs (get s)) s) = (r, t)"
  shows "IoCircularBuffer_ReadSomeHandler nd get put app (length bs) (put (circ_fill bs (get s)) s) =
           and_then (r, clear_context get put t)
             (\<lambda>_ s. if shouldRead (get s) then on_host get put (IoCircularBuffer_ReadSome nd) s
                  else (Inr (), s))"
proof -
  note ent = circ_enter_facts [OF assms(1,2)]
  from assms(2) have "bs \<noteq> []" by (simp add: fits_read_def)
  moreover have "notifyAvailable (circ_fill bs (get s)) = Some cb"
    using assms(3) by (simp add: circ_fill_def split: list.split)
  ultimately show ?thesis
    using ent(7) assms(3,4) ent(3)
    by (simp add: IoCircularBuffer_ReadSomeHandler_def host_laws circ_enter_def Let_def)
qed

text \<open>
  The outcome of a completed read. \<open>k\<close> bytes were consumed by the callback. If it returned, the
  next read is outstanding (or the buffer is full); if it threw, the same exception leaves the
  handler and no read is outstanding.
\<close>

lemma handler_cases:
  assumes inv: "circ_inv (get s)" and fits: "fits_read bs (get s)"
    and app: "app_in_context nd get app"
    and run: "IoCircularBuffer_ReadSomeHandler nd get put app (length bs)
                (put (circ_fill bs (get s)) s) = (r, s')"
  obtains k where
    "circ_inv (get s')"
    and "vec_data (buffer (get s')) = drop k (vec_data (buffer (get s)) @ map Some bs)"
    and "notifyAvailable (get s') = notifyAvailable (get s)"
    and "chunkSize (get s') = chunkSize (get s)"
    and "r = Inr () \<longleftrightarrow> reads (get s') \<noteq> []"
    and "shouldRead (get s')"
    and "vec_capacity (buffer (get s')) =
           (if r = Inr () then max (vsize (buffer (get s')) + size_of_int (chunkSize (get s)))
                                   (vec_capacity (buffer (get s)))
            else vec_capacity (buffer (get s)))"
proof -
  note ent = circ_enter_facts [OF inv fits]
  from inv fits obtain cb where cb: "notifyAvailable (get s) = Some cb"
    by (auto simp: circ_inv_defs fits_read_def)
  obtain q t where qt: "app cb (vsize (buffer (get s)) + length bs)
      (put (circ_enter bs (get s)) s) = (q, t)"
    by (cases "app cb (vsize (buffer (get s)) + length bs) (put (circ_enter bs (get s)) s)")
  have "circ_ctx (get (put (circ_enter bs (get s)) s))"
    using ent(1) by (simp add: get_put)
  with app qt have "(ctx_step nd)\<^sup>*\<^sup>* (get (put (circ_enter bs (get s)) s)) (get t)"
    unfolding app_in_context_def by blast
  then have "(ctx_step nd)\<^sup>*\<^sup>* (circ_enter bs (get s)) (get t)"
    by (simp only: get_put)
  from ctx_steps_keep [OF this ent(1)] obtain k where ct: "circ_ctx (get t)"
    and d: "vec_data (buffer (get t)) = drop k (vec_data (buffer (get s)) @ map Some bs)"
    and cap: "vec_capacity (buffer (get t)) = vec_capacity (buffer (get s))"
    and n: "notifyAvailable (get t) = notifyAvailable (get s)" "chunkSize (get t) = chunkSize (get s)"
    using ent by (auto simp: ctx_mono_def)
  define u where "u = (get t)\<lparr>hasContext := False\<rparr>"
  have u: "circ_base u" "notifyAvailable u \<noteq> None" "shouldRead u" "\<not> hasContext u" "reads u = []"
    using ct by (auto simp: u_def circ_ctx_def circ_base_def)
  have ui: "circ_inv u"
    using u by (simp add: circ_inv_def)
  note run' = run [unfolded handler_unfold [where app = app, OF inv fits cb qt]]
  show thesis
  proof (cases q)
    case (Inl f)
    with run' have "r = Inl f" "get s' = u"
      by (auto simp: clear_context_def u_def get_put)
    with ui show thesis
      by (intro that [of k]) (use d n cap u in \<open>auto simp: u_def\<close>)
  next
    case (Inr x)
    with run' u(3) have on: "on_host get put (IoCircularBuffer_ReadSome nd) (put u t) = (r, s')"
      by (simp add: clear_context_def u_def get_put)
    from u show thesis
    proof (cases rule: ReadSome_cases [where nd = nd])
      case full
      with on have "r = Inl (RuntimeError ''Exceeded circular buffer capacity'')" "get s' = u"
        by (auto simp: on_host_def get_put)
      with ui show thesis
        by (intro that [of k]) (use d n cap u in \<open>auto simp: u_def\<close>)
    next
      case (started b)
      with on have "r = Inr ()" "get s' = b"
        by (auto simp: on_host_def get_put)
      with started show thesis
        by (intro that [of k]) (use d n cap in \<open>auto simp: u_def circ_slot_def\<close>)
    qed
  qed
qed

text \<open>Around the one run of the callback, only the buffer changes.\<close>

lemma handler_frame:
  assumes inv: "circ_inv (get s)" and fits: "fits_read bs (get s)"
    and run: "IoCircularBuffer_ReadSomeHandler nd get put app (length bs) (put (circ_fill bs (get s)) s) = (r, s')"
  obtains cb q t b where "app cb (vsize (buffer (get s)) + length bs) (put (circ_enter bs (get s)) s) = (q, t)"
    and "s' = put b t"
proof -
  from inv fits obtain cb where cb: "notifyAvailable (get s) = Some cb"
    by (auto simp: circ_inv_defs fits_read_def)
  obtain q t where qt: "app cb (vsize (buffer (get s)) + length bs) (put (circ_enter bs (get s)) s) = (q, t)"
    by fastforce
  let ?d = "(get t)\<lparr>hasContext := False\<rparr>"
  note eq = run [unfolded handler_unfold [where app = app, OF inv fits cb qt]]
  have "\<exists>b. s' = put b t"
  proof (cases q)
    case (Inl f)
    with eq show ?thesis by (auto simp: clear_context_def)
  next
    case (Inr x)
    with eq show ?thesis
      by (cases "shouldRead ?d")
        (auto simp: clear_context_def on_host_def host_laws split: prod.splits)
  qed
  with qt that show thesis by blast
qed

text \<open>
  A relation that the callbacks keep and that does not look at the buffer is kept by the handler.
\<close>

lemma handler_rel:
  assumes trans: "\<And>s t u. R s t \<Longrightarrow> R t u \<Longrightarrow> R s u" and put: "\<And>b s. R s (put b s)"
    and app: "\<And>cb n s. R s (snd (app cb n s))"
  shows "R s (snd (IoCircularBuffer_ReadSomeHandler nd get put app n s))"
proof -
  have refl: "R t t" for t using put [of t "get t"] by (simp add: put_get)
  define s1 where "s1 = put ((get s)\<lparr>hasContext := True\<rparr>) s"
  define s2 where "s2 = put ((get s1)\<lparr>buffer := vec_resize (vsize (buffer (get s1)) + n) (buffer (get s1))\<rparr>) s1"
  obtain r s3 where r: "(case notifyAvailable (get s2) of None \<Rightarrow> (Inl BadFunctionCall, s2)
      | Some cb \<Rightarrow> app cb (vsize (buffer (get s2))) s2) = (r, s3)"
    by fastforce
  have "R s2 s3"
    using r [THEN arg_cong [of _ _ snd]] refl [of s2] app by (cases "notifyAvailable (get s2)") auto
  moreover have "R s s1" "R s1 s2" by (simp_all add: s1_def s2_def put)
  ultimately have R3: "R s s1" "R s s2" "R s s3" using trans by blast+
  have c: "R s (clear_context get put s2)" "R s (clear_context get put s3)"
    unfolding clear_context_def by (rule trans [OF R3(2) put] trans [OF R3(3) put])+
  have o: "R s (snd (on_host get put f (clear_context get put s3)))"
    for f :: "'cb circ \<Rightarrow> (unit, 'cb circ) outcome"
    using trans [OF c(2) put] by (simp add: on_host_def split: prod.split)
  show ?thesis
    unfolding IoCircularBuffer_ReadSomeHandler_def s1_def [symmetric] Let_def s2_def [symmetric]
    using R3(1) c o by (cases r) (simp_all add: cassert_def r)
qed

end

section \<open>Runs\<close>

interpretation self_reader: reading_host self_get self_put
  by unfold_locales

text \<open>
  Everything that can happen to a buffer over its life, with the bytes the owner's reads have
  delivered so far: it is set up once with a positive chunk, reads are started, complete or fail,
  and anybody may call an accessor at any time.
\<close>

inductive circ_reach ::
  "bool \<Rightarrow> ('cb \<Rightarrow> nat \<Rightarrow> 'cb circ \<Rightarrow> (unit, 'cb circ) outcome) \<Rightarrow> byte list \<Rightarrow> 'cb circ \<Rightarrow> bool"
  for nd app where
  new: "circ_reach nd app [] (IoCircularBuffer_move_assign IoCircularBuffer_default IoCircularBuffer_new)"
| begin_chained: "circ_reach nd app rs c \<Longrightarrow> 0 < sint chunk \<Longrightarrow>
    IoCircularBuffer_BeginChainedRead nd (Some cb) chunk immediate c = (r, c') \<Longrightarrow>
    circ_reach nd app rs c'"
| begin_read: "circ_reach nd app rs c \<Longrightarrow> notifyAvailable c \<noteq> None \<Longrightarrow>
    IoCircularBuffer_BeginReadSome nd c = (r, c') \<Longrightarrow> circ_reach nd app rs c'"
| completed: "circ_reach nd app rs c \<Longrightarrow> fits_read bs c \<Longrightarrow>
    IoCircularBuffer_ReadSomeHandler nd self_get self_put app (length bs) (circ_fill bs c) = (r, c') \<Longrightarrow>
    circ_reach nd app (rs @ bs) c'"
| failed: "circ_reach nd app rs c \<Longrightarrow> reads c \<noteq> [] \<Longrightarrow>
    circ_reach nd app rs (IoCircularBuffer_EndReadSome (c\<lparr>reads := tl (reads c)\<rparr>))"
| outside: "circ_reach nd app rs c \<Longrightarrow> IoCircularBuffer_Consume nd len c = (r, c') \<Longrightarrow>
    circ_reach nd app rs c'"

text \<open>Every step but a completed read keeps the invariant, the data and the slot discipline.\<close>

lemma begin_chained_keeps:
  assumes "circ_inv c" and "0 < sint chunk"
    and "IoCircularBuffer_BeginChainedRead nd (Some cb) chunk immediate c = (r, c')"
  shows "circ_inv c' \<and> vec_data (buffer c') = vec_data (buffer c)
    \<and> (notifyAvailable c \<noteq> None \<longrightarrow> c' = c)
    \<and> (notifyAvailable c = None \<longrightarrow> chunkSize c' = chunk \<and> notifyAvailable c' = Some cb \<and>
        vec_capacity (buffer c') \<le> max (vsize (buffer c) + size_of_int chunk) (vec_capacity (buffer c)))"
proof (cases "notifyAvailable c = None")
  case False
  with assms show ?thesis by (auto simp: IoCircularBuffer_BeginChainedRead_def)
next
  case True
  define d where "d = c\<lparr>notifyAvailable := Some cb, chunkSize := chunk, shouldRead := immediate\<rparr>"
  have r: "reads c = []" using assms(1) True by (auto simp: circ_inv_def)
  have d: "circ_base d" "notifyAvailable d \<noteq> None" "\<not> hasContext d" "reads d = []"
    using assms(1,2) r by (auto simp: d_def circ_inv_def circ_base_def)
  then have di: "circ_inv d" by (simp add: circ_inv_def)
  show ?thesis
  proof (cases immediate)
    case False
    with assms(3) True di show ?thesis
      by (auto simp: IoCircularBuffer_BeginChainedRead_def d_def Let_def)
  next
    case True
    then have "shouldRead d" by (simp add: d_def)
    with \<open>notifyAvailable c = None\<close> True assms(3)
    have run: "IoCircularBuffer_ReadSome nd d = (r, c')"
      by (simp add: IoCircularBuffer_BeginChainedRead_def d_def Let_def)
    from d(1,2) \<open>shouldRead d\<close> d(3,4) show ?thesis
      by (cases rule: ReadSome_cases [where nd = nd])
        (use run di \<open>notifyAvailable c = None\<close> in \<open>auto simp: d_def\<close>)
  qed
qed

lemma begin_read_keeps:
  assumes "circ_inv c" and "notifyAvailable c \<noteq> None"
    and "IoCircularBuffer_BeginReadSome nd c = (r, c')"
  shows "circ_inv c' \<and> vec_data (buffer c') = vec_data (buffer c) \<and> chunkSize c' = chunkSize c
    \<and> notifyAvailable c' = notifyAvailable c
    \<and> vec_capacity (buffer c') \<le>
        max (vsize (buffer c) + size_of_int (chunkSize c)) (vec_capacity (buffer c))"
proof (cases "shouldRead c")
  case True
  with assms show ?thesis by (simp add: IoCircularBuffer_BeginReadSome_def)
next
  case False
  define d where "d = c\<lparr>shouldRead := True\<rparr>"
  have d: "circ_base d" "notifyAvailable d \<noteq> None" "shouldRead d" "\<not> hasContext d" "reads d = []"
    using assms(1,2) False by (auto simp: d_def circ_inv_def circ_base_def)
  then have di: "circ_inv d" by (simp add: circ_inv_def)
  from False assms(3) have run: "IoCircularBuffer_ReadSome nd d = (r, c')"
    by (simp add: IoCircularBuffer_BeginReadSome_def d_def)
  from d show ?thesis
    by (cases rule: ReadSome_cases [where nd = nd]) (use run di in \<open>auto simp: d_def\<close>)
qed

lemma failed_keeps:
  "circ_inv c \<Longrightarrow> circ_inv (IoCircularBuffer_EndReadSome (c\<lparr>reads := tl (reads c)\<rparr>))"
  by (auto simp: circ_inv_defs IoCircularBuffer_EndReadSome_def)

lemma move_assign_new [simp]:
  "IoCircularBuffer_move_assign IoCircularBuffer_default IoCircularBuffer_new = IoCircularBuffer_new"
  by (simp add: IoCircularBuffer_move_assign_def IoCircularBuffer_new_def IoCircularBuffer_default_def)

lemma self_access: "self_get x = x" "self_put x s = x"
  by (simp_all add: self_get_def self_put_def)

lemma self_handler_cases:
  assumes "circ_inv c" and "fits_read bs c" and "app_in_context nd self_get app"
    and "IoCircularBuffer_ReadSomeHandler nd self_get self_put app (length bs) (circ_fill bs c) = (r, c')"
  obtains k where "circ_inv c'"
    and "vec_data (buffer c') = drop k (vec_data (buffer c) @ map Some bs)"
    and "notifyAvailable c' = notifyAvailable c" and "chunkSize c' = chunkSize c"
    and "r = Inr () \<longleftrightarrow> reads c' \<noteq> []" and "shouldRead c'"
    and "vec_capacity (buffer c') =
           (if r = Inr () then max (vsize (buffer c') + size_of_int (chunkSize c)) (vec_capacity (buffer c))
            else vec_capacity (buffer c))"
  by (rule self_reader.handler_cases [of c bs nd app r c', unfolded self_access, OF assms [unfolded self_access]])

lemma new_data: "vec_data (buffer IoCircularBuffer_new) = []"
  by (simp add: IoCircularBuffer_new_def IoCircularBuffer_default_def vec_data_def vec_empty_def)

lemma suffix_extend:
  assumes "j \<le> length rs" and "xs = map Some (drop j rs)"
  obtains i where "i \<le> length (rs @ bs)"
    and "drop k (xs @ map Some bs) = map Some (drop i (rs @ bs))"
proof
  show "min (j + k) (length (rs @ bs)) \<le> length (rs @ bs)" by simp
  have "xs @ map Some bs = map Some (drop j (rs @ bs))"
    using assms by simp
  then show "drop k (xs @ map Some bs) = map Some (drop (min (j + k) (length (rs @ bs))) (rs @ bs))"
    by (cases "j + k \<le> length (rs @ bs)") (simp_all add: drop_map add.commute min_def del: map_append drop_append)
qed

lemma circ_reach_facts:
  assumes "circ_reach nd app rs c" and app: "app_in_context nd self_get app"
  shows "circ_inv c \<and> (\<exists>k \<le> length rs. vec_data (buffer c) = map Some (drop k rs))"
  using assms(1)
proof (induction rule: circ_reach.induct)
  case new
  show ?case
    using circ_inv_new new_data by simp
next
  case (begin_chained rs c chunk cb immediate r c')
  then show ?case using begin_chained_keeps [of c chunk nd cb immediate r c'] by simp
next
  case (begin_read rs c r c')
  then show ?case using begin_read_keeps [of c nd r c'] by simp
next
  case (completed rs c bs r c')
  then obtain j where inv: "circ_inv c" and j: "j \<le> length rs" "vec_data (buffer c) = map Some (drop j rs)"
    by blast
  from inv completed.hyps(2) app completed.hyps(3) obtain k where "circ_inv c'"
    and "vec_data (buffer c') = drop k (vec_data (buffer c) @ map Some bs)"
    by (rule self_handler_cases)
  moreover from j obtain i where "i \<le> length (rs @ bs)"
    "drop k (vec_data (buffer c) @ map Some bs) = map Some (drop i (rs @ bs))"
    by (rule suffix_extend)
  ultimately show ?case by auto
next
  case (failed rs c)
  then show ?case by (simp add: failed_keeps) (simp add: IoCircularBuffer_EndReadSome_def)
next
  case (outside rs c len r c')
  then have "\<not> hasContext c" by (simp add: circ_inv_def)
  with outside Consume_out [of c nd len] show ?case by simp
qed

section \<open>Properties\<close>

text \<open>
  The callback of the examples takes everything that is available, as the client of
  \<open>UnixDomainClient/ClientUnixConnection.cpp\<close> does.
\<close>

definition consume_all :: "'cb \<Rightarrow> nat \<Rightarrow> 'cb circ \<Rightarrow> (unit, 'cb circ) outcome" where
  "consume_all cb n c = IoCircularBuffer_Consume False n c"

definition keep_one :: "'cb \<Rightarrow> nat \<Rightarrow> 'cb circ \<Rightarrow> (unit, 'cb circ) outcome" where
  "keep_one cb n c = IoCircularBuffer_Consume False (n - 1) c"

lemma consume_all_in_context: "app_in_context False self_get consume_all"
  by (auto simp: app_in_context_def self_access consume_all_def intro!: r_into_rtranclp ctx_step.consume)

lemma keep_one_in_context: "app_in_context False self_get keep_one"
  by (auto simp: app_in_context_def self_access keep_one_def intro!: r_into_rtranclp ctx_step.consume)

lemma numeral_replicate: "replicate (numeral k) x = x # replicate (pred_numeral k) x"
  by (simp add: numeral_eq_Suc)

lemmas circ_eval =
  circ_defs IoCircularBuffer_ReadSomeHandler_def IoCircularBuffer_new_def
  IoCircularBuffer_default_def on_host_def clear_context_def self_access circ_fill_def vec_empty_def
  vec_reserve_def vec_resize_def vec_erase_front_def vec_poke_def vec_capacity_def vec_data_def
  vec_max_size_def size_add_def size_of_int_nonneg fits_read_def Let_def
  IoCircularBuffer_move_assign_def numeral_replicate

lemma example_begin: "circ_reach False app [] (IoCircularBuffer_new\<lparr>notifyAvailable := Some (0::nat),
    chunkSize := 4, shouldRead := True, buffer := \<lparr>cells = [None, None, None, None], vsize = 0\<rparr>,
    reads := [(0, 4)]\<rparr>)"
  by (rule circ_reach.begin_chained [OF circ_reach.new, where chunk = 4 and immediate = True and r = "Inr ()"])
    (simp_all add: circ_eval)

lemma example_read: "circ_reach False keep_one [7, 8, 9] (IoCircularBuffer_new\<lparr>notifyAvailable := Some (0::nat),
    chunkSize := 4, shouldRead := True,
    buffer := \<lparr>cells = [Some 9, None, None, None, None], vsize = 1\<rparr>, reads := [(1, 4)]\<rparr>)"
proof -
  have "circ_reach False keep_one ([] @ [7, 8, 9]) (IoCircularBuffer_new\<lparr>notifyAvailable := Some (0::nat),
    chunkSize := 4, shouldRead := True,
    buffer := \<lparr>cells = [Some 9, None, None, None, None], vsize = 1\<rparr>, reads := [(1, 4)]\<rparr>)"
    by (rule circ_reach.completed [OF example_begin, where r = "Inr ()"])
      (simp_all add: circ_eval keep_one_def)
  then show ?thesis by simp
qed

text \<open>
  C9: In every state a receive buffer can reach, however the application's read callback consumes
  and throws, at most one asynchronous read is outstanding, and the memory it writes to is a
  non-empty slot right behind the data and inside the current allocation, so the socket never
  writes out of bounds or over received bytes.
\<close>

theorem read_slot_in_allocation:
  assumes "circ_reach nd app rs c" and "app_in_context nd self_get app"
  shows "reads c = [] \<or>
    (\<exists>len. reads c = [(vsize (buffer c), len)] \<and> 0 < len
       \<and> vsize (buffer c) + len \<le> vec_capacity (buffer c))"
proof -
  from circ_reach_facts [OF assms] have "circ_inv c" by blast
  then show ?thesis
    by (auto simp: circ_inv_defs size_of_int_pos)
qed

theorem read_slot_in_allocation_witness:
  "reads (IoCircularBuffer_new\<lparr>notifyAvailable := Some (0::nat), chunkSize := 4, shouldRead := True,
     buffer := \<lparr>cells = [Some 9, None, None, None, None], vsize = 1\<rparr>, reads := [(1, 4)]\<rparr>) = [] \<or>
   (\<exists>len. [(1, 4)] = [(1, len)] \<and> 0 < len \<and> 1 + len \<le> (5::nat))"
  using read_slot_in_allocation [OF example_read keep_one_in_context]
  by (simp add: vec_capacity_def)



text \<open>
  Outside a read handler every accessor is refused with its own message (by the assertion in a
  debug build, by the exception otherwise) and leaves the buffer as it was.
\<close>

lemma accessors_need_context:
  assumes "\<not> hasContext c"
  shows "IoCircularBuffer_Consume nd n c = (Inl (context_fault nd ''Circular buffer must have the callback context to consume''), c)
    \<and> IoCircularBuffer_CopyTo nd dest len c = (Inl (context_fault nd ''Circular buffer must have the callback context to consume''), c)
    \<and> IoCircularBuffer_Get nd c = (Inl (context_fault nd ''Circular buffer must have the callback context to get data pointer''), c)
    \<and> IoCircularBuffer_Size nd c = (Inl (context_fault nd ''Circular buffer must have the callback context to get size''), c)
    \<and> IoCircularBuffer_Capacity nd c = (Inl (context_fault nd ''Circular buffer must have the callback context to get capacity''), c)"
  using assms by (simp add: circ_op_defs context_fault_def)

lemma accessors_need_context_witness:
  "IoCircularBuffer_Size True (IoCircularBuffer_new :: nat circ) =
     (Inl (RuntimeError ''Circular buffer must have the callback context to get size''), IoCircularBuffer_new)"
  using accessors_need_context [of "IoCircularBuffer_new :: nat circ" True]
  by (simp add: IoCircularBuffer_new_def IoCircularBuffer_default_def context_fault_def)

text \<open>
  The context flag is exactly the scope of the callback. Whatever the callback does, and also when
  it throws, a read handler returns with the flag cleared.
\<close>

lemma handler_leaves_context:
  assumes "vsize (buffer c) + n \<le> vec_capacity (buffer c)"
    and "IoCircularBuffer_ReadSomeHandler nd self_get self_put app n c = (r, c')"
  shows "\<not> hasContext c'"
proof -
  have rd: "hasContext (snd (IoCircularBuffer_ReadSome nd d)) = hasContext d" for d :: "'a circ"
    by (simp add: IoCircularBuffer_ReadSome_def cassert_def Let_def)
  show ?thesis
    using assms rd
    by (auto simp: IoCircularBuffer_ReadSomeHandler_def clear_context_def self_access on_host_def Let_def
        and_then_def split: if_splits prod.splits sum.splits option.splits)
      (metis circ.select_convs(1) circ.surjective circ.update_convs(1) snd_conv)+
qed

lemma handler_leaves_context_witness:
  "\<not> hasContext (snd (IoCircularBuffer_ReadSomeHandler True self_get self_put
      (\<lambda>cb n c. (Inl (AppException ''bad message''), c)) 1
      (IoCircularBuffer_new\<lparr>buffer := \<lparr>cells = [Some 1], vsize = 0\<rparr>, notifyAvailable := Some (0::nat)\<rparr>)))"
  by (rule handler_leaves_context [OF _ prod.collapse [symmetric]])
    (simp add: vec_capacity_def IoCircularBuffer_new_def)

text \<open>
  \<open>Consume\<close> in a read handler: up to the size it removes exactly that many bytes from the front,
  never shrinks the allocation and touches no other field; beyond the size it throws the message with
  both numbers and changes nothing.
\<close>

lemma consume_removes_front:
  assumes "hasContext c" and "vec_wf (buffer c)"
  shows "if n \<le> vsize (buffer c)
         then \<exists>b. IoCircularBuffer_Consume nd n c = (Inr (), c\<lparr>buffer := b\<rparr>)
                \<and> vec_data b = drop n (vec_data (buffer c))
                \<and> vec_capacity b = vec_capacity (buffer c)
         else IoCircularBuffer_Consume nd n c =
                (Inl (RuntimeError (''IO circular buffer consume of '' @ show_nat n @
                   '', available: '' @ show_nat (vsize (buffer c)))), c)"
proof (cases "n \<le> vsize (buffer c)")
  case True
  with assms obtain b where "IoCircularBuffer_Consume nd n c = (Inr (), c\<lparr>buffer := b\<rparr>)"
    "vec_data b = drop n (vec_data (buffer c))" "vec_capacity b = vec_capacity (buffer c)"
    using Consume_in by blast
  with True show ?thesis by auto
qed (use assms in \<open>simp add: Consume_too_much\<close>)

lemma consume_removes_front_witness:
  "IoCircularBuffer_Consume True 12
      (IoCircularBuffer_new\<lparr>hasContext := True, buffer := \<lparr>cells = [Some 1], vsize = 1\<rparr>\<rparr> :: nat circ) =
    (Inl (RuntimeError ''IO circular buffer consume of 12, available: 1''),
     IoCircularBuffer_new\<lparr>hasContext := True, buffer := \<lparr>cells = [Some 1], vsize = 1\<rparr>\<rparr>)"
proof -
  have "show_nat 12 = ''12''" "show_nat 1 = ''1''" by code_simp+
  then show ?thesis
    using consume_removes_front [of "IoCircularBuffer_new\<lparr>hasContext := True,
        buffer := \<lparr>cells = [Some 1], vsize = 1\<rparr>\<rparr> :: nat circ" 12 True]
    by (simp add: vec_wf_def vec_capacity_def)
qed

definition leaves_at_most ::
  "nat \<Rightarrow> ('cb \<Rightarrow> nat \<Rightarrow> 'cb circ \<Rightarrow> (unit, 'cb circ) outcome) \<Rightarrow> bool" where
  "leaves_at_most m app \<longleftrightarrow> (\<forall>cb c. circ_ctx c \<longrightarrow>
     vsize (buffer (snd (app cb (vsize (buffer c)) c))) \<le> m)"

lemma handler_leaves:
  assumes "circ_inv c" and "fits_read bs c" and "leaves_at_most m app"
    and "IoCircularBuffer_ReadSomeHandler nd self_get self_put app (length bs) (circ_fill bs c) = (r, c')"
  shows "vsize (buffer c') \<le> m"
proof -
  have rd: "vsize (buffer (snd (IoCircularBuffer_ReadSome nd d))) = vsize (buffer d)" for d :: "'a circ"
    by (simp add: IoCircularBuffer_ReadSome_def cassert_def Let_def vec_reserve_def)
  from assms(1,2) obtain cb where cb: "notifyAvailable c = Some cb"
    by (auto simp: circ_inv_defs fits_read_def)
  obtain q t where qt: "app cb (vsize (buffer c) + length bs) (circ_enter bs c) = (q, t)"
    by (cases "app cb (vsize (buffer c) + length bs) (circ_enter bs c)")
  have le: "vsize (buffer t) \<le> m"
    using assms(3) qt circ_enter_facts(1,3) [OF assms(1,2)]
    unfolding leaves_at_most_def by (metis snd_conv)
  show ?thesis
    using self_reader.handler_unfold [of c bs cb app q t nd] assms(1,2,4) cb qt le
    by (cases q) (auto simp: self_access clear_context_def on_host_def split: if_splits prod.splits
        dest!: arg_cong [of _ _ snd] simp: rd)
qed

text \<open>
  C21: Memory stays bounded by what the application leaves unread: if every callback leaves at most
  \<open>m\<close> bytes, the allocation never exceeds \<open>m\<close> plus one chunk.
\<close>

theorem capacity_bounded:
  assumes "circ_reach nd app rs c" and app: "app_in_context nd self_get app"
    and m: "leaves_at_most m app"
  shows "vec_capacity (buffer c) \<le> m + size_of_int (chunkSize c)"
proof -
  have "vec_capacity (buffer c) \<le> m + size_of_int (chunkSize c) \<and> vsize (buffer c) \<le> m
      \<and> (notifyAvailable c = None \<longrightarrow> vec_capacity (buffer c) = 0)"
    using assms(1)
  proof (induction rule: circ_reach.induct)
    case new
    show ?case
      by (simp add: IoCircularBuffer_new_def IoCircularBuffer_default_def
          IoCircularBuffer_move_assign_def vec_capacity_def vec_empty_def)
  next
    case (begin_chained rs c chunk cb immediate r c')
    then have "circ_inv c" using circ_reach_facts [OF _ app] by blast
    from begin_chained_keeps [OF this begin_chained.hyps(2,3)] begin_chained.IH
    show ?case
      using \<open>circ_inv c\<close> length_vec_data [of "buffer c"] length_vec_data [of "buffer c'"]
      by (cases "notifyAvailable c = None") (auto simp: circ_inv_defs)
  next
    case (begin_read rs c r c')
    then have "circ_inv c" using circ_reach_facts [OF _ app] by blast
    from begin_read_keeps [OF this begin_read.hyps(2,3)] begin_read.IH
    show ?case
      using \<open>circ_inv c\<close> length_vec_data [of "buffer c"] length_vec_data [of "buffer c'"]
        begin_read.hyps(2)
      by (auto simp: circ_inv_defs)
  next
    case (completed rs c bs r c')
    then have inv: "circ_inv c" using circ_reach_facts [OF _ app] by blast
    have "vsize (buffer c') \<le> m"
      using inv completed.hyps(2) m completed.hyps(3) by (rule handler_leaves)
    moreover have "notifyAvailable c \<noteq> None"
      using inv completed.hyps(2) by (auto simp: circ_inv_defs fits_read_def)
    ultimately show ?case
      using completed.IH
      by (auto intro: self_handler_cases [OF inv completed.hyps(2) app completed.hyps(3)] split: if_splits)
  next
    case (failed rs c)
    then show ?case by (simp add: IoCircularBuffer_EndReadSome_def)
  next
    case (outside rs c len r c')
    then have "\<not> hasContext c" using circ_reach_facts [OF _ app] by (auto simp: circ_inv_def)
    with outside Consume_out [of c nd len] show ?case by simp
  qed
  then show ?thesis by blast
qed

lemma keep_one_leaves: "leaves_at_most 1 keep_one"
proof -
  have "vsize (buffer (snd (IoCircularBuffer_Consume False (vsize (buffer c) - 1) c))) \<le> 1"
    if c: "circ_ctx c" for c :: "'a circ"
  proof -
    obtain b where b: "IoCircularBuffer_Consume False (vsize (buffer c) - 1) c = (Inr (), c\<lparr>buffer := b\<rparr>)"
      "vec_data b = drop (vsize (buffer c) - 1) (vec_data (buffer c))" "vec_wf b"
      using Consume_in [of c "vsize (buffer c) - 1" False] c by (auto simp: circ_ctx_def circ_base_def)
    then show ?thesis
      using length_vec_data [of b] length_vec_data [of "buffer c"] c
      by (simp add: circ_ctx_def circ_base_def)
  qed
  then show ?thesis by (simp add: leaves_at_most_def keep_one_def)
qed

theorem capacity_bounded_witness: "vec_capacity \<lparr>cells = [Some 9, None, None, None, None], vsize = 1\<rparr> \<le> 1 + 4"
  using capacity_bounded [OF example_read keep_one_in_context keep_one_leaves]
  by (simp add: size_of_int_nonneg)

text \<open>
  A callback that throws ends the reading for good: the exception leaves the handler, no read is
  outstanding, yet the buffer still counts as reading, so \<open>BeginReadSome\<close> does nothing.
\<close>

lemma throwing_callback_stalls:
  assumes "circ_reach nd app rs c" and "app_in_context nd self_get app" and "fits_read bs c"
    and "IoCircularBuffer_ReadSomeHandler nd self_get self_put app (length bs) (circ_fill bs c) = (Inl f, c')"
  shows "reads c' = [] \<and> IoCircularBuffer_BeginReadSome nd c' = (Inr (), c')"
proof -
  from circ_reach_facts [OF assms(1,2)] have "circ_inv c" by blast
  from this assms(3,2,4) have "reads c' = []" "shouldRead c'"
    by (rule self_handler_cases; simp)+
  then show ?thesis by (simp add: IoCircularBuffer_BeginReadSome_def)
qed

definition throw_always :: "'cb \<Rightarrow> nat \<Rightarrow> 'cb circ \<Rightarrow> (unit, 'cb circ) outcome" where
  "throw_always cb n c = (Inl (AppException ''bad message''), c)"

lemma throwing_callback_stalls_witness:
  "\<exists>c :: nat circ. circ_reach False throw_always [1] c \<and> reads c = []
     \<and> IoCircularBuffer_BeginReadSome False c = (Inr (), c)"
proof -
  let ?c0 = "IoCircularBuffer_new\<lparr>notifyAvailable := Some (0::nat),
    chunkSize := 4, shouldRead := True, buffer := \<lparr>cells = [None, None, None, None], vsize = 0\<rparr>,
    reads := [(0, 4)]\<rparr>"
  let ?run = "IoCircularBuffer_ReadSomeHandler False self_get self_put throw_always (length [1 :: byte]) (circ_fill [1] ?c0)"
  have app: "app_in_context False self_get throw_always"
    by (simp add: app_in_context_def throw_always_def)
  have fits: "fits_read [1] ?c0" by (simp add: fits_read_def)
  have run: "?run = (Inl (AppException ''bad message''), snd ?run)"
    by (simp add: circ_eval throw_always_def)
  have "circ_reach False throw_always ([] @ [1]) (snd ?run)"
    by (rule circ_reach.completed [OF example_begin fits run])
  with throwing_callback_stalls [OF example_begin app fits run] show ?thesis by auto
qed

text \<open>
  A chained read can be set up only once: a second \<open>BeginChainedRead\<close> throws and changes nothing.
\<close>

lemma second_chained_read_refused:
  assumes "notifyAvailable c \<noteq> None"
  shows "IoCircularBuffer_BeginChainedRead nd cb chunk immediate c =
           (Inl (RuntimeError ''IO circular buffer - read some already in progress''), c)"
  using assms by (simp add: IoCircularBuffer_BeginChainedRead_def)

end
