(* ===== verification/BufferWrappers.thy ===== *)
theory BufferWrappers
  imports IoPrelude
begin

text \<open>
  The messages that wait to be sent and the end points they go to:
  \<open>IoServices/IoBufferWrapper\<close>, \<open>IoEndPoint\<close> and \<open>UdpBufferWrapper\<close>. A move leaves its
  source in a state the model states too, since the sources are reused in places.
\<close>

section \<open>IoBufferWrapper\<close>

text \<open>
  The bytes live in \<open>Buffer\<close> or, for a moved-in string, in \<open>StringBuffer\<close>. The terminating
  zero of a \<open>std::string\<close> is part of its storage, so one byte past its size can be sent.
\<close>

record io_buffer =
  Buffer :: "byte list"
  StringBuffer :: "byte list"
  NullTerminate :: bool

definition IoBufferWrapper_copy_string :: "byte list \<Rightarrow> bool \<Rightarrow> io_buffer" where
  "IoBufferWrapper_copy_string msg nullTerminate =
     \<lparr>Buffer = (if nullTerminate then msg @ [0] else msg), StringBuffer = [], NullTerminate = nullTerminate\<rparr>"

definition IoBufferWrapper_move_string :: "byte list \<Rightarrow> bool \<Rightarrow> io_buffer" where
  "IoBufferWrapper_move_string msg nullTerminate =
     \<lparr>Buffer = [], StringBuffer = msg, NullTerminate = nullTerminate\<rparr>"

definition IoBufferWrapper_bytes :: "byte list \<Rightarrow> io_buffer" where
  "IoBufferWrapper_bytes rhs = \<lparr>Buffer = rhs, StringBuffer = [], NullTerminate = False\<rparr>"

text \<open>Move construction and move assignment: the new object and what is left of the source.\<close>

definition IoBufferWrapper_move :: "io_buffer \<Rightarrow> io_buffer \<times> io_buffer" where
  "IoBufferWrapper_move rhs =
     (\<lparr>Buffer = Buffer rhs, StringBuffer = StringBuffer rhs, NullTerminate = NullTerminate rhs\<rparr>,
      rhs\<lparr>Buffer := [], StringBuffer := []\<rparr>)"

definition IoBufferWrapper_move_assign :: "io_buffer \<Rightarrow> io_buffer \<Rightarrow> io_buffer \<times> io_buffer" where
  "IoBufferWrapper_move_assign lhs rhs =
     (lhs\<lparr>Buffer := Buffer rhs, StringBuffer := StringBuffer rhs, NullTerminate := NullTerminate rhs\<rparr>,
      rhs\<lparr>Buffer := [], StringBuffer := []\<rparr>)"

text \<open>The bytes of the boost buffer \<open>ToBoost\<close> makes: pointer and length, read through the string
  with its terminator.\<close>

definition IoBufferWrapper_ToBoost :: "io_buffer \<Rightarrow> byte list" where
  "IoBufferWrapper_ToBoost w =
     (if StringBuffer w \<noteq> []
      then let len = (if NullTerminate w then length (StringBuffer w) + 1 else length (StringBuffer w))
           in take len (StringBuffer w @ [0])
      else Buffer w)"

definition IoBufferWrapper_BoostSize :: "io_buffer \<Rightarrow> nat" where
  "IoBufferWrapper_BoostSize w =
     (if StringBuffer w \<noteq> []
      then (if NullTerminate w then length (StringBuffer w) + 1 else length (StringBuffer w))
      else length (Buffer w))"

named_theorems wrapper_defs

lemmas io_buffer_defs [wrapper_defs] =
  IoBufferWrapper_copy_string_def IoBufferWrapper_move_string_def IoBufferWrapper_bytes_def
  IoBufferWrapper_move_def IoBufferWrapper_move_assign_def IoBufferWrapper_ToBoost_def
  IoBufferWrapper_BoostSize_def

lemma BoostSize_length: "IoBufferWrapper_BoostSize w = length (IoBufferWrapper_ToBoost w)"
  by (simp add: io_buffer_defs Let_def)

text \<open>What the caller of a constructor asked to be sent.\<close>

definition wire_bytes :: "byte list \<Rightarrow> bool \<Rightarrow> byte list" where
  "wire_bytes msg nullTerminate = (if nullTerminate then msg @ [0] else msg)"

section \<open>IoEndPoint\<close>

text \<open>
  The implementation object of an end point. Address parsing and the broadcast address are boost's
  (\<open>from_string\<close>, \<open>broadcast\<close>). The members are initialised in the order of their declaration,
  \<open>_boostEndPoint\<close> before \<open>_isBroadcast\<close>, so the conditional in the initialiser of the first
  reads the second before it is set: \<open>raw\<close> is the indeterminate value it finds.
\<close>

record io_end_point =
  boostEndPoint :: end_point
  isBroadcast :: bool
  asyncConnected :: bool
  asyncReceivedFrom :: bool

definition broadcast_text :: string where
  "broadcast_text = ''255.255.255.255''"

definition IoEndPointImpl_string ::
  "(string \<Rightarrow> fault + ip_address) \<Rightarrow> ip_address \<Rightarrow> bool \<Rightarrow> string \<Rightarrow> c_int \<Rightarrow> fault + io_end_point" where
  "IoEndPointImpl_string from_string broadcast raw ipAddress port =
     (case (if raw then Inr broadcast else from_string ipAddress) of
        Inl f \<Rightarrow> Inl f
      | Inr addr \<Rightarrow> Inr \<lparr>boostEndPoint = (addr, ushort_of_int port),
                       isBroadcast = (ipAddress = broadcast_text),
                       asyncConnected = False, asyncReceivedFrom = False\<rparr>)"

definition IoEndPointImpl_copy :: "io_end_point \<Rightarrow> io_end_point" where
  "IoEndPointImpl_copy rhs =
     \<lparr>boostEndPoint = boostEndPoint rhs, isBroadcast = isBroadcast rhs,
      asyncConnected = False, asyncReceivedFrom = False\<rparr>"

definition IoEndPointImpl_boost :: "end_point \<Rightarrow> bool \<Rightarrow> bool \<Rightarrow> io_end_point" where
  "IoEndPointImpl_boost boostEp connected receivedFrom =
     \<lparr>boostEndPoint = boostEp, isBroadcast = False,
      asyncConnected = connected, asyncReceivedFrom = receivedFrom\<rparr>"

text \<open>
  \<open>IoEndPoint\<close> owns its implementation through a pointer that is null after default construction
  and after a move; every member function follows the pointer.
\<close>

type_synonym IoEndPoint = "io_end_point option"

definition IoEndPoint_default :: IoEndPoint where
  "IoEndPoint_default = None"

definition IoEndPoint_deref :: "IoEndPoint \<Rightarrow> (io_end_point \<Rightarrow> 'a) \<Rightarrow> fault + 'a" where
  "IoEndPoint_deref ep f =
     (case ep of None \<Rightarrow> Inl (Undefined ''null _impl'') | Some i \<Rightarrow> Inr (f i))"

definition IoEndPoint_copy :: "IoEndPoint \<Rightarrow> fault + IoEndPoint" where
  "IoEndPoint_copy rhs = IoEndPoint_deref rhs (\<lambda>i. Some (IoEndPointImpl_copy i))"

definition IoEndPoint_move :: "IoEndPoint \<Rightarrow> IoEndPoint \<times> IoEndPoint" where
  "IoEndPoint_move rhs = (rhs, None)"

definition IoEndPoint_string ::
  "(string \<Rightarrow> fault + ip_address) \<Rightarrow> ip_address \<Rightarrow> bool \<Rightarrow> string \<Rightarrow> c_int \<Rightarrow> fault + IoEndPoint" where
  "IoEndPoint_string from_string broadcast raw ipAddress port =
     (case IoEndPointImpl_string from_string broadcast raw ipAddress port of
        Inl f \<Rightarrow> Inl f | Inr i \<Rightarrow> Inr (Some i))"

definition IoEndPoint_boost :: "end_point \<Rightarrow> bool \<Rightarrow> bool \<Rightarrow> IoEndPoint" where
  "IoEndPoint_boost boostEp connected receivedFrom =
     Some (IoEndPointImpl_boost boostEp connected receivedFrom)"

definition IoEndPoint_ToBoost :: "IoEndPoint \<Rightarrow> fault + end_point" where
  "IoEndPoint_ToBoost ep = IoEndPoint_deref ep boostEndPoint"

text \<open>\<open>to_string\<close> (boost's) gives the text or an error code.\<close>

definition IoEndPoint_IpAddress ::
  "(ip_address \<Rightarrow> error_code + string) \<Rightarrow> IoEndPoint \<Rightarrow> fault + string" where
  "IoEndPoint_IpAddress to_text ep =
     IoEndPoint_deref ep (\<lambda>i. case to_text (fst (boostEndPoint i)) of
        Inl ec \<Rightarrow> ''bad IP address: '' @ ec_message ec
      | Inr addrStr \<Rightarrow> addrStr)"

definition IoEndPoint_Port :: "IoEndPoint \<Rightarrow> fault + c_int" where
  "IoEndPoint_Port ep = IoEndPoint_deref ep (\<lambda>i. ucast (snd (boostEndPoint i)))"

text \<open>
  The IPv4 views of the address. \<open>v4_bytes\<close> and \<open>v4_number\<close> are boost's
  \<open>to_v4().to_bytes()\<close> and \<open>to_v4().to_ulong()\<close>, which throw for an IPv6 address.
\<close>

definition IoEndPoint_IpV4NetworkBytes ::
  "(ip_address \<Rightarrow> fault + byte list) \<Rightarrow> IoEndPoint \<Rightarrow> fault + byte list" where
  "IoEndPoint_IpV4NetworkBytes v4_bytes ep =
     (case IoEndPoint_ToBoost ep of Inl f \<Rightarrow> Inl f | Inr b \<Rightarrow> v4_bytes (fst b))"

definition IoEndPoint_IpV4HostBytes ::
  "(ip_address \<Rightarrow> fault + 32 word) \<Rightarrow> IoEndPoint \<Rightarrow> fault + 32 word" where
  "IoEndPoint_IpV4HostBytes v4_number ep =
     (case IoEndPoint_ToBoost ep of Inl f \<Rightarrow> Inl f | Inr b \<Rightarrow> v4_number (fst b))"

definition IoEndPoint_IsBroadcast :: "IoEndPoint \<Rightarrow> fault + bool" where
  "IoEndPoint_IsBroadcast ep = IoEndPoint_deref ep isBroadcast"

definition IoEndPoint_HasAsyncConnected :: "IoEndPoint \<Rightarrow> fault + bool" where
  "IoEndPoint_HasAsyncConnected ep = IoEndPoint_deref ep asyncConnected"

definition IoEndPoint_HasAsyncReceivedFrom :: "IoEndPoint \<Rightarrow> fault + bool" where
  "IoEndPoint_HasAsyncReceivedFrom ep = IoEndPoint_deref ep asyncReceivedFrom"

text \<open>The text the stream operators write.\<close>

definition IoEndPoint_print :: "(ip_address \<Rightarrow> error_code + string) \<Rightarrow> IoEndPoint \<Rightarrow> fault + string" where
  "IoEndPoint_print to_text ep =
     (case (IoEndPoint_IpAddress to_text ep, IoEndPoint_Port ep, IoEndPoint_HasAsyncConnected ep,
            IoEndPoint_HasAsyncReceivedFrom ep) of
        (Inr a, Inr p, Inr c, Inr r) \<Rightarrow>
          Inr (a @ '':'' @ show_c_int p @ '' connected: '' @ (if c then ''true'' else ''false'')
               @ '' received from: '' @ (if r then ''true'' else ''false''))
      | _ \<Rightarrow> Inl (Undefined ''null _impl''))"

lemmas end_point_defs [wrapper_defs] =
  IoEndPointImpl_string_def IoEndPointImpl_copy_def IoEndPointImpl_boost_def IoEndPoint_default_def
  IoEndPoint_deref_def IoEndPoint_copy_def IoEndPoint_move_def IoEndPoint_string_def
  IoEndPoint_boost_def IoEndPoint_ToBoost_def IoEndPoint_IpAddress_def IoEndPoint_Port_def
  IoEndPoint_IsBroadcast_def IoEndPoint_HasAsyncConnected_def IoEndPoint_HasAsyncReceivedFrom_def
  IoEndPoint_print_def

section \<open>UdpBufferWrapper\<close>

text \<open>A message with the end point it goes to; null for a connected socket.\<close>

record udp_buffer =
  bufferWrapper :: io_buffer
  destEndPoint :: "IoEndPoint option"

definition UdpBufferWrapper_copy_string :: "byte list \<Rightarrow> bool \<Rightarrow> udp_buffer" where
  "UdpBufferWrapper_copy_string msg nullTerminate =
     \<lparr>bufferWrapper = IoBufferWrapper_copy_string msg nullTerminate, destEndPoint = None\<rparr>"

definition UdpBufferWrapper_move_string :: "byte list \<Rightarrow> bool \<Rightarrow> udp_buffer" where
  "UdpBufferWrapper_move_string msg nullTerminate =
     \<lparr>bufferWrapper = IoBufferWrapper_move_string msg nullTerminate, destEndPoint = None\<rparr>"

definition UdpBufferWrapper_string_to ::
  "(string \<Rightarrow> c_int \<Rightarrow> fault + IoEndPoint) \<Rightarrow> byte list \<Rightarrow> string \<Rightarrow> c_int \<Rightarrow> bool \<Rightarrow> fault + udp_buffer" where
  "UdpBufferWrapper_string_to make_end_point msg destIp port nullTerminate =
     (case make_end_point destIp port of
        Inl f \<Rightarrow> Inl f
      | Inr ep \<Rightarrow> Inr \<lparr>bufferWrapper = IoBufferWrapper_move_string msg nullTerminate,
                     destEndPoint = Some ep\<rparr>)"

definition UdpBufferWrapper_bytes :: "byte list \<Rightarrow> udp_buffer" where
  "UdpBufferWrapper_bytes rhs = \<lparr>bufferWrapper = IoBufferWrapper_bytes rhs, destEndPoint = None\<rparr>"

definition UdpBufferWrapper_bytes_to :: "byte list \<Rightarrow> IoEndPoint \<Rightarrow> fault + udp_buffer" where
  "UdpBufferWrapper_bytes_to rhs dest =
     (case IoEndPoint_copy dest of
        Inl f \<Rightarrow> Inl f
      | Inr ep \<Rightarrow> Inr \<lparr>bufferWrapper = IoBufferWrapper_bytes rhs, destEndPoint = Some ep\<rparr>)"

text \<open>The move constructor takes the message and starts with no destination.\<close>

definition UdpBufferWrapper_move :: "udp_buffer \<Rightarrow> udp_buffer \<times> udp_buffer" where
  "UdpBufferWrapper_move rhs =
     (case IoBufferWrapper_move (bufferWrapper rhs) of
        (w, rest) \<Rightarrow> (\<lparr>bufferWrapper = w, destEndPoint = None\<rparr>, rhs\<lparr>bufferWrapper := rest\<rparr>))"

definition UdpBufferWrapper_move_assign :: "udp_buffer \<Rightarrow> udp_buffer \<Rightarrow> udp_buffer \<times> udp_buffer" where
  "UdpBufferWrapper_move_assign lhs rhs =
     (case IoBufferWrapper_move_assign (bufferWrapper lhs) (bufferWrapper rhs) of
        (w, rest) \<Rightarrow> (lhs\<lparr>bufferWrapper := w, destEndPoint := destEndPoint rhs\<rparr>,
                     rhs\<lparr>bufferWrapper := rest, destEndPoint := None\<rparr>))"

definition UdpBufferWrapper_ToBoost :: "udp_buffer \<Rightarrow> byte list" where
  "UdpBufferWrapper_ToBoost u = IoBufferWrapper_ToBoost (bufferWrapper u)"

definition UdpBufferWrapper_BoostSize :: "udp_buffer \<Rightarrow> nat" where
  "UdpBufferWrapper_BoostSize u = IoBufferWrapper_BoostSize (bufferWrapper u)"

definition UdpBufferWrapper_DestEp :: "udp_buffer \<Rightarrow> IoEndPoint option" where
  "UdpBufferWrapper_DestEp u = destEndPoint u"

lemmas udp_buffer_defs [wrapper_defs] =
  UdpBufferWrapper_copy_string_def UdpBufferWrapper_move_string_def UdpBufferWrapper_string_to_def
  UdpBufferWrapper_bytes_def UdpBufferWrapper_bytes_to_def UdpBufferWrapper_move_def
  UdpBufferWrapper_move_assign_def UdpBufferWrapper_ToBoost_def UdpBufferWrapper_BoostSize_def
  UdpBufferWrapper_DestEp_def

section \<open>Properties\<close>

text \<open>
  The bytes a message puts on the wire. The copying constructor and the byte vector send exactly
  what was asked for; the constructor that takes a moved string does so for every message but one: an
  empty string to be null-terminated sends nothing instead of a zero byte.
\<close>

lemma message_wire_bytes:
  "IoBufferWrapper_ToBoost (IoBufferWrapper_copy_string msg nt) = wire_bytes msg nt
   \<and> IoBufferWrapper_ToBoost (IoBufferWrapper_bytes msg) = msg
   \<and> (IoBufferWrapper_ToBoost (IoBufferWrapper_move_string msg nt) = wire_bytes msg nt
        \<longleftrightarrow> \<not> (msg = [] \<and> nt))
   \<and> IoBufferWrapper_BoostSize w = length (IoBufferWrapper_ToBoost w)"
  by (auto simp: BoostSize_length) (simp_all add: io_buffer_defs wire_bytes_def)

text \<open>
  Moving a message keeps its bytes and empties the source: what is sent from the new object is what
  the old one would have sent, for construction and for assignment.
\<close>

lemma message_move_roundtrip:
  "IoBufferWrapper_ToBoost (fst (IoBufferWrapper_move w)) = IoBufferWrapper_ToBoost w
   \<and> IoBufferWrapper_ToBoost (snd (IoBufferWrapper_move w)) = []
   \<and> fst (IoBufferWrapper_move_assign v w) = fst (IoBufferWrapper_move w)
   \<and> snd (IoBufferWrapper_move_assign v w) = snd (IoBufferWrapper_move w)"
  by (simp add: io_buffer_defs)

text \<open>
  A datagram keeps its bytes through move construction and move assignment, but only the assignment
  keeps its destination: after move construction a datagram addressed to an end point has none, and
  would be sent as if the socket were connected.
\<close>

lemma datagram_move_destination:
  "UdpBufferWrapper_ToBoost (fst (UdpBufferWrapper_move u)) = UdpBufferWrapper_ToBoost u
   \<and> UdpBufferWrapper_DestEp (fst (UdpBufferWrapper_move u)) = None
   \<and> UdpBufferWrapper_ToBoost (fst (UdpBufferWrapper_move_assign v u)) = UdpBufferWrapper_ToBoost u
   \<and> UdpBufferWrapper_DestEp (fst (UdpBufferWrapper_move_assign v u)) = UdpBufferWrapper_DestEp u"
  by (simp add: udp_buffer_defs io_buffer_defs)

lemma ushort_of_int_mod: "uint (ushort_of_int n) = sint n mod 65536"
proof -
  have "uint (ushort_of_int n) = uint n mod 65536"
    by (simp add: ushort_of_int_def unsigned_ucast_eq take_bit_eq_mod)
  also have "\<dots> = (sint n mod 2 ^ 32) mod 65536"
    by (simp add: uint_sint take_bit_eq_mod)
  also have "\<dots> = sint n mod 65536"
    by (simp add: mod_mod_cancel)
  finally show ?thesis .
qed

lemma sint_ucast_ushort: "sint (ucast (p :: ushort) :: c_int) = uint p"
proof -
  have small: "signed_take_bit 31 k = k" if "0 \<le> k" "k < 65536" for k :: int
    using that by (simp add: signed_take_bit_int_eq_self)
  have "uint p < 65536" using uint_lt2p [of p] by simp
  then have "signed_take_bit 31 (uint p) = uint p"
    by (intro small) simp_all
  then show ?thesis
    by (simp add: sint_uint uint_up_ucast is_up)
qed

text \<open>
  The port of an end point made from text is reported modulo 65536: it comes back unchanged exactly
  when it is a port number, and any other \<open>int\<close> is silently turned into one.
\<close>

lemma end_point_port_truncated:
  assumes "IoEndPoint_string from_string broadcast raw ipAddress port = Inr ep"
  shows "\<exists>p. IoEndPoint_Port ep = Inr p \<and> sint p = sint port mod 65536
           \<and> (p = port \<longleftrightarrow> 0 \<le> sint port \<and> sint port < 65536)"
proof -
  let ?p = "ucast (ushort_of_int port) :: c_int"
  from assms have "IoEndPoint_Port ep = Inr ?p"
    by (auto simp: end_point_defs split: sum.splits)
  moreover have s: "sint ?p = sint port mod 65536"
    by (simp only: sint_ucast_ushort ushort_of_int_mod)
  moreover have "?p = port \<longleftrightarrow> sint ?p = sint port"
    by (auto intro: signed_word_eqI)
  then have "?p = port \<longleftrightarrow> 0 \<le> sint port \<and> sint port < 65536"
    using pos_mod_bound [of 65536 "sint port"] pos_mod_sign [of 65536 "sint port"]
    by (simp only: s) (auto simp: mod_pos_pos_trivial)
  ultimately show ?thesis by blast
qed

lemma end_point_port_truncated_witness:
  "\<exists>p :: c_int. sint p = 70000 mod 65536 \<and> (p = 70000 \<longleftrightarrow> 0 \<le> (70000 :: int) \<and> (70000 :: int) < 65536)"
  using end_point_port_truncated [of "\<lambda>_. Inr (V4 2130706433)" "V4 0" False "''127.0.0.1''" 70000]
  by (auto simp: end_point_defs)

text \<open>
  The initialiser of the boost end point reads \<open>_isBroadcast\<close> before it is set. When the
  indeterminate value happens to be false the address is the parsed one; when it is true the end
  point is the broadcast address whatever text was given, no parse error is reported, and
  \<open>IsBroadcast\<close> still answers from the text.
\<close>

lemma end_point_initialisation_order:
  "IoEndPoint_string from_string broadcast False ipAddress port =
     (case from_string ipAddress of Inl f \<Rightarrow> Inl f
      | Inr a \<Rightarrow> Inr (Some \<lparr>boostEndPoint = (a, ushort_of_int port),
           isBroadcast = (ipAddress = broadcast_text), asyncConnected = False, asyncReceivedFrom = False\<rparr>))
   \<and> IoEndPoint_string from_string broadcast True ipAddress port =
       Inr (Some \<lparr>boostEndPoint = (broadcast, ushort_of_int port),
           isBroadcast = (ipAddress = broadcast_text), asyncConnected = False, asyncReceivedFrom = False\<rparr>)"
  by (simp add: end_point_defs split: sum.split)

text \<open>
  The copy of an end point reports the same address, port and broadcast flag, but always answers
  that it was neither connected nor received from: the two flags \<open>GetPeerEndPoint\<close> sets do not
  survive a copy. Copying a default-constructed or moved-from end point follows a null pointer.
\<close>

lemma end_point_copy:
  "(case IoEndPoint_copy ep of
      Inl f \<Rightarrow> ep = None \<and> f = Undefined ''null _impl''
    | Inr ep' \<Rightarrow>
        IoEndPoint_ToBoost ep' = IoEndPoint_ToBoost ep \<and> IoEndPoint_Port ep' = IoEndPoint_Port ep
        \<and> IoEndPoint_IsBroadcast ep' = IoEndPoint_IsBroadcast ep
        \<and> IoEndPoint_HasAsyncConnected ep' = Inr False \<and> IoEndPoint_HasAsyncReceivedFrom ep' = Inr False)
   \<and> IoEndPoint_copy (snd (IoEndPoint_move ep)) = Inl (Undefined ''null _impl'')"
  by (cases ep) (simp_all add: end_point_defs)

end
