(* ===== verification/WriteQueue.thy ===== *)
theory WriteQueue
  imports IoPrelude
begin

text \<open>
  The discipline that every sender of the program keeps (\<open>TcpPeerConnection\<close>,
  \<open>TcpDomainConnection\<close> and \<open>UdpListener\<close>): a queue of messages of which only the front one
  is handed to the socket, the next one being handed over when the completion of the previous one
  arrives. The interface \<open>write_queue\<close> states what one operation does to the queue and to the
  writes in flight; what follows from it over any interleaving is proved here once. Also here: the
  scripts that stand for application callbacks.
\<close>

section \<open>Application callbacks as scripts\<close>

text \<open>
  A callback is a list of calls into the library. It may let an exception of a call escape
  (\<open>Do\<close>), catch it (\<open>Try\<close>) or throw itself. A failed assertion, a deadlock or undefined
  behaviour cannot be caught.
\<close>

datatype 'a app_step = Do 'a | Try 'a | Throw string

fun catchable :: "fault \<Rightarrow> bool" where
  "catchable (Aborted _) = False"
| "catchable (Deadlock _) = False"
| "catchable (Undefined _) = False"
| "catchable _ = True"

fun run_script :: "('a \<Rightarrow> 's \<Rightarrow> (unit, 's) outcome) \<Rightarrow> 'a app_step list \<Rightarrow> 's \<Rightarrow> (unit, 's) outcome" where
  "run_script call [] s = (Inr (), s)"
| "run_script call (Do a # as) s = and_then (call a s) (\<lambda>_ s. run_script call as s)"
| "run_script call (Try a # as) s =
     (case call a s of
        (Inl f, s') \<Rightarrow> if catchable f then run_script call as s' else (Inl f, s')
      | (Inr _, s') \<Rightarrow> run_script call as s')"
| "run_script call (Throw msg # as) s = (Inl (AppException msg), s)"

text \<open>A relation that every call keeps is kept by every script.\<close>

lemma run_script_rel:
  assumes refl: "\<And>s. R s s" and trans: "\<And>s t u. R s t \<Longrightarrow> R t u \<Longrightarrow> R s u"
    and call: "\<And>a s. R s (snd (call a s))"
  shows "R s (snd (run_script call as s))"
proof (induction as arbitrary: s)
  case (Cons x as)
  show ?case
  proof (cases x)
    case (Do a)
    obtain r s' where a: "call a s = (r, s')" by fastforce
    with call have "R s s'" by (metis snd_conv)
    with Cons [of s'] a Do trans refl show ?thesis by (cases r) auto
  next
    case (Try a)
    obtain r s' where a: "call a s = (r, s')" by fastforce
    with call have "R s s'" by (metis snd_conv)
    with Cons [of s'] a Try trans refl show ?thesis by (cases r) auto
  qed (simp add: refl)
qed (simp add: refl)

text \<open>What the calls of one script keep, the script keeps.\<close>

fun script_calls :: "'a app_step list \<Rightarrow> 'a list" where
  "script_calls [] = []"
| "script_calls (Do a # as) = a # script_calls as"
| "script_calls (Try a # as) = a # script_calls as"
| "script_calls (Throw msg # as) = script_calls as"

lemma run_script_inv:
  assumes "\<And>a s. a \<in> set (script_calls as) \<Longrightarrow> P s \<Longrightarrow> P (snd (call a s))" and "P s"
  shows "P (snd (run_script call as s))"
  using assms
proof (induction as arbitrary: s rule: script_calls.induct)
  case (2 a as)
  obtain r s' where a: "call a s = (r, s')" by fastforce
  with "2.prems"(1) [of a s] "2.prems"(2) have "P s'" by simp
  with "2.IH" [of s'] "2.prems"(1) a show ?case by (cases r) auto
next
  case (3 a as)
  obtain r s' where a: "call a s = (r, s')" by fastforce
  with "3.prems"(1) [of a s] "3.prems"(2) have "P s'" by simp
  with "3.IH" [of s'] "3.prems"(1) a show ?case by (cases r) auto
qed simp_all

text \<open>Two calls that agree where a property holds, which they keep, run every script alike.\<close>

lemma run_script_cong:
  assumes "\<And>a s. P s \<Longrightarrow> call' a s = call a s" and "\<And>a s. P s \<Longrightarrow> P (snd (call a s))" and "P s"
  shows "run_script call' as s = run_script call as s"
  using assms(3)
proof (induction as arbitrary: s)
  case (Cons x as)
  show ?case
  proof (cases x)
    case (Do a)
    obtain r s' where a: "call a s = (r, s')" by fastforce
    with assms(1,2) [OF Cons.prems, of a] Cons.IH [of s'] Do show ?thesis by (cases r) auto
  next
    case (Try a)
    obtain r s' where a: "call a s = (r, s')" by fastforce
    with assms(1,2) [OF Cons.prems, of a] Cons.IH [of s'] Try show ?thesis by (cases r) auto
  qed simp
qed simp

section \<open>The interface\<close>

text \<open>
  \<open>queue\<close> is the queue of accepted messages, \<open>flight\<close> the outstanding asynchronous writes
  (oldest first), \<open>handed\<close> what the socket was ever given to write and \<open>wire\<close> what it is
  given for a message, \<open>enqueue\<close> accepts a message, \<open>complete n\<close> is the completion of the
  oldest outstanding write with \<open>n\<close> bytes, \<open>msize\<close> the number of bytes a message should take.
  The laws allow a message at the front not to be handed over at once, since a socket may have to
  be opened first and that can fail.
\<close>

locale write_queue =
  fixes queue :: "'s \<Rightarrow> 'm list" and flight :: "'s \<Rightarrow> 'm list"
    and handed :: "'s \<Rightarrow> 'w list" and wire :: "'m \<Rightarrow> 'w"
    and enqueue :: "'m \<Rightarrow> 's \<Rightarrow> 's" and complete :: "nat \<Rightarrow> 's \<Rightarrow> 's" and msize :: "'m \<Rightarrow> nat"
  assumes enqueue_queue: "queue (enqueue m s) = queue s @ [m]"
    and enqueue_busy: "queue s \<noteq> [] \<Longrightarrow>
      flight (enqueue m s) = flight s \<and> handed (enqueue m s) = handed s"
    and enqueue_idle: "queue s = [] \<Longrightarrow>
      flight (enqueue m s) = flight s \<and> handed (enqueue m s) = handed s
      \<or> flight (enqueue m s) = flight s @ [m] \<and> handed (enqueue m s) = handed s @ [wire m]"
    and complete_queue: "flight s = m # fs \<Longrightarrow> queue s = m # q \<Longrightarrow>
      queue (complete (msize m) s) = q"
    and complete_flight: "flight s = m # fs \<Longrightarrow> queue s = m # q \<Longrightarrow>
      flight (complete (msize m) s) = fs \<and> handed (complete (msize m) s) = handed s
      \<or> flight (complete (msize m) s) = fs @ take 1 q
        \<and> handed (complete (msize m) s) = handed s @ map wire (take 1 q)"
    and complete_short: "flight s = m # fs \<Longrightarrow> n \<noteq> msize m \<Longrightarrow>
      queue (complete n s) = queue s \<and> flight (complete n s) = fs \<and> handed (complete n s) = handed s"

text \<open>
  A run of a sender from an empty queue, with the messages accepted so far and those of which the
  socket reported every byte written. \<open>other\<close> is any operation that is not about sending.
\<close>

inductive wq_run ::
  "('s \<Rightarrow> 'm list) \<Rightarrow> ('s \<Rightarrow> 'm list) \<Rightarrow> ('s \<Rightarrow> 'w list) \<Rightarrow> ('m \<Rightarrow> 's \<Rightarrow> 's) \<Rightarrow> (nat \<Rightarrow> 's \<Rightarrow> 's) \<Rightarrow>
   ('m \<Rightarrow> nat) \<Rightarrow> 'm list \<Rightarrow> 'm list \<Rightarrow> 's \<Rightarrow> bool"
  for queue flight handed enqueue complete msize where
  start: "queue s = [] \<Longrightarrow> flight s = [] \<Longrightarrow> handed s = [] \<Longrightarrow> wq_run queue flight handed enqueue complete msize [] [] s"
| enq: "wq_run queue flight handed enqueue complete msize acc sent s \<Longrightarrow>
    wq_run queue flight handed enqueue complete msize (acc @ [m]) sent (enqueue m s)"
| full: "wq_run queue flight handed enqueue complete msize acc sent s \<Longrightarrow> flight s = m # fs \<Longrightarrow>
    wq_run queue flight handed enqueue complete msize acc (sent @ [m]) (complete (msize m) s)"
| short: "wq_run queue flight handed enqueue complete msize acc sent s \<Longrightarrow> flight s = m # fs \<Longrightarrow> n \<noteq> msize m \<Longrightarrow>
    wq_run queue flight handed enqueue complete msize acc sent (complete n s)"
| other: "wq_run queue flight handed enqueue complete msize acc sent s \<Longrightarrow> queue s' = queue s \<Longrightarrow>
    flight s' = flight s \<Longrightarrow> handed s' = handed s \<Longrightarrow> wq_run queue flight handed enqueue complete msize acc sent s'"

text \<open>The queue stalls when messages wait and no write is outstanding.\<close>

definition stalled :: "('s \<Rightarrow> 'm list) \<Rightarrow> ('s \<Rightarrow> 'm list) \<Rightarrow> 's \<Rightarrow> bool" where
  "stalled queue flight s \<longleftrightarrow> queue s \<noteq> [] \<and> flight s = []"

fun complete_all :: "('s \<Rightarrow> 'm list) \<Rightarrow> (nat \<Rightarrow> 's \<Rightarrow> 's) \<Rightarrow> ('m \<Rightarrow> nat) \<Rightarrow> nat \<Rightarrow> 's \<Rightarrow> 's" where
  "complete_all flight complete msize 0 s = s"
| "complete_all flight complete msize (Suc k) s =
     (case flight s of [] \<Rightarrow> s
      | m # _ \<Rightarrow> complete_all flight complete msize k (complete (msize m) s))"

context write_queue
begin

abbreviation run where "run \<equiv> wq_run queue flight handed enqueue complete msize"

text \<open>
  First in, first out, nothing lost or repeated: the accepted messages are the sent ones followed
  by the queue. At most one write is outstanding, and it is of the message at the front. The socket
  was given the sent messages and then at most the front one, once.
\<close>

lemma run_facts:
  "run acc sent s \<Longrightarrow>
    acc = sent @ queue s
    \<and> (flight s = [] \<and> handed s = map wire (sent @ take (length (handed s) - length sent) (queue s))
         \<and> length (handed s) \<le> length sent + 1
       \<or> (\<exists>m q. queue s = m # q \<and> flight s = [m] \<and> handed s = map wire (sent @ [m])))"
proof (induction rule: wq_run.induct)
  case (enq acc sent s m)
  show ?case
  proof (cases "queue s")
    case Nil
    then have "handed s = map wire sent" using enq.IH by auto
    with Nil enq.IH enqueue_queue [of m s] enqueue_idle [of s m] show ?thesis by auto
  next
    case (Cons x xs)
    with enq.IH enqueue_queue [of m s] enqueue_busy [of s m] show ?thesis by (auto simp: take_Cons')
  qed
next
  case (full acc sent s m fs)
  then obtain q where q: "queue s = m # q" "fs = []" "handed s = map wire (sent @ [m])" by auto
  with full complete_queue [OF full.hyps(2) q(1)] complete_flight [OF full.hyps(2) q(1)]
  show ?case by (cases q) auto
next
  case (short acc sent s m fs n)
  with complete_short [OF short.hyps(2,3)] show ?case by auto
qed auto

lemma fifo: "run acc sent s \<Longrightarrow> acc = sent @ queue s"
  using run_facts by blast

lemma one_in_flight: "run acc sent s \<Longrightarrow> flight s = [] \<or> flight s = [hd (queue s)] \<and> queue s \<noteq> []"
  using run_facts by fastforce

lemma handed_prefix:
  assumes "run acc sent s"
  shows "handed s = map wire (take (length (handed s)) acc)
    \<and> length sent \<le> length (handed s) \<and> length (handed s) \<le> length sent + 1"
proof -
  note f = run_facts [OF assms]
  consider (idle) "handed s = map wire (sent @ take (length (handed s) - length sent) (queue s))"
      "length (handed s) \<le> length sent + 1"
    | (busy) m q where "queue s = m # q" "handed s = map wire (sent @ [m])"
    using f by blast
  then show ?thesis
  proof cases
    case idle
    then have "length (handed s) = length sent + min (length (queue s)) (length (handed s) - length sent)"
      by (metis length_append length_map length_take)
    with idle f show ?thesis by (simp add: take_append)
  next
    case busy
    with f show ?thesis by simp
  qed
qed

text \<open>A stalled queue stays stalled: later messages are accepted and nothing is sent.\<close>

lemma stalled_enqueue: "stalled queue flight s \<Longrightarrow> stalled queue flight (enqueue m s)"
  using enqueue_queue [of m s] enqueue_busy [of s m] by (auto simp: stalled_def)

lemma stalled_short:
  "run acc sent s \<Longrightarrow> flight s = m # fs \<Longrightarrow> n \<noteq> msize m \<Longrightarrow> stalled queue flight (complete n s)"
  using run_facts [of acc sent s] complete_short [of s m fs n] by (auto simp: stalled_def)

end

text \<open>A sender whose launch cannot fail hands every message over as soon as it is at the front.\<close>

locale eager_queue = write_queue +
  assumes launch_first: "queue s = [] \<Longrightarrow> flight (enqueue m s) = flight s @ [m]"
    and launch_next: "flight s = m # fs \<Longrightarrow> queue s = m # q \<Longrightarrow>
      flight (complete (msize m) s) = fs @ take 1 q"
begin

text \<open>
  Progress: a queue that is not stalled has its front message in flight, and completing the
  outstanding writes as often as there are messages sends every one of them.
\<close>

lemma launched_enqueue:
  assumes "run acc sent s" and "\<not> stalled queue flight s"
  shows "\<not> stalled queue flight (enqueue m s)"
proof (cases "queue s = []")
  case True
  with run_facts [OF assms(1)] launch_first [of s m] show ?thesis by (auto simp: stalled_def)
next
  case False
  with assms(2) enqueue_busy [of s m] show ?thesis by (auto simp: stalled_def)
qed

lemma launched_full:
  assumes "run acc sent s" and "flight s = m # fs"
  shows "\<not> stalled queue flight (complete (msize m) s)"
proof -
  from run_facts [OF assms(1)] assms(2) obtain q where "queue s = m # q" by auto
  with complete_queue [OF assms(2)] launch_next [OF assms(2)] show ?thesis
    by (cases q) (auto simp: stalled_def)
qed

lemma drain:
  "run acc sent s \<Longrightarrow> \<not> stalled queue flight s \<Longrightarrow>
    run acc acc (complete_all flight complete msize (length (queue s)) s)
    \<and> queue (complete_all flight complete msize (length (queue s)) s) = []"
proof (induction "queue s" arbitrary: s sent)
  case Nil
  with fifo [OF Nil.prems(1)] show ?case by simp
next
  case (Cons m q)
  with run_facts [OF Cons.prems(1)] have f: "flight s = [m]"
    by (auto simp: stalled_def)
  from Cons.hyps(2) have "queue s = m # q" ..
  then have "queue (complete (msize m) s) = q"
    by (rule complete_queue [OF f])
  moreover have "run acc (sent @ [m]) (complete (msize m) s)"
    using Cons.prems(1) f by (rule wq_run.full)
  moreover have "\<not> stalled queue flight (complete (msize m) s)"
    using Cons.prems(1) f by (rule launched_full)
  ultimately have "run acc acc (complete_all flight complete msize (length q) (complete (msize m) s))
      \<and> queue (complete_all flight complete msize (length q) (complete (msize m) s)) = []"
    using Cons.hyps(1) [of "complete (msize m) s" "sent @ [m]"] by simp
  with \<open>queue s = m # q\<close> f show ?case by simp
qed

end

end
