(* ===== verification/TcpPeer.thy ===== *)
theory TcpPeer
  imports CircularBuffer BufferWrappers WriteQueue
begin

text \<open>
  A TCP connection: \<open>IoServices/TcpPeerConnection\<close> with its two implementations
  \<open>TcpConnection\<close> (plain) and \<open>TcpSslConnection\<close>. First the class, then its runs with an
  application behind the callbacks, then the properties.
\<close>

section \<open>State\<close>

text \<open>
  The virtual functions are dispatched on the dynamic class. What the connection asks of its boost
  socket is recorded in the order of the calls; the reads are recorded by the receive buffer, and
  \<open>tcp_pending\<close> holds the message bound to the handler of each outstanding asynchronous write,
  oldest first. \<open>tcp_peerEndPoint\<close> is \<open>None\<close> while it has its default value. The state is
  generic in the type of end points, since \<open>TcpDomainConnection\<close> has the same members with
  another one.
\<close>

datatype transport = Plain | Ssl

datatype 'ep sock_call =
    Async_connect 'ep
  | Async_write transport "byte list"
  | Set_verify_peer
  | Async_handshake
  | Close_socket

record ('ep, 'cb) tcp_conn =
  tcp_class :: transport
  tcp_outQueue :: "io_buffer list"
  tcp_readBuffer :: "'cb circ"
  tcp_errorCallback :: "'cb option"
  tcp_connectCallback :: "'cb option"
  tcp_peerEndPoint :: "'ep option"
  tcp_calls :: "'ep sock_call list"
  tcp_pending :: "io_buffer list"

definition TcpPeerConnection_new :: "transport \<Rightarrow> 'cb option \<Rightarrow> ('ep, 'cb) tcp_conn" where
  "TcpPeerConnection_new cls errorCallback =
     \<lparr>tcp_class = cls, tcp_outQueue = [],
      tcp_readBuffer = IoCircularBuffer_move_assign IoCircularBuffer_default IoCircularBuffer_new,
      tcp_errorCallback = errorCallback, tcp_connectCallback = None, tcp_peerEndPoint = None,
      tcp_calls = [], tcp_pending = []\<rparr>"

definition TcpConnection_new :: "'cb option \<Rightarrow> ('ep, 'cb) tcp_conn" where
  "TcpConnection_new errorCallback = TcpPeerConnection_new Plain errorCallback"

definition TcpSslConnection_new :: "'cb option \<Rightarrow> ('ep, 'cb) tcp_conn" where
  "TcpSslConnection_new errorCallback = TcpPeerConnection_new Ssl errorCallback"

definition tcp_call :: "'ep sock_call \<Rightarrow> ('ep, 'cb) tcp_conn \<Rightarrow> ('ep, 'cb) tcp_conn" where
  "tcp_call a c = c\<lparr>tcp_calls := tcp_calls c @ [a]\<rparr>"

section \<open>Writing\<close>

definition TcpConnection_AsyncWriteToSocket :: "io_buffer \<Rightarrow> ('ep, 'cb) tcp_conn \<Rightarrow> ('ep, 'cb) tcp_conn" where
  "TcpConnection_AsyncWriteToSocket w c =
     (tcp_call (Async_write Plain (IoBufferWrapper_ToBoost w)) c)\<lparr>tcp_pending := tcp_pending c @ [w]\<rparr>"

definition TcpSslConnection_AsyncWriteToSocket :: "io_buffer \<Rightarrow> ('ep, 'cb) tcp_conn \<Rightarrow> ('ep, 'cb) tcp_conn" where
  "TcpSslConnection_AsyncWriteToSocket w c =
     (tcp_call (Async_write Ssl (IoBufferWrapper_ToBoost w)) c)\<lparr>tcp_pending := tcp_pending c @ [w]\<rparr>"

definition AsyncWriteToSocket :: "io_buffer \<Rightarrow> ('ep, 'cb) tcp_conn \<Rightarrow> ('ep, 'cb) tcp_conn" where
  "AsyncWriteToSocket w c =
     (case tcp_class c of Plain \<Rightarrow> TcpConnection_AsyncWriteToSocket w c
      | Ssl \<Rightarrow> TcpSslConnection_AsyncWriteToSocket w c)"

definition TcpPeerConnection_LaunchWrite :: "('ep, 'cb) tcp_conn \<Rightarrow> (unit, ('ep, 'cb) tcp_conn) outcome" where
  "TcpPeerConnection_LaunchWrite c =
     (case tcp_outQueue c of
        [] \<Rightarrow> (Inl (Undefined ''front of an empty deque''), c)
      | w # _ \<Rightarrow> (Inr (), AsyncWriteToSocket w c))"

text \<open>The common part of the two \<open>AsyncWrite\<close> overloads, under \<open>_mutex\<close>.\<close>

definition TcpPeerConnection_QueueOrLaunch :: "io_buffer \<Rightarrow> ('ep, 'cb) tcp_conn \<Rightarrow> (c_int, ('ep, 'cb) tcp_conn) outcome" where
  "TcpPeerConnection_QueueOrLaunch w c =
     (let c1 = c\<lparr>tcp_outQueue := tcp_outQueue c @ [w]\<rparr>
      in if length (tcp_outQueue c1) > 1 then (Inr (int_of_size (length (tcp_outQueue c1))), c1)
         else and_then (TcpPeerConnection_LaunchWrite c1)
                (\<lambda>_ c2. (Inr (int_of_size (length (tcp_outQueue c2))), c2)))"

definition TcpPeerConnection_AsyncWrite_string ::
  "byte list \<Rightarrow> bool \<Rightarrow> ('ep, 'cb) tcp_conn \<Rightarrow> (c_int, ('ep, 'cb) tcp_conn) outcome" where
  "TcpPeerConnection_AsyncWrite_string msg nullTerminate c =
     TcpPeerConnection_QueueOrLaunch (IoBufferWrapper_move_string msg nullTerminate) c"

definition TcpPeerConnection_AsyncWrite_bytes ::
  "byte list \<Rightarrow> ('ep, 'cb) tcp_conn \<Rightarrow> (c_int, ('ep, 'cb) tcp_conn) outcome" where
  "TcpPeerConnection_AsyncWrite_bytes msg c =
     TcpPeerConnection_QueueOrLaunch (IoBufferWrapper_bytes msg) c"

definition TcpPeerConnection_Close :: "('ep, 'cb) tcp_conn \<Rightarrow> ('ep, 'cb) tcp_conn" where
  "TcpPeerConnection_Close c = tcp_call Close_socket c"

text \<open>
  The completion of a write, with the message bound to its handler. The error code is only looked
  at through the number of bytes written.
\<close>

definition TcpPeerConnection_WriteHandler ::
  "io_buffer \<Rightarrow> error_code \<Rightarrow> nat \<Rightarrow> ('ep, 'cb) tcp_conn \<Rightarrow> (unit, ('ep, 'cb) tcp_conn) outcome" where
  "TcpPeerConnection_WriteHandler bufWrapper ec written c =
     (if written \<noteq> IoBufferWrapper_BoostSize bufWrapper then (Inr (), tcp_call Close_socket c)
      else case tcp_outQueue c of
             [] \<Rightarrow> (Inl (Undefined ''pop_front of an empty deque''), c)
           | _ # q \<Rightarrow>
               let c1 = c\<lparr>tcp_outQueue := q\<rparr>
               in if length q = 0 then (Inr (), c1) else TcpPeerConnection_LaunchWrite c1)"

text \<open>The socket completes its oldest outstanding write and runs the handler bound to it.\<close>

definition tcp_write_completed :: "error_code \<Rightarrow> nat \<Rightarrow> ('ep, 'cb) tcp_conn \<Rightarrow> (unit, ('ep, 'cb) tcp_conn) outcome" where
  "tcp_write_completed ec written c =
     (case tcp_pending c of
        [] \<Rightarrow> (Inr (), c)
      | w # ws \<Rightarrow> TcpPeerConnection_WriteHandler w ec written (c\<lparr>tcp_pending := ws\<rparr>))"

section \<open>Connecting\<close>

text \<open>
  \<open>from_string\<close> is boost's address parser, which throws on text that is no address. The
  handlers run application callbacks, so they are defined inside a larger state: \<open>err\<close> runs an
  error callback with an error code, \<open>con\<close> a connect callback.
\<close>

definition tcp_connect_to ::
  "fault + 'ep \<Rightarrow> 'cb option \<Rightarrow> ('ep, 'cb) tcp_conn \<Rightarrow> (unit, ('ep, 'cb) tcp_conn) outcome" where
  "tcp_connect_to remote connectCb c =
     (case remote of
        Inl f \<Rightarrow> (Inl f, c)
      | Inr remoteEp \<Rightarrow>
          let c1 = c\<lparr>tcp_connectCallback := connectCb, tcp_peerEndPoint := Some remoteEp\<rparr>
          in (Inr (), tcp_call (Async_connect remoteEp) c1))"

definition tcp_resolve :: "(string \<Rightarrow> fault + ip_address) \<Rightarrow> string \<Rightarrow> c_int \<Rightarrow> fault + end_point" where
  "tcp_resolve from_string ipAddress port =
     (case from_string ipAddress of Inl f \<Rightarrow> Inl f | Inr addr \<Rightarrow> Inr (addr, ushort_of_int port))"

definition TcpPeerConnection_AsyncConnect ::
  "(string \<Rightarrow> fault + ip_address) \<Rightarrow> 'cb option \<Rightarrow> string \<Rightarrow> c_int \<Rightarrow> (end_point, 'cb) tcp_conn \<Rightarrow>
   (unit, (end_point, 'cb) tcp_conn) outcome" where
  "TcpPeerConnection_AsyncConnect from_string connectCb ipAddress port c =
     tcp_connect_to (tcp_resolve from_string ipAddress port) connectCb c"

definition tcp_report ::
  "('s \<Rightarrow> ('ep, 'cb) tcp_conn) \<Rightarrow> ('cb \<Rightarrow> error_code \<Rightarrow> 's \<Rightarrow> (unit, 's) outcome) \<Rightarrow>
   error_code \<Rightarrow> 's \<Rightarrow> (unit, 's) outcome" where
  "tcp_report get err ec s =
     (case tcp_errorCallback (get s) of None \<Rightarrow> (Inl BadFunctionCall, s) | Some cb \<Rightarrow> err cb ec s)"

definition tcp_notify_connected ::
  "('s \<Rightarrow> ('ep, 'cb) tcp_conn) \<Rightarrow> ('cb \<Rightarrow> 's \<Rightarrow> (unit, 's) outcome) \<Rightarrow> 's \<Rightarrow> (unit, 's) outcome" where
  "tcp_notify_connected get con s =
     (case tcp_connectCallback (get s) of None \<Rightarrow> (Inl BadFunctionCall, s) | Some cb \<Rightarrow> con cb s)"

definition TcpConnection_UpperLayerHandleConnect ::
  "('s \<Rightarrow> ('ep, 'cb) tcp_conn) \<Rightarrow> ('cb \<Rightarrow> 's \<Rightarrow> (unit, 's) outcome) \<Rightarrow> 's \<Rightarrow> (unit, 's) outcome" where
  "TcpConnection_UpperLayerHandleConnect get con s = tcp_notify_connected get con s"

definition TcpSslConnection_UpperLayerHandleConnect ::
  "('s \<Rightarrow> ('ep, 'cb) tcp_conn) \<Rightarrow> (('ep, 'cb) tcp_conn \<Rightarrow> 's \<Rightarrow> 's) \<Rightarrow> 's \<Rightarrow> (unit, 's) outcome" where
  "TcpSslConnection_UpperLayerHandleConnect get put s =
     (Inr (), put (tcp_call Async_handshake (tcp_call Set_verify_peer (get s))) s)"

definition TcpSslConnection_VerifyCertificate :: "bool \<Rightarrow> bool" where
  "TcpSslConnection_VerifyCertificate preverified = preverified"

definition TcpSslConnection_HandleHandshake ::
  "('s \<Rightarrow> ('ep, 'cb) tcp_conn) \<Rightarrow> ('cb \<Rightarrow> error_code \<Rightarrow> 's \<Rightarrow> (unit, 's) outcome) \<Rightarrow>
   ('cb \<Rightarrow> 's \<Rightarrow> (unit, 's) outcome) \<Rightarrow> error_code \<Rightarrow> 's \<Rightarrow> (unit, 's) outcome" where
  "TcpSslConnection_HandleHandshake get err con ec s =
     (if ec_set ec then tcp_report get err ec s else tcp_notify_connected get con s)"

definition TcpPeerConnection_ConnectHandler ::
  "('s \<Rightarrow> ('ep, 'cb) tcp_conn) \<Rightarrow> (('ep, 'cb) tcp_conn \<Rightarrow> 's \<Rightarrow> 's) \<Rightarrow>
   ('cb \<Rightarrow> error_code \<Rightarrow> 's \<Rightarrow> (unit, 's) outcome) \<Rightarrow> ('cb \<Rightarrow> 's \<Rightarrow> (unit, 's) outcome) \<Rightarrow>
   error_code \<Rightarrow> 's \<Rightarrow> (unit, 's) outcome" where
  "TcpPeerConnection_ConnectHandler get put err con ec s =
     (if ec_set ec then tcp_report get err ec s
      else case tcp_class (get s) of
             Plain \<Rightarrow> TcpConnection_UpperLayerHandleConnect get con s
           | Ssl \<Rightarrow> TcpSslConnection_UpperLayerHandleConnect get put s)"

section \<open>Reading\<close>

definition tcp_on_buffer :: "('cb circ \<Rightarrow> ('a, 'cb circ) outcome) \<Rightarrow> ('ep, 'cb) tcp_conn \<Rightarrow> ('a, ('ep, 'cb) tcp_conn) outcome" where
  "tcp_on_buffer f c = on_host tcp_readBuffer (\<lambda>b c. c\<lparr>tcp_readBuffer := b\<rparr>) f c"

definition TcpPeerConnection_BeginChainedRead ::
  "bool \<Rightarrow> 'cb option \<Rightarrow> 'cb option \<Rightarrow> c_int \<Rightarrow> ('ep, 'cb) tcp_conn \<Rightarrow> (unit, ('ep, 'cb) tcp_conn) outcome" where
  "TcpPeerConnection_BeginChainedRead nd available errorCallback chunk c =
     tcp_on_buffer (IoCircularBuffer_BeginChainedRead nd available chunk True)
       (c\<lparr>tcp_errorCallback := errorCallback\<rparr>)"

definition TcpPeerConnection_Data :: "bool \<Rightarrow> ('ep, 'cb) tcp_conn \<Rightarrow> (byte option list, ('ep, 'cb) tcp_conn) outcome" where
  "TcpPeerConnection_Data nd c = tcp_on_buffer (IoCircularBuffer_Get nd) c"

definition TcpPeerConnection_Size :: "bool \<Rightarrow> ('ep, 'cb) tcp_conn \<Rightarrow> (nat, ('ep, 'cb) tcp_conn) outcome" where
  "TcpPeerConnection_Size nd c = tcp_on_buffer (IoCircularBuffer_Size nd) c"

definition TcpPeerConnection_Consume :: "bool \<Rightarrow> nat \<Rightarrow> ('ep, 'cb) tcp_conn \<Rightarrow> (unit, ('ep, 'cb) tcp_conn) outcome" where
  "TcpPeerConnection_Consume nd len c = tcp_on_buffer (IoCircularBuffer_Consume nd len) c"

definition TcpPeerConnection_CopyTo ::
  "bool \<Rightarrow> byte option list \<Rightarrow> c_int \<Rightarrow> ('ep, 'cb) tcp_conn \<Rightarrow> (byte option list, ('ep, 'cb) tcp_conn) outcome" where
  "TcpPeerConnection_CopyTo nd dest len c = tcp_on_buffer (IoCircularBuffer_CopyTo nd dest len) c"

text \<open>
  The completion handler of a read, made by the constructor: an error or an empty read ends the
  reading and reports the error code, anything else goes to the receive buffer. The application
  sees the whole state, in which the connection is one part and the buffer a part of that.
\<close>

definition tcp_get_buffer :: "('s \<Rightarrow> ('ep, 'cb) tcp_conn) \<Rightarrow> 's \<Rightarrow> 'cb circ" where
  "tcp_get_buffer get s = tcp_readBuffer (get s)"

definition tcp_put_buffer ::
  "('s \<Rightarrow> ('ep, 'cb) tcp_conn) \<Rightarrow> (('ep, 'cb) tcp_conn \<Rightarrow> 's \<Rightarrow> 's) \<Rightarrow> 'cb circ \<Rightarrow> 's \<Rightarrow> 's" where
  "tcp_put_buffer get put b s = put ((get s)\<lparr>tcp_readBuffer := b\<rparr>) s"

definition TcpPeerConnection_boostHandler ::
  "bool \<Rightarrow> ('s \<Rightarrow> ('ep, 'cb) tcp_conn) \<Rightarrow> (('ep, 'cb) tcp_conn \<Rightarrow> 's \<Rightarrow> 's) \<Rightarrow>
   ('cb \<Rightarrow> nat \<Rightarrow> 's \<Rightarrow> (unit, 's) outcome) \<Rightarrow> ('cb \<Rightarrow> error_code \<Rightarrow> 's \<Rightarrow> (unit, 's) outcome) \<Rightarrow>
   error_code \<Rightarrow> nat \<Rightarrow> 's \<Rightarrow> (unit, 's) outcome" where
  "TcpPeerConnection_boostHandler nd get put app err ec bytes_transferred s =
     (if bytes_transferred = 0 \<or> ec_set ec
      then tcp_report get err ec
             (tcp_put_buffer get put (IoCircularBuffer_EndReadSome (tcp_get_buffer get s)) s)
      else IoCircularBuffer_ReadSomeHandler nd (tcp_get_buffer get) (tcp_put_buffer get put) app
             bytes_transferred s)"

section \<open>Runs\<close>

text \<open>
  The calls the application, the server and the services object make on a connection. \<open>chunk\<close> is
  the chunk size they read with, and \<open>resolve\<close> makes the end point from the text and the port of
  a connect: \<open>tcp_resolve\<close> with boost's parser for a TCP connection.
\<close>

datatype 'cb tcp_api =
    Tcp_write_string "byte list" bool
  | Tcp_write_bytes "byte list"
  | Tcp_connect 'cb string c_int
  | Tcp_begin_read 'cb 'cb
  | Tcp_consume nat
  | Tcp_close

fun tcp_do ::
  "bool \<Rightarrow> (string \<Rightarrow> c_int \<Rightarrow> fault + 'ep) \<Rightarrow> c_int \<Rightarrow> 'cb tcp_api \<Rightarrow> ('ep, 'cb) tcp_conn \<Rightarrow>
   (unit, ('ep, 'cb) tcp_conn) outcome" where
  "tcp_do nd resolve chunk (Tcp_write_string msg nt) c =
     and_then (TcpPeerConnection_AsyncWrite_string msg nt c) (\<lambda>_ c. (Inr (), c))"
| "tcp_do nd resolve chunk (Tcp_write_bytes msg) c =
     and_then (TcpPeerConnection_AsyncWrite_bytes msg c) (\<lambda>_ c. (Inr (), c))"
| "tcp_do nd resolve chunk (Tcp_connect cb ip port) c =
     tcp_connect_to (resolve ip port) (Some cb) c"
| "tcp_do nd resolve chunk (Tcp_begin_read cb e) c =
     TcpPeerConnection_BeginChainedRead nd (Some cb) (Some e) chunk c"
| "tcp_do nd resolve chunk (Tcp_consume n) c = TcpPeerConnection_Consume nd n c"
| "tcp_do nd resolve chunk Tcp_close c = (Inr (), TcpPeerConnection_Close c)"

fun tcp_accepts :: "'cb tcp_api \<Rightarrow> io_buffer list" where
  "tcp_accepts (Tcp_write_string msg nt) = [IoBufferWrapper_move_string msg nt]"
| "tcp_accepts (Tcp_write_bytes msg) = [IoBufferWrapper_bytes msg]"
| "tcp_accepts _ = []"

text \<open>
  A connection with the history a property speaks of: the messages accepted, those written
  completely, and the bytes received.
\<close>

record ('ep, 'cb) tcp_world =
  peer :: "('ep, 'cb) tcp_conn"
  tcp_accepted :: "io_buffer list"
  tcp_sent :: "io_buffer list"
  tcp_received :: "byte list"

definition put_peer :: "('ep, 'cb) tcp_conn \<Rightarrow> ('ep, 'cb) tcp_world \<Rightarrow> ('ep, 'cb) tcp_world" where
  "put_peer c w = w\<lparr>peer := c\<rparr>"

definition tcp_api_call ::
  "bool \<Rightarrow> (string \<Rightarrow> c_int \<Rightarrow> fault + 'ep) \<Rightarrow> c_int \<Rightarrow> 'cb tcp_api \<Rightarrow> ('ep, 'cb) tcp_world \<Rightarrow>
   (unit, ('ep, 'cb) tcp_world) outcome" where
  "tcp_api_call nd resolve chunk a w =
     (case tcp_do nd resolve chunk a (peer w) of
        (r, c) \<Rightarrow> (r, w\<lparr>peer := c, tcp_accepted := tcp_accepted w @ tcp_accepts a\<rparr>))"

text \<open>What a callback is told, and the application: what each callback does then.\<close>

datatype conn_event = Available nat | Failed error_code | Connected

type_synonym ('ep, 'cb) tcp_app = "'cb \<Rightarrow> conn_event \<Rightarrow> ('ep, 'cb) tcp_world \<Rightarrow> 'cb tcp_api app_step list"

definition tcp_callback ::
  "bool \<Rightarrow> (string \<Rightarrow> c_int \<Rightarrow> fault + 'ep) \<Rightarrow> c_int \<Rightarrow> ('ep, 'cb) tcp_app \<Rightarrow> conn_event \<Rightarrow> 'cb \<Rightarrow>
   ('ep, 'cb) tcp_world \<Rightarrow> (unit, ('ep, 'cb) tcp_world) outcome" where
  "tcp_callback nd resolve chunk app ev cb w =
     run_script (tcp_api_call nd resolve chunk) (app cb ev w) w"

definition tcp_available ::
  "bool \<Rightarrow> (string \<Rightarrow> c_int \<Rightarrow> fault + 'ep) \<Rightarrow> c_int \<Rightarrow> ('ep, 'cb) tcp_app \<Rightarrow> 'cb \<Rightarrow> nat \<Rightarrow> ('ep, 'cb) tcp_world \<Rightarrow>
   (unit, ('ep, 'cb) tcp_world) outcome" where
  "tcp_available nd resolve chunk app cb n = tcp_callback nd resolve chunk app (Available n) cb"

definition tcp_failed ::
  "bool \<Rightarrow> (string \<Rightarrow> c_int \<Rightarrow> fault + 'ep) \<Rightarrow> c_int \<Rightarrow> ('ep, 'cb) tcp_app \<Rightarrow> 'cb \<Rightarrow> error_code \<Rightarrow>
   ('ep, 'cb) tcp_world \<Rightarrow> (unit, ('ep, 'cb) tcp_world) outcome" where
  "tcp_failed nd resolve chunk app cb ec = tcp_callback nd resolve chunk app (Failed ec) cb"

text \<open>
  The steps of a connection of either class: calls from any thread, and completions of the
  operations that are outstanding. A completed read has put its bytes into the slot it was given.
\<close>

inductive tcp_step ::
  "bool \<Rightarrow> (string \<Rightarrow> c_int \<Rightarrow> fault + 'ep) \<Rightarrow> c_int \<Rightarrow> ('ep, 'cb) tcp_app \<Rightarrow> ('ep, 'cb) tcp_world \<Rightarrow> ('ep, 'cb) tcp_world \<Rightarrow> bool"
  for nd resolve chunk app where
  call: "tcp_api_call nd resolve chunk a w = (r, w') \<Longrightarrow> tcp_step nd resolve chunk app w w'"
| wrote: "tcp_pending (peer w) = m # ms \<Longrightarrow> tcp_write_completed ec n (peer w) = (r, c) \<Longrightarrow>
    tcp_step nd resolve chunk app w
      (w\<lparr>peer := c, tcp_sent := tcp_sent w @ (if n = IoBufferWrapper_BoostSize m then [m] else [])\<rparr>)"
| read: "fits_read bs (tcp_readBuffer (peer w)) \<Longrightarrow>
    TcpPeerConnection_boostHandler nd peer put_peer (tcp_available nd resolve chunk app)
      (tcp_failed nd resolve chunk app) no_error (length bs)
      (tcp_put_buffer peer put_peer (circ_fill bs (tcp_readBuffer (peer w)))
         (w\<lparr>tcp_received := tcp_received w @ bs\<rparr>)) = (r, w') \<Longrightarrow>
    tcp_step nd resolve chunk app w w'"
| read_failed: "reads (tcp_readBuffer (peer w)) = slot # slots \<Longrightarrow> n = 0 \<or> ec_set ec \<Longrightarrow>
    TcpPeerConnection_boostHandler nd peer put_peer (tcp_available nd resolve chunk app)
      (tcp_failed nd resolve chunk app) ec n
      (tcp_put_buffer peer put_peer ((tcp_readBuffer (peer w))\<lparr>reads := slots\<rparr>) w) = (r, w') \<Longrightarrow>
    tcp_step nd resolve chunk app w w'"
| connected: "TcpPeerConnection_ConnectHandler peer put_peer (tcp_failed nd resolve chunk app)
      (tcp_callback nd resolve chunk app Connected) ec w = (r, w') \<Longrightarrow>
    tcp_step nd resolve chunk app w w'"
| handshaken: "tcp_class (peer w) = Ssl \<Longrightarrow>
    TcpSslConnection_HandleHandshake peer (tcp_failed nd resolve chunk app)
      (tcp_callback nd resolve chunk app Connected) ec w = (r, w') \<Longrightarrow>
    tcp_step nd resolve chunk app w w'"

definition tcp_world_new :: "transport \<Rightarrow> 'cb option \<Rightarrow> ('ep, 'cb) tcp_world" where
  "tcp_world_new cls e =
     \<lparr>peer = TcpPeerConnection_new cls e, tcp_accepted = [], tcp_sent = [], tcp_received = []\<rparr>"

definition tcp_reach ::
  "bool \<Rightarrow> (string \<Rightarrow> c_int \<Rightarrow> fault + 'ep) \<Rightarrow> c_int \<Rightarrow> ('ep, 'cb) tcp_app \<Rightarrow> ('ep, 'cb) tcp_world \<Rightarrow> bool" where
  "tcp_reach nd resolve chunk app w \<longleftrightarrow>
     (\<exists>cls e. (tcp_step nd resolve chunk app)\<^sup>*\<^sup>* (tcp_world_new cls e) w)"

section \<open>A connection inside a larger state\<close>

locale tcp_host = host get put
  for get :: "'s \<Rightarrow> ('ep, 'cb) tcp_conn" and put :: "('ep, 'cb) tcp_conn \<Rightarrow> 's \<Rightarrow> 's"

sublocale tcp_host < reader: reading_host "tcp_get_buffer get" "tcp_put_buffer get put"
  by unfold_locales (simp_all add: tcp_get_buffer_def tcp_put_buffer_def host_laws)

context tcp_host
begin

lemma boost_handler_rel:
  assumes trans: "\<And>s t u. R s t \<Longrightarrow> R t u \<Longrightarrow> R s u"
    and put: "\<And>b s. R s (tcp_put_buffer get put b s)"
    and app: "\<And>cb n s. R s (snd (app cb n s))" and err: "\<And>cb ec s. R s (snd (err cb ec s))"
  shows "R s (snd (TcpPeerConnection_boostHandler nd get put app err ec n s))"
proof (cases "n = 0 \<or> ec_set ec")
  case True
  define t where "t = tcp_put_buffer get put (IoCircularBuffer_EndReadSome (tcp_get_buffer get s)) s"
  have "R s t" by (simp add: t_def put)
  moreover have "R t (snd (err cb ec t))" for cb by (rule err)
  ultimately show ?thesis
    using True trans
    by (auto simp: TcpPeerConnection_boostHandler_def t_def [symmetric] tcp_report_def split: option.split)
next
  case False
  then show ?thesis
    using reader.handler_rel [where R = R, OF trans put app]
    by (simp add: TcpPeerConnection_boostHandler_def)
qed

text \<open>An error is reported with the buffer no longer reading.\<close>

lemma boost_handler_failed:
  assumes "n = 0 \<or> ec_set ec"
  shows "TcpPeerConnection_boostHandler nd get put app err ec n s =
    (let t = put ((get s)\<lparr>tcp_readBuffer := (tcp_readBuffer (get s))\<lparr>shouldRead := False\<rparr>\<rparr>) s
     in case tcp_errorCallback (get s) of None \<Rightarrow> (Inl BadFunctionCall, t) | Some cb \<Rightarrow> err cb ec t)"
  using assms
  by (simp add: TcpPeerConnection_boostHandler_def tcp_report_def tcp_put_buffer_def tcp_get_buffer_def
      IoCircularBuffer_EndReadSome_def host_laws Let_def split: option.split)

end

lemma peer_put_peer: "peer (put_peer c w) = c" "put_peer c (put_peer d w) = put_peer c w" "put_peer (peer w) w = w"
  by (simp_all add: put_peer_def)

interpretation tcp_world: tcp_host peer put_peer
  by unfold_locales (simp_all add: peer_put_peer)

text \<open>
  The interface of a relation between worlds that every call of the application keeps: it is then
  kept by every callback and by every handler that runs one.
\<close>

locale tcp_relation =
  fixes nd :: bool and resolve :: "string \<Rightarrow> c_int \<Rightarrow> fault + 'ep" and chunk :: c_int
    and app :: "('ep, 'cb) tcp_app" and R :: "('ep, 'cb) tcp_world \<Rightarrow> ('ep, 'cb) tcp_world \<Rightarrow> bool"
  assumes R_refl: "R w w" and R_trans: "R t u \<Longrightarrow> R u v \<Longrightarrow> R t v"
    and R_api: "R w (snd (tcp_api_call nd resolve chunk a w))"
begin

lemma callback: "R w (snd (tcp_callback nd resolve chunk app ev cb w))"
  unfolding tcp_callback_def by (rule run_script_rel [where R = R]) (blast intro: R_refl R_trans R_api)+

lemma report: "R w (snd (tcp_report peer (tcp_failed nd resolve chunk app) ec w))"
  by (simp add: tcp_report_def tcp_failed_def R_refl callback split: option.split)

lemma notify: "R w (snd (tcp_notify_connected peer (tcp_callback nd resolve chunk app Connected) w))"
  by (simp add: tcp_notify_connected_def R_refl callback split: option.split)

lemma connect_handler:
  assumes "R w (put_peer (tcp_call Async_handshake (tcp_call Set_verify_peer (peer w))) w)"
  shows "R w (snd (TcpPeerConnection_ConnectHandler peer put_peer
    (tcp_failed nd resolve chunk app) (tcp_callback nd resolve chunk app Connected) ec w))"
  using assms
  by (simp add: TcpPeerConnection_ConnectHandler_def TcpConnection_UpperLayerHandleConnect_def
      TcpSslConnection_UpperLayerHandleConnect_def report notify split: transport.split)

lemma handshake_handler:
  "R w (snd (TcpSslConnection_HandleHandshake peer
    (tcp_failed nd resolve chunk app) (tcp_callback nd resolve chunk app Connected) ec w))"
  by (simp add: TcpSslConnection_HandleHandshake_def report notify)

lemma read_handler:
  assumes "\<And>b w. R w (tcp_put_buffer peer put_peer b w)"
  shows "R w (snd (TcpPeerConnection_boostHandler nd peer put_peer
     (tcp_available nd resolve chunk app) (tcp_failed nd resolve chunk app) ec n w))"
  by (rule tcp_world.boost_handler_rel [where R = R])
    (auto intro: R_trans assms simp: tcp_available_def tcp_failed_def callback)

end

section \<open>The sending side\<close>

definition tcp_enqueue :: "io_buffer \<Rightarrow> ('ep, 'cb) tcp_conn \<Rightarrow> ('ep, 'cb) tcp_conn" where
  "tcp_enqueue m c = snd (TcpPeerConnection_QueueOrLaunch m c)"

definition tcp_complete :: "nat \<Rightarrow> ('ep, 'cb) tcp_conn \<Rightarrow> ('ep, 'cb) tcp_conn" where
  "tcp_complete n c = snd (tcp_write_completed no_error n c)"

text \<open>The byte strings the socket was given to write, in the order of the calls.\<close>

definition tcp_handed :: "('ep, 'cb) tcp_conn \<Rightarrow> byte list list" where
  "tcp_handed c = concat (map (\<lambda>a. case a of Async_write cls bs \<Rightarrow> [bs] | _ \<Rightarrow> []) (tcp_calls c))"

named_theorems tcp_defs

lemmas tcp_send_defs [tcp_defs] =
  TcpPeerConnection_QueueOrLaunch_def TcpPeerConnection_LaunchWrite_def AsyncWriteToSocket_def
  TcpConnection_AsyncWriteToSocket_def TcpSslConnection_AsyncWriteToSocket_def tcp_call_def
  TcpPeerConnection_WriteHandler_def tcp_write_completed_def tcp_enqueue_def tcp_complete_def
  tcp_handed_def TcpPeerConnection_AsyncWrite_string_def TcpPeerConnection_AsyncWrite_bytes_def
  TcpPeerConnection_Close_def

interpretation tcp_queue: eager_queue tcp_outQueue tcp_pending tcp_handed IoBufferWrapper_ToBoost
    tcp_enqueue tcp_complete IoBufferWrapper_BoostSize
proof unfold_locales
  fix m n s fs q
  show "tcp_outQueue s \<noteq> [] \<Longrightarrow> tcp_pending (tcp_enqueue m s) = tcp_pending s
      \<and> tcp_handed (tcp_enqueue m s) = tcp_handed s"
    by (cases "tcp_outQueue s") (simp_all add: tcp_defs Let_def)
qed (auto simp: tcp_defs Let_def neq_Nil_conv split: list.splits transport.splits)


text \<open>
  The sending half of a world: its connection is in a run of the queue discipline with the
  accepted and the sent messages. \<open>tcp_sends_on\<close> is what every step but a completed write
  does to it: it may accept messages, and it cannot start a stalled queue.
\<close>

definition tcp_sends :: "('ep, 'cb) tcp_world \<Rightarrow> bool" where
  "tcp_sends w \<longleftrightarrow> wq_run tcp_outQueue tcp_pending tcp_handed tcp_enqueue tcp_complete
     IoBufferWrapper_BoostSize (tcp_accepted w) (tcp_sent w) (peer w)"

definition tcp_stalled :: "('ep, 'cb) tcp_conn \<Rightarrow> bool" where
  "tcp_stalled c \<longleftrightarrow> tcp_outQueue c \<noteq> [] \<and> tcp_pending c = []"

definition tcp_sends_on :: "('ep, 'cb) tcp_world \<Rightarrow> ('ep, 'cb) tcp_world \<Rightarrow> bool" where
  "tcp_sends_on w w' \<longleftrightarrow> (tcp_sends w \<longrightarrow> tcp_sends w') \<and> tcp_sent w' = tcp_sent w
     \<and> (\<exists>ms. tcp_accepted w' = tcp_accepted w @ ms)
     \<and> (tcp_stalled (peer w) \<longrightarrow> tcp_stalled (peer w') \<and> tcp_handed (peer w') = tcp_handed (peer w))
     \<and> (tcp_sends w \<longrightarrow> \<not> tcp_stalled (peer w) \<longrightarrow> \<not> tcp_stalled (peer w'))"

lemma tcp_sends_on_trans: "tcp_sends_on t u \<Longrightarrow> tcp_sends_on u v \<Longrightarrow> tcp_sends_on t v"
  by (auto simp: tcp_sends_on_def)

lemma tcp_stalled_eq: "tcp_stalled c = stalled tcp_outQueue tcp_pending c"
  by (simp add: tcp_stalled_def stalled_def)

lemma tcp_sends_on_other:
  assumes "tcp_outQueue (peer w') = tcp_outQueue (peer w)" and "tcp_pending (peer w') = tcp_pending (peer w)"
    and "tcp_handed (peer w') = tcp_handed (peer w)"
    and "tcp_accepted w' = tcp_accepted w" and "tcp_sent w' = tcp_sent w"
  shows "tcp_sends_on w w'"
  using assms by (auto simp: tcp_sends_on_def tcp_sends_def tcp_stalled_def intro: wq_run.other)

lemma tcp_sends_on_enqueue:
  "tcp_sends_on w (w\<lparr>peer := tcp_enqueue m (peer w), tcp_accepted := tcp_accepted w @ [m]\<rparr>)"
  using tcp_queue.stalled_enqueue [of "peer w" m] tcp_queue.enqueue_busy [of "peer w" m]
    tcp_queue.launched_enqueue [of "tcp_accepted w" "tcp_sent w" "peer w" m]
  by (auto simp: tcp_sends_on_def tcp_sends_def tcp_stalled_eq wq_run.enq) (auto simp: stalled_def)

lemma tcp_write_api:
  "snd (and_then (TcpPeerConnection_QueueOrLaunch m c) (\<lambda>_ c. (Inr (), c))) = tcp_enqueue m c"
  by (simp add: tcp_enqueue_def and_then_def split: prod.split sum.split)

lemmas tcp_other_defs [tcp_defs] =
  tcp_connect_to_def TcpPeerConnection_BeginChainedRead_def
  TcpPeerConnection_Consume_def tcp_on_buffer_def on_host_def

lemma tcp_api_sends: "tcp_sends_on w (snd (tcp_api_call nd resolve chunk a w))"
proof (cases a)
  case (Tcp_write_string msg nt)
  then have "snd (tcp_api_call nd resolve chunk a w) =
      w\<lparr>peer := tcp_enqueue (IoBufferWrapper_move_string msg nt) (peer w),
        tcp_accepted := tcp_accepted w @ [IoBufferWrapper_move_string msg nt]\<rparr>"
    by (simp add: tcp_api_call_def TcpPeerConnection_AsyncWrite_string_def case_prod_beta tcp_write_api)
  then show ?thesis by (simp add: tcp_sends_on_enqueue)
next
  case (Tcp_write_bytes msg)
  then have "snd (tcp_api_call nd resolve chunk a w) =
      w\<lparr>peer := tcp_enqueue (IoBufferWrapper_bytes msg) (peer w),
        tcp_accepted := tcp_accepted w @ [IoBufferWrapper_bytes msg]\<rparr>"
    by (simp add: tcp_api_call_def TcpPeerConnection_AsyncWrite_bytes_def case_prod_beta tcp_write_api)
  then show ?thesis by (simp add: tcp_sends_on_enqueue)
qed (rule tcp_sends_on_other; simp add: tcp_api_call_def tcp_defs Let_def split: prod.split sum.split)+

lemma tcp_put_sends: "tcp_sends_on w (tcp_put_buffer peer put_peer b w)"
  by (rule tcp_sends_on_other) (simp_all add: tcp_put_buffer_def put_peer_def tcp_handed_def)

lemma tcp_handshake_sends:
  "tcp_sends_on w (put_peer (tcp_call Async_handshake (tcp_call Set_verify_peer (peer w))) w)"
  by (rule tcp_sends_on_other) (simp_all add: put_peer_def tcp_call_def tcp_handed_def)

interpretation tcp_sending: tcp_relation nd resolve chunk app tcp_sends_on
  for nd resolve chunk app
  by unfold_locales (auto intro: tcp_sends_on_trans tcp_api_sends tcp_sends_on_other)

section \<open>Steps and the queue\<close>
text \<open>A completed write: of all the message, or of less of it.\<close>

lemma tcp_write_completed_snd: "snd (tcp_write_completed ec n c) = tcp_complete n c"
  by (simp add: tcp_complete_def tcp_write_completed_def TcpPeerConnection_WriteHandler_def Let_def
      split: list.split)

lemma tcp_wrote_sends:
  assumes "tcp_sends w" and "tcp_pending (peer w) = m # ms"
  shows "tcp_sends (w\<lparr>peer := tcp_complete n (peer w),
    tcp_sent := tcp_sent w @ (if n = IoBufferWrapper_BoostSize m then [m] else [])\<rparr>)"
  using assms wq_run.full wq_run.short by (auto simp: tcp_sends_def)

lemma tcp_step_sends_on:
  assumes "tcp_step nd resolve chunk app w w'"
  obtains (other) "tcp_sends_on w w'"
  | (wrote) m ms n where "tcp_pending (peer w) = m # ms"
      and "w' = w\<lparr>peer := tcp_complete n (peer w),
        tcp_sent := tcp_sent w @ (if n = IoBufferWrapper_BoostSize m then [m] else [])\<rparr>"
  using assms
proof (cases rule: tcp_step.cases)
  case (call a r)
  then show thesis
    using tcp_api_sends [of w nd resolve chunk a] other by simp
next
  case (wrote m ms ec n r c)
  then have "c = tcp_complete n (peer w)"
    using tcp_write_completed_snd [of ec n "peer w"] by simp
  with wrote that(2) show thesis by blast
next
  case (read bs r)
  let ?u = "w\<lparr>tcp_received := tcp_received w @ bs\<rparr>"
  have "tcp_sends_on w ?u" by (rule tcp_sends_on_other) simp_all
  then show thesis
    using read(2) tcp_sending.read_handler [OF tcp_put_sends] tcp_put_sends other tcp_sends_on_trans
    by (metis snd_conv)
next
  case (read_failed slot slots n ec r)
  then show thesis
    using tcp_sending.read_handler [OF tcp_put_sends] tcp_put_sends other tcp_sends_on_trans
    by (metis snd_conv)
next
  case (connected ec r)
  with tcp_sending.connect_handler [OF tcp_handshake_sends, where nd = nd and resolve = resolve and chunk = chunk and app = app and ec = ec and w = w] other
  show thesis by simp
next
  case (handshaken ec r)
  with tcp_sending.handshake_handler [where nd = nd and resolve = resolve and chunk = chunk and app = app and ec = ec and w = w] other show thesis by simp
qed

lemma tcp_sends_new: "tcp_sends (tcp_world_new cls e)"
  by (simp add: tcp_sends_def tcp_world_new_def TcpPeerConnection_new_def tcp_handed_def wq_run.start)

lemma tcp_step_sends: "tcp_step nd resolve chunk app w w' \<Longrightarrow> tcp_sends w \<Longrightarrow> tcp_sends w'"
  by (erule tcp_step_sends_on) (auto simp: tcp_sends_on_def tcp_wrote_sends)

lemma tcp_reach_sends: "tcp_reach nd resolve chunk app w \<Longrightarrow> tcp_sends w"
proof -
  have "(tcp_step nd resolve chunk app)\<^sup>*\<^sup>* (tcp_world_new cls e) w \<Longrightarrow> tcp_sends w" for cls e
    by (induction rule: rtranclp_induct) (auto simp: tcp_sends_new tcp_step_sends)
  then show "tcp_reach nd resolve chunk app w \<Longrightarrow> tcp_sends w"
    by (auto simp: tcp_reach_def)
qed

lemma tcp_write_order_facts:
  assumes "tcp_reach nd resolve chunk app w"
  shows "tcp_accepted w = tcp_sent w @ tcp_outQueue (peer w)"
    and "tcp_pending (peer w) = [] \<or> tcp_pending (peer w) = [hd (tcp_outQueue (peer w))] \<and> tcp_outQueue (peer w) \<noteq> []"
  using tcp_reach_sends [OF assms] tcp_queue.fifo tcp_queue.one_in_flight unfolding tcp_sends_def by metis+

lemma tcp_step_stalled:
  assumes "tcp_step nd resolve chunk app w w'" and "tcp_stalled (peer w)"
  shows "tcp_stalled (peer w') \<and> tcp_handed (peer w') = tcp_handed (peer w) \<and> tcp_sent w' = tcp_sent w"
  using assms by (elim tcp_step_sends_on) (auto simp: tcp_sends_on_def tcp_stalled_def)

section \<open>The receiving side\<close>

definition tcp_buffer :: "('ep, 'cb) tcp_world \<Rightarrow> 'cb circ" where
  "tcp_buffer w = tcp_readBuffer (peer w)"

text \<open>What a call does to the receive buffer while a read handler runs, and otherwise.\<close>

definition tcp_in_context :: "bool \<Rightarrow> ('ep, 'cb) tcp_world \<Rightarrow> ('ep, 'cb) tcp_world \<Rightarrow> bool" where
  "tcp_in_context nd w w' \<longleftrightarrow> tcp_received w' = tcp_received w
     \<and> (circ_ctx (tcp_buffer w) \<longrightarrow>
          circ_ctx (tcp_buffer w') \<and> (ctx_step nd)\<^sup>*\<^sup>* (tcp_buffer w) (tcp_buffer w'))"

definition tcp_outside :: "('ep, 'cb) tcp_world \<Rightarrow> ('ep, 'cb) tcp_world \<Rightarrow> bool" where
  "tcp_outside w w' \<longleftrightarrow> tcp_received w' = tcp_received w
     \<and> (circ_inv (tcp_buffer w) \<longrightarrow> circ_inv (tcp_buffer w')
          \<and> vec_data (buffer (tcp_buffer w')) = vec_data (buffer (tcp_buffer w)))"

lemma tcp_in_context_trans: "tcp_in_context nd t u \<Longrightarrow> tcp_in_context nd u v \<Longrightarrow> tcp_in_context nd t v"
  by (auto simp: tcp_in_context_def)

lemma tcp_outside_trans: "tcp_outside t u \<Longrightarrow> tcp_outside u v \<Longrightarrow> tcp_outside t v"
  by (simp add: tcp_outside_def)

lemma tcp_same_buffer:
  assumes "tcp_buffer w' = tcp_buffer w" and "tcp_received w' = tcp_received w"
  shows "tcp_in_context nd w w'" and "tcp_outside w w'"
  using assms by (simp_all add: tcp_in_context_def tcp_outside_def)

text \<open>Every call is one operation on the buffer, or none.\<close>

lemma tcp_api_buffer:
  obtains (none) "tcp_buffer (snd (tcp_api_call nd resolve chunk a w)) = tcp_buffer w"
  | (consume) n where "tcp_buffer (snd (tcp_api_call nd resolve chunk a w)) =
      snd (IoCircularBuffer_Consume nd n (tcp_buffer w))"
  | (begin_chained) cb where "tcp_buffer (snd (tcp_api_call nd resolve chunk a w)) =
      snd (IoCircularBuffer_BeginChainedRead nd (Some cb) chunk True (tcp_buffer w))"
proof (cases a)
  case (Tcp_consume n)
  then show thesis
    by (intro consume [of n]) (simp add: tcp_api_call_def tcp_defs tcp_buffer_def case_prod_beta)
next
  case (Tcp_begin_read cb e)
  then show thesis
    by (intro begin_chained [of cb]) (simp add: tcp_api_call_def tcp_defs tcp_buffer_def case_prod_beta)
qed (rule none; simp add: tcp_api_call_def tcp_defs tcp_buffer_def Let_def and_then_def case_prod_beta
      split: sum.split transport.split list.split)+

lemma tcp_api_received [simp]: "tcp_received (snd (tcp_api_call nd resolve chunk a w)) = tcp_received w"
  by (simp add: tcp_api_call_def split: prod.split)

lemma tcp_api_in_context: "tcp_in_context nd w (snd (tcp_api_call nd resolve chunk a w))"
proof -
  let ?b = "tcp_buffer w" and ?b' = "tcp_buffer (snd (tcp_api_call nd resolve chunk a w))"
  have "circ_ctx ?b \<Longrightarrow> (ctx_step nd)\<^sup>*\<^sup>* ?b ?b'"
  proof (cases rule: tcp_api_buffer [of nd resolve chunk a w])
    case none then show ?thesis by simp
  next
    case (consume n)
    then have "ctx_step nd ?b ?b'" by (metis ctx_step.consume prod.collapse)
    then show ?thesis by blast
  next
    case (begin_chained cb)
    moreover assume "circ_ctx ?b"
    ultimately have "?b' = ?b"
      by (auto simp: IoCircularBuffer_BeginChainedRead_def circ_ctx_def)
    then show ?thesis by simp
  qed
  then show ?thesis using ctx_steps_keep by (auto simp: tcp_in_context_def)
qed

lemma tcp_api_outside:
  assumes "0 < sint chunk"
  shows "tcp_outside w (snd (tcp_api_call nd resolve chunk a w))"
proof (cases rule: tcp_api_buffer [of nd resolve chunk a w])
  case none then show ?thesis by (simp add: tcp_outside_def)
next
  case (consume n)
  then show ?thesis using Consume_out [of "tcp_buffer w" nd n] by (simp add: tcp_outside_def circ_inv_def)
next
  case (begin_chained cb)
  then show ?thesis
    using begin_chained_keeps [OF _ assms surjective_pairing, of "tcp_buffer w" nd cb True]
    by (simp add: tcp_outside_def)
qed

interpretation tcp_contextual: tcp_relation nd resolve chunk app "tcp_in_context nd"
  for nd resolve chunk app
  by unfold_locales (auto intro: tcp_in_context_trans tcp_api_in_context tcp_same_buffer)

interpretation tcp_outer: tcp_relation nd resolve chunk app "\<lambda>w w'. 0 < sint chunk \<longrightarrow> tcp_outside w w'"
  for nd resolve chunk app
  by unfold_locales (auto intro: tcp_outside_trans tcp_api_outside tcp_same_buffer)

lemma tcp_app_in_context:
  "app_in_context nd (tcp_get_buffer peer) (tcp_available nd resolve chunk app)"
proof -
  have "tcp_in_context nd w w'"
    if "tcp_available nd resolve chunk app cb n w = (r, w')" for cb n w r w'
    using tcp_contextual.callback [where nd = nd and resolve = resolve and chunk = chunk and app = app and ev = "Available n" and cb = cb and w = w] that
    by (simp add: tcp_available_def)
  then show ?thesis
    unfolding app_in_context_def tcp_in_context_def tcp_buffer_def tcp_get_buffer_def by blast
qed

definition tcp_reads :: "('ep, 'cb) tcp_world \<Rightarrow> bool" where
  "tcp_reads w \<longleftrightarrow> circ_inv (tcp_buffer w)
     \<and> (\<exists>k \<le> length (tcp_received w). vec_data (buffer (tcp_buffer w)) = map Some (drop k (tcp_received w)))"

lemma tcp_outside_reads: "tcp_outside w w' \<Longrightarrow> tcp_reads w \<Longrightarrow> tcp_reads w'"
  by (auto simp: tcp_outside_def tcp_reads_def)

lemma tcp_put_received: "tcp_received (tcp_put_buffer peer put_peer b w) = tcp_received w"
  by (simp add: tcp_put_buffer_def put_peer_def)

interpretation tcp_keeps_received: tcp_relation nd resolve chunk app "\<lambda>w w'. tcp_received w' = tcp_received w"
  for nd resolve chunk app
  by unfold_locales simp_all

lemma tcp_handler_received:
  "tcp_received (snd (TcpPeerConnection_boostHandler nd peer put_peer
     (tcp_available nd resolve chunk app) (tcp_failed nd resolve chunk app) ec n w)) = tcp_received w"
  using tcp_keeps_received.read_handler [where nd = nd and resolve = resolve and chunk = chunk and app = app and ec = ec and n = n and w = w] by (simp add: tcp_put_received)

lemma tcp_read_keeps:
  assumes "tcp_reads w" and fits: "fits_read bs (tcp_readBuffer (peer w))"
    and run: "TcpPeerConnection_boostHandler nd peer put_peer (tcp_available nd resolve chunk app)
      (tcp_failed nd resolve chunk app) no_error (length bs)
      (tcp_put_buffer peer put_peer (circ_fill bs (tcp_readBuffer (peer w)))
         (w\<lparr>tcp_received := tcp_received w @ bs\<rparr>)) = (r, w')"
  shows "tcp_reads w'"
proof -
  let ?u = "w\<lparr>tcp_received := tcp_received w @ bs\<rparr>"
  have b: "tcp_get_buffer peer ?u = tcp_buffer w" by (simp add: tcp_get_buffer_def tcp_buffer_def)
  from assms(1) obtain j where inv: "circ_inv (tcp_buffer w)"
    and j: "j \<le> length (tcp_received w)" "vec_data (buffer (tcp_buffer w)) = map Some (drop j (tcp_received w))"
    by (auto simp: tcp_reads_def)
  have ne: "bs \<noteq> []" using fits by (simp add: fits_read_def)
  have fits': "fits_read bs (tcp_buffer w)" using fits by (simp add: tcp_buffer_def)
  have run': "IoCircularBuffer_ReadSomeHandler nd (tcp_get_buffer peer) (tcp_put_buffer peer put_peer)
      (tcp_available nd resolve chunk app) (length bs)
      (tcp_put_buffer peer put_peer (circ_fill bs (tcp_buffer w)) ?u) = (r, w')"
    using run ne by (simp add: TcpPeerConnection_boostHandler_def b tcp_buffer_def)
  obtain k where "circ_inv (tcp_get_buffer peer w')"
    "vec_data (buffer (tcp_get_buffer peer w')) = drop k (vec_data (buffer (tcp_buffer w)) @ map Some bs)"
    by (rule tcp_world.reader.handler_cases [where s = ?u, unfolded b, OF inv fits' tcp_app_in_context run'])
  moreover have "tcp_received w' = tcp_received w @ bs"
    using tcp_handler_received [of nd resolve chunk app no_error "length bs"] run
    by (metis snd_conv tcp_put_received tcp_world.select_convs(4) tcp_world.surjective tcp_world.update_convs(4))
  moreover from j obtain i where "i \<le> length (tcp_received w @ bs)"
    "drop k (vec_data (buffer (tcp_buffer w)) @ map Some bs) = map Some (drop i (tcp_received w @ bs))"
    by (rule suffix_extend)
  ultimately show ?thesis by (auto simp: tcp_reads_def tcp_buffer_def tcp_get_buffer_def)
qed

lemma tcp_read_failed_keeps:
  assumes "tcp_reads w" and "0 < sint chunk" and slot: "reads (tcp_readBuffer (peer w)) = slot # slots"
    and "n = 0 \<or> ec_set ec"
    and run: "TcpPeerConnection_boostHandler nd peer put_peer (tcp_available nd resolve chunk app)
      (tcp_failed nd resolve chunk app) ec n
      (tcp_put_buffer peer put_peer ((tcp_readBuffer (peer w))\<lparr>reads := slots\<rparr>) w) = (r, w')"
  shows "tcp_reads w'"
proof -
  let ?b = "IoCircularBuffer_EndReadSome ((tcp_buffer w)\<lparr>reads := tl (reads (tcp_buffer w))\<rparr>)"
  let ?v = "tcp_put_buffer peer put_peer ?b w"
  have "w' = snd (tcp_report peer (tcp_failed nd resolve chunk app) ec ?v)"
    using run assms(4) slot
    by (auto simp: TcpPeerConnection_boostHandler_def tcp_put_buffer_def tcp_get_buffer_def put_peer_def
        tcp_buffer_def split: if_splits)
  then have "tcp_outside ?v w'"
    using tcp_outer.report assms(2) by metis
  moreover have "tcp_reads ?v"
    using assms(1) failed_keeps [of "tcp_buffer w"]
    by (auto simp: tcp_reads_def tcp_buffer_def tcp_put_buffer_def put_peer_def IoCircularBuffer_EndReadSome_def)
  ultimately show ?thesis by (rule tcp_outside_reads)
qed

lemma tcp_complete_buffer: "tcp_readBuffer (tcp_complete n c) = tcp_readBuffer c"
  by (simp add: tcp_defs Let_def split: list.split transport.split)

lemma tcp_step_reads:
  assumes "tcp_step nd resolve chunk app w w'" and reads: "tcp_reads w" and chunk: "0 < sint chunk"
  shows "tcp_reads w'"
  using assms(1)
proof (cases rule: tcp_step.cases)
  case (call a r)
  with tcp_api_outside [OF chunk, of w nd resolve a] have "tcp_outside w w'" by simp
  then show ?thesis using reads by (rule tcp_outside_reads)
next
  case (wrote m ms ec n r c)
  with wrote tcp_write_completed_snd [of ec n "peer w"] reads show ?thesis
    by (simp add: tcp_reads_def tcp_buffer_def tcp_complete_buffer)
next
  case (read bs r)
  show ?thesis by (rule tcp_read_keeps [OF reads read])
next
  case (read_failed slot slots n ec r)
  show ?thesis by (rule tcp_read_failed_keeps [OF reads chunk read_failed])
next
  case (connected ec r)
  have "tcp_outside w (put_peer (tcp_call Async_handshake (tcp_call Set_verify_peer (peer w))) w)"
    by (rule tcp_same_buffer) (simp_all add: put_peer_def tcp_call_def tcp_buffer_def)
  then have "tcp_outside w w'"
    using tcp_outer.connect_handler [where nd = nd and resolve = resolve and chunk = chunk and app = app and ec = ec and w = w] connected chunk by simp
  then show ?thesis using reads by (rule tcp_outside_reads)
next
  case (handshaken ec r)
  then have "tcp_outside w w'"
    using tcp_outer.handshake_handler [where nd = nd and resolve = resolve and chunk = chunk and app = app and ec = ec and w = w] chunk by simp
  then show ?thesis using reads by (rule tcp_outside_reads)
qed

lemma tcp_reads_new: "tcp_reads (tcp_world_new cls e)"
  using circ_inv_new new_data
  by (simp add: tcp_reads_def tcp_world_new_def tcp_buffer_def TcpPeerConnection_new_def)

lemma tcp_reach_reads:
  assumes "tcp_reach nd resolve chunk app w" and "0 < sint chunk"
  shows "tcp_reads w"
proof -
  have "(tcp_step nd resolve chunk app)\<^sup>*\<^sup>* (tcp_world_new cls e) w \<Longrightarrow> tcp_reads w" for cls e
    by (induction rule: rtranclp_induct) (auto simp: tcp_reads_new tcp_step_reads assms(2))
  then show ?thesis using assms(1) by (auto simp: tcp_reach_def)
qed

section \<open>Reading after an error, and the two transports\<close>

text \<open>A connection whose reading has ended: no call and no completion starts a read again.\<close>

definition tcp_reading_over :: "('ep, 'cb) tcp_world \<Rightarrow> bool" where
  "tcp_reading_over w \<longleftrightarrow> notifyAvailable (tcp_buffer w) \<noteq> None \<and> reads (tcp_buffer w) = []
     \<and> \<not> shouldRead (tcp_buffer w) \<and> \<not> hasContext (tcp_buffer w)"

definition tcp_over_rel :: "('ep, 'cb) tcp_world \<Rightarrow> ('ep, 'cb) tcp_world \<Rightarrow> bool" where
  "tcp_over_rel w w' \<longleftrightarrow> (tcp_reading_over w \<longrightarrow> tcp_reading_over w')"

lemma tcp_over_rel_refl [simp]: "tcp_over_rel w w"
  by (simp add: tcp_over_rel_def)

lemma tcp_over_rel_trans: "tcp_over_rel t u \<Longrightarrow> tcp_over_rel u v \<Longrightarrow> tcp_over_rel t v"
  by (simp add: tcp_over_rel_def)

lemma tcp_api_over: "tcp_over_rel w (snd (tcp_api_call nd resolve chunk a w))"
proof (cases rule: tcp_api_buffer [of nd resolve chunk a w])
  case (consume n)
  then show ?thesis
    using Consume_out [of "tcp_buffer w" nd n] by (simp add: tcp_over_rel_def tcp_reading_over_def)
qed (auto simp: tcp_over_rel_def tcp_reading_over_def IoCircularBuffer_BeginChainedRead_def)

interpretation tcp_ending: tcp_relation nd resolve chunk app tcp_over_rel
  for nd resolve chunk app
  by unfold_locales (auto intro: tcp_over_rel_trans tcp_api_over)

lemma tcp_step_over:
  assumes "tcp_step nd resolve chunk app w w'" and over: "tcp_reading_over w"
  shows "tcp_reading_over w'"
  using assms(1)
proof (cases rule: tcp_step.cases)
  case (call a r)
  with tcp_api_over [of w nd resolve chunk a] over show ?thesis by (simp add: tcp_over_rel_def)
next
  case (wrote m ms ec n r c)
  with tcp_write_completed_snd [of ec n "peer w"] over show ?thesis
    by (simp add: tcp_reading_over_def tcp_buffer_def tcp_complete_buffer)
next
  case (read bs r)
  with over show ?thesis by (simp add: fits_read_def tcp_reading_over_def tcp_buffer_def)
next
  case (read_failed slot slots n ec r)
  with over show ?thesis by (simp add: tcp_reading_over_def tcp_buffer_def)
next
  case (connected ec r)
  have "tcp_over_rel w (put_peer (tcp_call Async_handshake (tcp_call Set_verify_peer (peer w))) w)"
    by (simp add: tcp_over_rel_def tcp_reading_over_def tcp_buffer_def put_peer_def tcp_call_def)
  with tcp_ending.connect_handler [where nd = nd and resolve = resolve and chunk = chunk and app = app and ec = ec and w = w] connected over
  show ?thesis by (simp add: tcp_over_rel_def)
next
  case (handshaken ec r)
  with tcp_ending.handshake_handler [where nd = nd and resolve = resolve and chunk = chunk and app = app and ec = ec and w = w] over
  show ?thesis by (simp add: tcp_over_rel_def)
qed

text \<open>What a socket of each class may have been asked for.\<close>

definition tcp_calls_ok :: "transport \<Rightarrow> 'ep sock_call list \<Rightarrow> bool" where
  "tcp_calls_ok cls as \<longleftrightarrow> (\<forall>c bs. Async_write c bs \<in> set as \<longrightarrow> c = cls)
     \<and> (Async_handshake \<in> set as \<longrightarrow> cls = Ssl \<and> Set_verify_peer \<in> set as)"

definition tcp_class_rel :: "('ep, 'cb) tcp_world \<Rightarrow> ('ep, 'cb) tcp_world \<Rightarrow> bool" where
  "tcp_class_rel w w' \<longleftrightarrow> tcp_class (peer w') = tcp_class (peer w)
     \<and> (tcp_calls_ok (tcp_class (peer w)) (tcp_calls (peer w)) \<longrightarrow>
         tcp_calls_ok (tcp_class (peer w)) (tcp_calls (peer w')))"

lemma tcp_class_rel_trans: "tcp_class_rel t u \<Longrightarrow> tcp_class_rel u v \<Longrightarrow> tcp_class_rel t v"
  by (simp add: tcp_class_rel_def)

lemma tcp_calls_ok_same: "tcp_class (peer w') = tcp_class (peer w) \<Longrightarrow> tcp_calls (peer w') = tcp_calls (peer w) \<Longrightarrow>
    tcp_class_rel w w'"
  by (simp add: tcp_class_rel_def)

lemma tcp_enqueue_class: "tcp_class_rel w (w\<lparr>peer := tcp_enqueue m (peer w), tcp_accepted := acc\<rparr>)"
  by (cases "tcp_outQueue (peer w)")
    (auto simp: tcp_class_rel_def tcp_calls_ok_def tcp_defs Let_def split: transport.split)

lemma tcp_complete_class: "tcp_class_rel w (w\<lparr>peer := tcp_complete n (peer w), tcp_sent := sent\<rparr>)"
  by (auto simp: tcp_class_rel_def tcp_calls_ok_def tcp_defs Let_def split: transport.split list.split)


lemma tcp_api_class: "tcp_class_rel w (snd (tcp_api_call nd resolve chunk a w))"
proof (cases a)
  case (Tcp_write_string msg nt)
  then show ?thesis
    using tcp_enqueue_class [where w = w and m = "IoBufferWrapper_move_string msg nt"]
    by (simp add: tcp_api_call_def TcpPeerConnection_AsyncWrite_string_def case_prod_beta tcp_write_api)
next
  case (Tcp_write_bytes msg)
  then show ?thesis
    using tcp_enqueue_class [where w = w and m = "IoBufferWrapper_bytes msg"]
    by (simp add: tcp_api_call_def TcpPeerConnection_AsyncWrite_bytes_def case_prod_beta tcp_write_api)
qed (auto simp: tcp_api_call_def tcp_defs Let_def tcp_class_rel_def tcp_calls_ok_def split: prod.split sum.split)

interpretation tcp_transport: tcp_relation nd resolve chunk app tcp_class_rel
  for nd resolve chunk app
  by unfold_locales (auto intro: tcp_class_rel_trans tcp_api_class tcp_calls_ok_same)

lemma tcp_put_class: "tcp_class_rel w (tcp_put_buffer peer put_peer b w)"
  by (rule tcp_calls_ok_same) (simp_all add: tcp_put_buffer_def put_peer_def)

text \<open>A handshake is only asked for by the SSL class: the precondition of these two steps.\<close>

lemma tcp_connect_class:
  "tcp_class_rel w (snd (TcpPeerConnection_ConnectHandler peer put_peer
    (tcp_failed nd resolve chunk app) (tcp_callback nd resolve chunk app Connected) ec w))"
proof (cases "tcp_class (peer w)")
  case Plain
  then show ?thesis
    by (simp add: TcpPeerConnection_ConnectHandler_def TcpConnection_UpperLayerHandleConnect_def
        tcp_transport.report tcp_transport.notify)
next
  case Ssl
  then have "tcp_class_rel w (put_peer (tcp_call Async_handshake (tcp_call Set_verify_peer (peer w))) w)"
    by (auto simp: tcp_class_rel_def tcp_calls_ok_def put_peer_def tcp_call_def)
  then show ?thesis by (rule tcp_transport.connect_handler)
qed

lemma tcp_step_class:
  assumes "tcp_step nd resolve chunk app w w'"
  shows "tcp_class_rel w w'"
  using assms
proof (cases rule: tcp_step.cases)
  case (call a r)
  with tcp_api_class [of w nd resolve chunk a] show ?thesis by simp
next
  case (wrote m ms ec n r c)
  with tcp_write_completed_snd [of ec n "peer w"] tcp_complete_class [where w = w and n = n] show ?thesis by simp
next
  case (read bs r)
  have "tcp_class_rel w (w\<lparr>tcp_received := tcp_received w @ bs\<rparr>)"
    by (rule tcp_calls_ok_same) simp_all
  with read(2) tcp_transport.read_handler [OF tcp_put_class] tcp_put_class tcp_class_rel_trans
  show ?thesis by (metis snd_conv)
next
  case (read_failed slot slots n ec r)
  with tcp_transport.read_handler [OF tcp_put_class] tcp_put_class tcp_class_rel_trans
  show ?thesis by (metis snd_conv)
next
  case (connected ec r)
  with tcp_connect_class [of w nd resolve chunk app ec] show ?thesis by simp
next
  case (handshaken ec r)
  with tcp_transport.handshake_handler [where nd = nd and resolve = resolve and chunk = chunk
      and app = app and ec = ec and w = w]
  show ?thesis by simp
qed

lemma tcp_reach_step:
  "tcp_reach nd resolve chunk app w \<Longrightarrow> tcp_step nd resolve chunk app w w' \<Longrightarrow>
    tcp_reach nd resolve chunk app w'"
  by (auto simp: tcp_reach_def intro: rtranclp.rtrancl_into_rtrancl)

section \<open>Examples\<close>

text \<open>
  An application whose callbacks do nothing, and a plain connection on which three messages were
  written and a read was begun; then the first message is sent completely.
\<close>

definition quiet_app :: "(end_point, nat) tcp_app" where
  "quiet_app cb ev w = []"

definition no_address :: "string \<Rightarrow> c_int \<Rightarrow> fault + end_point" where
  "no_address t p = Inl (SystemError 22)"

definition ex_msg :: "byte \<Rightarrow> io_buffer" where
  "ex_msg b = IoBufferWrapper_bytes [b]"

definition ex_three :: "(end_point, nat) tcp_world" where
  "ex_three =
     \<lparr>peer = \<lparr>tcp_class = Plain, tcp_outQueue = [ex_msg 1, ex_msg 2, ex_msg 3],
        tcp_readBuffer = IoCircularBuffer_new\<lparr>notifyAvailable := Some 7, chunkSize := 2, shouldRead := True,
          buffer := \<lparr>cells = [None, None], vsize = 0\<rparr>, reads := [(0, 2)]\<rparr>,
        tcp_errorCallback = Some 8, tcp_connectCallback = None, tcp_peerEndPoint = None,
        tcp_calls = [Async_write Plain [1]], tcp_pending = [ex_msg 1]\<rparr>,
      tcp_accepted = [ex_msg 1, ex_msg 2, ex_msg 3], tcp_sent = [], tcp_received = []\<rparr>"

lemmas tcp_eval = tcp_defs tcp_api_call_def tcp_world_new_def TcpPeerConnection_new_def Let_def
  ex_three_def ex_msg_def io_buffer_defs put_peer_def tcp_put_buffer_def tcp_get_buffer_def

lemma ex_three_reach: "tcp_reach False no_address 2 quiet_app ex_three"
proof -
  note step = tcp_reach_step [OF _ tcp_step.call, of False no_address 2 quiet_app]
  have "tcp_reach False no_address 2 quiet_app (tcp_world_new Plain None)"
    by (auto simp: tcp_reach_def)
  from step [OF this surjective_pairing, of "Tcp_begin_read 7 8"]
    step [OF _ surjective_pairing, of _ "Tcp_write_bytes [1]"]
    step [OF _ surjective_pairing, of _ "Tcp_write_bytes [2]"]
    step [OF _ surjective_pairing, of _ "Tcp_write_bytes [3]"]
  have "tcp_reach False no_address 2 quiet_app
    (snd (tcp_api_call False no_address 2 (Tcp_write_bytes [3])
      (snd (tcp_api_call False no_address 2 (Tcp_write_bytes [2])
        (snd (tcp_api_call False no_address 2 (Tcp_write_bytes [1])
          (snd (tcp_api_call False no_address 2 (Tcp_begin_read 7 8) (tcp_world_new Plain None)))))))))"
    by blast
  then show ?thesis by (simp add: tcp_eval circ_eval)
qed

section \<open>Properties\<close>

text \<open>
  C1: Whatever threads and callbacks call and however the socket completes, the messages accepted by
  \<open>AsyncWrite\<close> are sent once each and in order: the accepted ones are the completely written
  ones followed by the queue, at most one write is outstanding and it is of the front message, and
  the byte strings given to the socket are those of a prefix of the accepted messages, at most one
  longer than what was written.
\<close>

theorem tcp_write_order:
  assumes "tcp_reach nd resolve chunk app w"
  shows "tcp_accepted w = tcp_sent w @ tcp_outQueue (peer w)
    \<and> (tcp_pending (peer w) = [] \<or>
       tcp_pending (peer w) = [hd (tcp_outQueue (peer w))] \<and> tcp_outQueue (peer w) \<noteq> [])
    \<and> tcp_handed (peer w) =
        map IoBufferWrapper_ToBoost (take (length (tcp_handed (peer w))) (tcp_accepted w))
    \<and> length (tcp_sent w) \<le> length (tcp_handed (peer w))
    \<and> length (tcp_handed (peer w)) \<le> length (tcp_sent w) + 1"
  using tcp_reach_sends [OF assms] tcp_queue.fifo tcp_queue.one_in_flight tcp_queue.handed_prefix
  unfolding tcp_sends_def by metis

theorem tcp_write_order_witness:
  "tcp_accepted ex_three = tcp_sent ex_three @ tcp_outQueue (peer ex_three)
    \<and> tcp_pending (peer ex_three) = [ex_msg 1] \<and> tcp_handed (peer ex_three) = [[1]]"
  using tcp_write_order [OF ex_three_reach] by (simp add: tcp_eval)

definition tcp_whole_step ::
  "bool \<Rightarrow> (string \<Rightarrow> c_int \<Rightarrow> fault + 'ep) \<Rightarrow> c_int \<Rightarrow> ('ep, 'cb) tcp_app \<Rightarrow> ('ep, 'cb) tcp_world \<Rightarrow> ('ep, 'cb) tcp_world \<Rightarrow> bool" where
  "tcp_whole_step nd resolve chunk app w w' \<longleftrightarrow> tcp_step nd resolve chunk app w w'
     \<and> (tcp_pending (peer w) \<noteq> [] \<longrightarrow>
          tcp_pending (peer w') \<noteq> [] \<or> length (tcp_sent w) < length (tcp_sent w'))"

lemma tcp_whole_step_launched:
  assumes "tcp_whole_step nd resolve chunk app w w'" and "tcp_sends w" and "\<not> tcp_stalled (peer w)"
  shows "\<not> tcp_stalled (peer w')"
proof -
  from assms(1) have "tcp_step nd resolve chunk app w w'" by (simp add: tcp_whole_step_def)
  then show ?thesis
  proof (cases rule: tcp_step_sends_on)
    case other
    with assms(2,3) show ?thesis by (simp add: tcp_sends_on_def)
  next
    case (wrote m ms n)
    show ?thesis
    proof (cases "n = IoBufferWrapper_BoostSize m")
      case True
      with wrote assms(2) show ?thesis
        using tcp_queue.launched_full [of "tcp_accepted w" "tcp_sent w" "peer w" m ms]
        by (simp add: tcp_sends_def tcp_stalled_eq)
    next
      case False
      with wrote assms(1) show ?thesis by (simp add: tcp_whole_step_def tcp_stalled_def)
    qed
  qed
qed

text \<open>
  C18: Progress of the queue. In a run in which no write comes back short, the front message is always
  with the socket, and completing the outstanding writes as often as there are messages empties the
  queue and has given the socket every accepted message.
\<close>

theorem tcp_queue_drains:
  assumes "(tcp_whole_step nd resolve chunk app)\<^sup>*\<^sup>* (tcp_world_new cls e) w"
  shows "(tcp_outQueue (peer w) \<noteq> [] \<longrightarrow> tcp_pending (peer w) = [hd (tcp_outQueue (peer w))])
    \<and> (let c = complete_all tcp_pending tcp_complete IoBufferWrapper_BoostSize
                 (length (tcp_outQueue (peer w))) (peer w)
       in tcp_outQueue c = [] \<and> tcp_handed c = map IoBufferWrapper_ToBoost (tcp_accepted w))"
proof -
  from assms have "tcp_sends w \<and> \<not> tcp_stalled (peer w)"
  proof (induction rule: rtranclp_induct)
    case base
    then show ?case
      by (simp add: tcp_sends_new) (simp add: tcp_stalled_def tcp_world_new_def TcpPeerConnection_new_def)
  next
    case (step v w)
    with tcp_step_sends tcp_whole_step_launched show ?case by (metis tcp_whole_step_def)
  qed
  then have run: "tcp_queue.run (tcp_accepted w) (tcp_sent w) (peer w)"
    and live: "\<not> stalled tcp_outQueue tcp_pending (peer w)"
    by (simp_all add: tcp_sends_def tcp_stalled_eq)
  note d = tcp_queue.drain [OF run live]
  with tcp_queue.one_in_flight [OF run] tcp_queue.handed_prefix [OF conjunct1 [OF d]] live
  show ?thesis by (auto simp: stalled_def Let_def)
qed

theorem tcp_queue_drains_witness:
  "let c = complete_all tcp_pending tcp_complete IoBufferWrapper_BoostSize 1
       (tcp_enqueue (ex_msg 5) (TcpPeerConnection_new Plain (None :: nat option) :: (end_point, nat) tcp_conn))
   in tcp_outQueue c = [] \<and> tcp_handed c = [[5]]"
proof -
  let ?w = "(tcp_world_new Plain None)\<lparr>peer := tcp_enqueue (ex_msg 5) (TcpPeerConnection_new Plain (None :: nat option) :: (end_point, nat) tcp_conn),
    tcp_accepted := [ex_msg 5]\<rparr>"
  have "tcp_api_call False no_address 2 (Tcp_write_bytes [5]) (tcp_world_new Plain None) = (Inr (), ?w)"
    by (simp add: tcp_eval)
  then have "tcp_whole_step False no_address 2 quiet_app (tcp_world_new Plain None) ?w"
    by (simp add: tcp_whole_step_def tcp_step.call) (simp add: tcp_eval)
  then have "(tcp_whole_step False no_address 2 quiet_app)\<^sup>*\<^sup>* (tcp_world_new Plain None) ?w"
    by blast
  from tcp_queue_drains [OF this] show ?thesis
    by (simp add: tcp_eval)
qed

text \<open>
  C20: A write that comes back short closes the socket and stops the sending for good: no later call,
  completion or callback gives the socket another message, and what is written after it is accepted
  and stays in the queue.
\<close>

theorem tcp_short_write_stops:
  assumes "tcp_reach nd resolve chunk app w" and "tcp_pending (peer w) = m # ms"
    and "n \<noteq> IoBufferWrapper_BoostSize m" and "tcp_write_completed ec n (peer w) = (r, c)"
    and "(tcp_step nd resolve chunk app)\<^sup>*\<^sup>* (w\<lparr>peer := c\<rparr>) w'"
  shows "r = Inr () \<and> tcp_calls c = tcp_calls (peer w) @ [Close_socket]
    \<and> tcp_outQueue (peer w') \<noteq> [] \<and> tcp_pending (peer w') = []
    \<and> tcp_handed (peer w') = tcp_handed (peer w) \<and> tcp_sent w' = tcp_sent w"
proof -
  have c: "r = Inr ()" "c = tcp_call Close_socket (peer w\<lparr>tcp_pending := ms\<rparr>)"
    using assms(2-4) by (simp_all add: tcp_write_completed_def TcpPeerConnection_WriteHandler_def)
  have "tcp_pending (peer w) = [hd (tcp_outQueue (peer w))]" "tcp_outQueue (peer w) \<noteq> []"
    using tcp_reach_sends [OF assms(1)] tcp_queue.one_in_flight [of "tcp_accepted w" "tcp_sent w" "peer w"]
      assms(2) by (auto simp: tcp_sends_def)
  then have st: "tcp_stalled c" "tcp_handed c = tcp_handed (peer w)"
    using assms(2) by (simp_all add: c tcp_stalled_def tcp_call_def tcp_handed_def)
  from assms(5) have "tcp_stalled (peer w') \<and> tcp_handed (peer w') = tcp_handed c \<and> tcp_sent w' = tcp_sent w"
  proof (induction rule: rtranclp_induct)
    case base
    with st show ?case by simp
  next
    case (step v w')
    with tcp_step_stalled show ?case by metis
  qed
  with st c show ?thesis by (simp add: tcp_stalled_def tcp_call_def)
qed

theorem tcp_short_write_stops_witness:
  "let c = tcp_complete 0 (peer ex_three)
   in tcp_calls c = [Async_write Plain [1], Close_socket] \<and> tcp_pending c = [] \<and> tcp_outQueue c \<noteq> []"
  using tcp_short_write_stops [OF ex_three_reach, of "ex_msg 1" "[]" 0 no_error "Inr ()"
      "tcp_complete 0 (peer ex_three)", OF _ _ _ rtranclp.rtrancl_refl]
  by (simp add: tcp_eval)

text \<open>
  \<open>AsyncWrite\<close> always accepts, and reports as backlog the number of accepted messages that
  are not completely written, its own included.
\<close>

lemma tcp_backlog:
  assumes "tcp_reach nd resolve chunk app w"
    and "length (tcp_accepted w) - length (tcp_sent w) < 2 ^ 31 - 1"
  shows "\<exists>k c. TcpPeerConnection_AsyncWrite_bytes msg (peer w) = (Inr k, c)
    \<and> sint k = int (length (tcp_accepted w) + 1) - int (length (tcp_sent w))
    \<and> tcp_outQueue c = tcp_outQueue (peer w) @ [IoBufferWrapper_bytes msg]"
proof -
  let ?n = "length (tcp_outQueue (peer w)) + 1"
  have len: "length (tcp_accepted w) = length (tcp_sent w) + length (tcp_outQueue (peer w))"
    using tcp_reach_sends [OF assms(1)] tcp_queue.fifo unfolding tcp_sends_def by (metis length_append)
  obtain c where "TcpPeerConnection_AsyncWrite_bytes msg (peer w) = (Inr (int_of_size ?n), c)"
    "tcp_outQueue c = tcp_outQueue (peer w) @ [IoBufferWrapper_bytes msg]"
    by (cases "tcp_outQueue (peer w)") (auto simp: tcp_defs Let_def split: transport.split)
  moreover have "sint (int_of_size ?n) = int ?n"
    using assms(2) len by (simp only: int_of_size_def) (rule sint_of_nat_c_int, simp)
  ultimately show ?thesis using len by auto
qed

lemma tcp_backlog_witness:
  "\<exists>k c. TcpPeerConnection_AsyncWrite_bytes [4] (peer ex_three) = (Inr k, c) \<and> sint k = 4"
  using tcp_backlog [OF ex_three_reach, of "[4]"] by (auto simp: ex_three_def)

text \<open>
  C2: The bytes a connection holds for the application are always a suffix of the bytes its socket
  received, whatever the callbacks consume, write, close or throw, and the slot of the one read that
  may be outstanding lies behind them inside the allocation.
\<close>

theorem tcp_receive_stream:
  assumes "tcp_reach nd resolve chunk app w" and "0 < sint chunk"
  shows "(\<exists>k \<le> length (tcp_received w).
       vec_data (buffer (tcp_readBuffer (peer w))) = map Some (drop k (tcp_received w)))
    \<and> (reads (tcp_readBuffer (peer w)) = [] \<or>
       (\<exists>len. reads (tcp_readBuffer (peer w)) = [(vsize (buffer (tcp_readBuffer (peer w))), len)]
          \<and> vsize (buffer (tcp_readBuffer (peer w))) + len \<le> vec_capacity (buffer (tcp_readBuffer (peer w)))))"
  using tcp_reach_reads [OF assms] by (auto simp: tcp_reads_def tcp_buffer_def circ_inv_def circ_slot_def)

text \<open>The example receives two bytes with a callback that consumes nothing.\<close>

definition ex_received :: "(end_point, nat) tcp_world" where
  "ex_received = ex_three\<lparr>peer := (peer ex_three)\<lparr>tcp_readBuffer :=
       (tcp_readBuffer (peer ex_three))\<lparr>buffer := \<lparr>cells = [Some 5, Some 6, None, None], vsize = 2\<rparr>,
          reads := [(2, 2)]\<rparr>\<rparr>, tcp_received := [5, 6]\<rparr>"

lemma ex_received_reach: "tcp_reach False no_address 2 quiet_app ex_received"
proof (rule tcp_reach_step [OF ex_three_reach], rule tcp_step.read [where bs = "[5, 6]" and r = "Inr ()"])
  show "fits_read [5, 6] (tcp_readBuffer (peer ex_three))"
    by (simp add: ex_three_def fits_read_def)
  show "TcpPeerConnection_boostHandler False peer put_peer (tcp_available False no_address 2 quiet_app)
      (tcp_failed False no_address 2 quiet_app) no_error (length [5 :: byte, 6])
      (tcp_put_buffer peer put_peer (circ_fill [5, 6] (tcp_readBuffer (peer ex_three)))
         (ex_three\<lparr>tcp_received := tcp_received ex_three @ [5, 6]\<rparr>)) = (Inr (), ex_received)"
    by (simp add: TcpPeerConnection_boostHandler_def tcp_available_def tcp_callback_def quiet_app_def
        ex_received_def tcp_eval circ_eval)
qed

theorem tcp_receive_stream_witness:
  "vec_data (buffer (tcp_readBuffer (peer ex_received))) = [Some 5, Some 6]
   \<and> (\<exists>k \<le> 2. [Some (5 :: byte), Some 6] = map Some (drop k [5, 6]))"
  using tcp_receive_stream [OF ex_received_reach]
  by (simp add: ex_received_def vec_data_def numeral_2_eq_2)

text \<open>
  A read that fails, or brings no bytes, ends the reading of the connection for good: the error
  callback in force runs with exactly that error code on a connection that is no longer reading, and
  afterwards no step ever starts a read again.
\<close>

lemma tcp_read_error_final:
  assumes "tcp_reach nd resolve chunk app w" and "0 < sint chunk"
    and "reads (tcp_readBuffer (peer w)) = slot # slots" and "n = 0 \<or> ec_set ec"
    and "TcpPeerConnection_boostHandler nd peer put_peer (tcp_available nd resolve chunk app)
      (tcp_failed nd resolve chunk app) ec n
      (tcp_put_buffer peer put_peer ((tcp_readBuffer (peer w))\<lparr>reads := slots\<rparr>) w) = (r, u)"
    and "(tcp_step nd resolve chunk app)\<^sup>*\<^sup>* u w'"
  shows "(let v = put_peer ((peer w)\<lparr>tcp_readBuffer :=
                   (tcp_readBuffer (peer w))\<lparr>reads := [], shouldRead := False\<rparr>\<rparr>) w
          in (r, u) = (case tcp_errorCallback (peer w) of
                         None \<Rightarrow> (Inl BadFunctionCall, v)
                       | Some cb \<Rightarrow> tcp_failed nd resolve chunk app cb ec v))
    \<and> reads (tcp_readBuffer (peer w')) = []"
proof -
  let ?v = "put_peer ((peer w)\<lparr>tcp_readBuffer := (tcp_readBuffer (peer w))\<lparr>reads := [], shouldRead := False\<rparr>\<rparr>) w"
  have inv: "circ_inv (tcp_readBuffer (peer w))"
    using tcp_reach_reads [OF assms(1,2)] by (simp add: tcp_reads_def tcp_buffer_def)
  then have slots: "slots = []" "notifyAvailable (tcp_readBuffer (peer w)) \<noteq> None"
    "\<not> hasContext (tcp_readBuffer (peer w))"
    using assms(3) by (auto simp: circ_inv_def)
  have eq: "(r, u) = (case tcp_errorCallback (peer w) of None \<Rightarrow> (Inl BadFunctionCall, ?v)
      | Some cb \<Rightarrow> tcp_failed nd resolve chunk app cb ec ?v)"
    using assms(5) slots(1)
    by (simp add: tcp_world.boost_handler_failed [OF assms(4)] tcp_put_buffer_def put_peer_def Let_def
        split: option.splits)
  have "tcp_reading_over ?v"
    using slots by (simp add: tcp_reading_over_def tcp_buffer_def put_peer_def)
  then have "tcp_reading_over u"
    using eq tcp_ending.callback [where nd = nd and resolve = resolve and chunk = chunk and app = app
        and ev = "Failed ec" and w = ?v]
    by (simp add: tcp_over_rel_def tcp_failed_def split: option.splits) (metis snd_conv)
  with assms(6) have "tcp_reading_over w'"
    by (induction rule: rtranclp_induct) (auto intro: tcp_step_over)
  with eq show ?thesis by (simp add: tcp_reading_over_def tcp_buffer_def Let_def)
qed

lemma tcp_read_error_final_witness:
  "\<exists>u. TcpPeerConnection_boostHandler False peer put_peer (tcp_available False no_address 2 quiet_app)
      (tcp_failed False no_address 2 quiet_app) \<lparr>ec_value = 2, ec_message = ''End of file''\<rparr> 0
      (tcp_put_buffer peer put_peer ((tcp_readBuffer (peer ex_received))\<lparr>reads := []\<rparr>) ex_received) = (Inr (), u)
    \<and> reads (tcp_readBuffer (peer u)) = []"
proof -
  let ?run = "TcpPeerConnection_boostHandler False peer put_peer (tcp_available False no_address 2 quiet_app)
      (tcp_failed False no_address 2 quiet_app) \<lparr>ec_value = 2, ec_message = ''End of file''\<rparr> 0
      (tcp_put_buffer peer put_peer ((tcp_readBuffer (peer ex_received))\<lparr>reads := []\<rparr>) ex_received)"
  have "reads (tcp_readBuffer (peer ex_received)) = [(2, 2)]" by (simp add: ex_received_def)
  from tcp_read_error_final [OF ex_received_reach _ this _ surjective_pairing rtranclp.rtrancl_refl,
      of 0 "\<lparr>ec_value = 2, ec_message = ''End of file''\<rparr>"]
  have "reads (tcp_readBuffer (peer (snd ?run))) = []" by simp
  moreover have "fst ?run = Inr ()"
    by (simp add: TcpPeerConnection_boostHandler_def tcp_report_def tcp_failed_def tcp_callback_def
        quiet_app_def ex_received_def tcp_eval)
  ultimately show ?thesis by (metis prod.collapse)
qed

text \<open>
  C22: The transport of a connection never changes: an SSL connection writes through its SSL stream
  only, a plain one never does, and a handshake is only ever started on an SSL connection that was
  told to verify its peer.
\<close>

theorem tcp_transport_fixed:
  assumes "tcp_reach nd resolve chunk app w"
  shows "(\<forall>cls bs. Async_write cls bs \<in> set (tcp_calls (peer w)) \<longrightarrow> cls = tcp_class (peer w))
    \<and> (Async_handshake \<in> set (tcp_calls (peer w)) \<longrightarrow>
         tcp_class (peer w) = Ssl \<and> Set_verify_peer \<in> set (tcp_calls (peer w)))"
proof -
  have "tcp_calls_ok (tcp_class (peer w)) (tcp_calls (peer w))"
    if "(tcp_step nd resolve chunk app)\<^sup>*\<^sup>* (tcp_world_new cls e) w" for cls e
    using that
  proof (induction rule: rtranclp_induct)
    case base
    then show ?case by (simp add: tcp_calls_ok_def tcp_world_new_def TcpPeerConnection_new_def)
  next
    case (step v w)
    with tcp_step_class [OF step.hyps(2)] show ?case by (simp add: tcp_class_rel_def)
  qed
  then show ?thesis
    using assms by (auto simp: tcp_reach_def tcp_calls_ok_def)
qed

theorem tcp_transport_fixed_witness:
  "Async_handshake \<notin> set (tcp_calls (peer ex_three)) \<and> Async_write Ssl [1] \<notin> set (tcp_calls (peer ex_three))"
  using tcp_transport_fixed [OF ex_three_reach] by (auto simp: ex_three_def)

end
