(* ===== verification/TcpDomain.thy ===== *)
theory TcpDomain
  imports TcpPeer
begin

text \<open>
  A UNIX domain stream connection (\<open>IoServices/TcpDomainConnection\<close>). The class has the members
  of \<open>TcpPeerConnection\<close> with \<open>DomainSocket\<close> and \<open>DomainEndPoint\<close> for the socket and the
  end point, no SSL variant and no virtual functions. Its operations are defined here from their own
  source; that they are those of a plain TCP connection is then proved, operation by operation and
  step by step, and carries the results of the TCP connection over.
\<close>

section \<open>The class\<close>

type_synonym 'cb domain_conn = "(string, 'cb) tcp_conn"

definition TcpDomainConnection_new :: "'cb option \<Rightarrow> 'cb domain_conn" where
  "TcpDomainConnection_new errorCallback =
     \<lparr>tcp_class = Plain, tcp_outQueue = [],
      tcp_readBuffer = IoCircularBuffer_move_assign IoCircularBuffer_default IoCircularBuffer_new,
      tcp_errorCallback = errorCallback, tcp_connectCallback = None, tcp_peerEndPoint = None,
      tcp_calls = [], tcp_pending = []\<rparr>"

definition TcpDomainConnection_LaunchWrite :: "'cb domain_conn \<Rightarrow> (unit, 'cb domain_conn) outcome" where
  "TcpDomainConnection_LaunchWrite c =
     (case tcp_outQueue c of
        [] \<Rightarrow> (Inl (Undefined ''front of an empty deque''), c)
      | w # _ \<Rightarrow> (Inr (), c\<lparr>tcp_calls := tcp_calls c @ [Async_write Plain (IoBufferWrapper_ToBoost w)],
                         tcp_pending := tcp_pending c @ [w]\<rparr>))"

definition TcpDomainConnection_QueueOrLaunch ::
  "io_buffer \<Rightarrow> 'cb domain_conn \<Rightarrow> (c_int, 'cb domain_conn) outcome" where
  "TcpDomainConnection_QueueOrLaunch w c =
     (let c1 = c\<lparr>tcp_outQueue := tcp_outQueue c @ [w]\<rparr>
      in if length (tcp_outQueue c1) > 1 then (Inr (int_of_size (length (tcp_outQueue c1))), c1)
         else and_then (TcpDomainConnection_LaunchWrite c1)
                (\<lambda>_ c2. (Inr (int_of_size (length (tcp_outQueue c2))), c2)))"

definition TcpDomainConnection_AsyncWrite_string ::
  "byte list \<Rightarrow> bool \<Rightarrow> 'cb domain_conn \<Rightarrow> (c_int, 'cb domain_conn) outcome" where
  "TcpDomainConnection_AsyncWrite_string msg nullTerminate c =
     TcpDomainConnection_QueueOrLaunch (IoBufferWrapper_move_string msg nullTerminate) c"

definition TcpDomainConnection_AsyncWrite_bytes ::
  "byte list \<Rightarrow> 'cb domain_conn \<Rightarrow> (c_int, 'cb domain_conn) outcome" where
  "TcpDomainConnection_AsyncWrite_bytes msg c =
     TcpDomainConnection_QueueOrLaunch (IoBufferWrapper_bytes msg) c"

text \<open>\<open>endpoint name\<close> is boost's end point of a path, which throws when the path is too long.\<close>

definition TcpDomainConnection_AsyncConnect ::
  "(string \<Rightarrow> fault + string) \<Rightarrow> 'cb option \<Rightarrow> string \<Rightarrow> 'cb domain_conn \<Rightarrow> (unit, 'cb domain_conn) outcome" where
  "TcpDomainConnection_AsyncConnect endpoint connectCb name c =
     (case endpoint name of
        Inl f \<Rightarrow> (Inl f, c)
      | Inr remoteEp \<Rightarrow>
          (Inr (), c\<lparr>tcp_connectCallback := connectCb, tcp_peerEndPoint := Some remoteEp,
                     tcp_calls := tcp_calls c @ [Async_connect remoteEp]\<rparr>))"

definition TcpDomainConnection_BeginChainedRead ::
  "bool \<Rightarrow> 'cb option \<Rightarrow> 'cb option \<Rightarrow> c_int \<Rightarrow> 'cb domain_conn \<Rightarrow> (unit, 'cb domain_conn) outcome" where
  "TcpDomainConnection_BeginChainedRead nd available errorCallback chunk c =
     on_host tcp_readBuffer (\<lambda>b c. c\<lparr>tcp_readBuffer := b\<rparr>)
       (IoCircularBuffer_BeginChainedRead nd available chunk True) (c\<lparr>tcp_errorCallback := errorCallback\<rparr>)"

definition TcpDomainConnection_Consume :: "bool \<Rightarrow> nat \<Rightarrow> 'cb domain_conn \<Rightarrow> (unit, 'cb domain_conn) outcome" where
  "TcpDomainConnection_Consume nd len c =
     on_host tcp_readBuffer (\<lambda>b c. c\<lparr>tcp_readBuffer := b\<rparr>) (IoCircularBuffer_Consume nd len) c"

definition TcpDomainConnection_Data :: "bool \<Rightarrow> 'cb domain_conn \<Rightarrow> (byte option list, 'cb domain_conn) outcome" where
  "TcpDomainConnection_Data nd c =
     on_host tcp_readBuffer (\<lambda>b c. c\<lparr>tcp_readBuffer := b\<rparr>) (IoCircularBuffer_Get nd) c"

definition TcpDomainConnection_Size :: "bool \<Rightarrow> 'cb domain_conn \<Rightarrow> (nat, 'cb domain_conn) outcome" where
  "TcpDomainConnection_Size nd c =
     on_host tcp_readBuffer (\<lambda>b c. c\<lparr>tcp_readBuffer := b\<rparr>) (IoCircularBuffer_Size nd) c"

definition TcpDomainConnection_CopyTo ::
  "bool \<Rightarrow> byte option list \<Rightarrow> c_int \<Rightarrow> 'cb domain_conn \<Rightarrow> (byte option list, 'cb domain_conn) outcome" where
  "TcpDomainConnection_CopyTo nd dest len c =
     on_host tcp_readBuffer (\<lambda>b c. c\<lparr>tcp_readBuffer := b\<rparr>) (IoCircularBuffer_CopyTo nd dest len) c"

definition TcpDomainConnection_Close :: "'cb domain_conn \<Rightarrow> 'cb domain_conn" where
  "TcpDomainConnection_Close c = c\<lparr>tcp_calls := tcp_calls c @ [Close_socket]\<rparr>"

definition TcpDomainConnection_WriteHandler ::
  "io_buffer \<Rightarrow> error_code \<Rightarrow> nat \<Rightarrow> 'cb domain_conn \<Rightarrow> (unit, 'cb domain_conn) outcome" where
  "TcpDomainConnection_WriteHandler bufWrapper ec written c =
     (if written \<noteq> IoBufferWrapper_BoostSize bufWrapper
      then (Inr (), c\<lparr>tcp_calls := tcp_calls c @ [Close_socket]\<rparr>)
      else case tcp_outQueue c of
             [] \<Rightarrow> (Inl (Undefined ''pop_front of an empty deque''), c)
           | _ # q \<Rightarrow>
               let c1 = c\<lparr>tcp_outQueue := q\<rparr>
               in if length q = 0 then (Inr (), c1) else TcpDomainConnection_LaunchWrite c1)"

definition domain_write_completed ::
  "error_code \<Rightarrow> nat \<Rightarrow> 'cb domain_conn \<Rightarrow> (unit, 'cb domain_conn) outcome" where
  "domain_write_completed ec written c =
     (case tcp_pending c of
        [] \<Rightarrow> (Inr (), c)
      | w # ws \<Rightarrow> TcpDomainConnection_WriteHandler w ec written (c\<lparr>tcp_pending := ws\<rparr>))"

definition TcpDomainConnection_ConnectHandler ::
  "('s \<Rightarrow> 'cb domain_conn) \<Rightarrow> ('cb \<Rightarrow> error_code \<Rightarrow> 's \<Rightarrow> (unit, 's) outcome) \<Rightarrow>
   ('cb \<Rightarrow> 's \<Rightarrow> (unit, 's) outcome) \<Rightarrow> error_code \<Rightarrow> 's \<Rightarrow> (unit, 's) outcome" where
  "TcpDomainConnection_ConnectHandler get err con ec s =
     (if ec_set ec
      then case tcp_errorCallback (get s) of None \<Rightarrow> (Inl BadFunctionCall, s) | Some cb \<Rightarrow> err cb ec s
      else case tcp_connectCallback (get s) of None \<Rightarrow> (Inl BadFunctionCall, s) | Some cb \<Rightarrow> con cb s)"

definition TcpDomainConnection_boostHandler ::
  "bool \<Rightarrow> ('s \<Rightarrow> 'cb domain_conn) \<Rightarrow> ('cb domain_conn \<Rightarrow> 's \<Rightarrow> 's) \<Rightarrow>
   ('cb \<Rightarrow> nat \<Rightarrow> 's \<Rightarrow> (unit, 's) outcome) \<Rightarrow> ('cb \<Rightarrow> error_code \<Rightarrow> 's \<Rightarrow> (unit, 's) outcome) \<Rightarrow>
   error_code \<Rightarrow> nat \<Rightarrow> 's \<Rightarrow> (unit, 's) outcome" where
  "TcpDomainConnection_boostHandler nd get put app err ec bytes_transferred s =
     (if bytes_transferred = 0 \<or> ec_set ec
      then let s1 = put ((get s)\<lparr>tcp_readBuffer := IoCircularBuffer_EndReadSome (tcp_readBuffer (get s))\<rparr>) s
           in case tcp_errorCallback (get s1) of
                None \<Rightarrow> (Inl BadFunctionCall, s1) | Some cb \<Rightarrow> err cb ec s1
      else IoCircularBuffer_ReadSomeHandler nd (\<lambda>s. tcp_readBuffer (get s))
             (\<lambda>b s. put ((get s)\<lparr>tcp_readBuffer := b\<rparr>) s) app bytes_transferred s)"

section \<open>Equality with the plain TCP connection\<close>

lemmas domain_defs =
  TcpDomainConnection_new_def TcpDomainConnection_LaunchWrite_def
  TcpDomainConnection_QueueOrLaunch_def TcpDomainConnection_AsyncWrite_string_def
  TcpDomainConnection_AsyncWrite_bytes_def TcpDomainConnection_AsyncConnect_def
  TcpDomainConnection_BeginChainedRead_def TcpDomainConnection_Consume_def
  TcpDomainConnection_Close_def TcpDomainConnection_WriteHandler_def domain_write_completed_def
  TcpDomainConnection_ConnectHandler_def TcpDomainConnection_boostHandler_def

lemma domain_launch_eq:
  "tcp_class c = Plain \<Longrightarrow> TcpDomainConnection_LaunchWrite c = TcpPeerConnection_LaunchWrite c"
  by (simp add: domain_defs tcp_defs split: list.split)

lemma domain_queue_eq:
  "tcp_class c = Plain \<Longrightarrow> TcpDomainConnection_QueueOrLaunch m c = TcpPeerConnection_QueueOrLaunch m c"
  by (simp add: TcpDomainConnection_QueueOrLaunch_def TcpPeerConnection_QueueOrLaunch_def domain_launch_eq Let_def)

lemma domain_completed_eq:
  "tcp_class c = Plain \<Longrightarrow> domain_write_completed ec n c = tcp_write_completed ec n c"
  by (simp add: domain_write_completed_def TcpDomainConnection_WriteHandler_def tcp_write_completed_def
      TcpPeerConnection_WriteHandler_def domain_launch_eq tcp_call_def Let_def split: list.split)

lemma domain_connect_eq:
  "tcp_class (get s) = Plain \<Longrightarrow>
    TcpDomainConnection_ConnectHandler get err con ec s = TcpPeerConnection_ConnectHandler get put err con ec s"
  by (simp add: TcpDomainConnection_ConnectHandler_def TcpPeerConnection_ConnectHandler_def tcp_report_def
      TcpConnection_UpperLayerHandleConnect_def tcp_notify_connected_def)

lemma domain_read_eq:
  "TcpDomainConnection_boostHandler = TcpPeerConnection_boostHandler"
  by (intro ext) (simp add: TcpDomainConnection_boostHandler_def TcpPeerConnection_boostHandler_def
      tcp_report_def tcp_put_buffer_def [abs_def] tcp_get_buffer_def [abs_def] Let_def)

section \<open>Runs\<close>

text \<open>The port of a connect call is not used.\<close>

fun domain_do ::
  "bool \<Rightarrow> (string \<Rightarrow> fault + string) \<Rightarrow> c_int \<Rightarrow> 'cb tcp_api \<Rightarrow> 'cb domain_conn \<Rightarrow>
   (unit, 'cb domain_conn) outcome" where
  "domain_do nd endpoint chunk (Tcp_write_string msg nt) c =
     and_then (TcpDomainConnection_AsyncWrite_string msg nt c) (\<lambda>_ c. (Inr (), c))"
| "domain_do nd endpoint chunk (Tcp_write_bytes msg) c =
     and_then (TcpDomainConnection_AsyncWrite_bytes msg c) (\<lambda>_ c. (Inr (), c))"
| "domain_do nd endpoint chunk (Tcp_connect cb name port) c =
     TcpDomainConnection_AsyncConnect endpoint (Some cb) name c"
| "domain_do nd endpoint chunk (Tcp_begin_read cb e) c =
     TcpDomainConnection_BeginChainedRead nd (Some cb) (Some e) chunk c"
| "domain_do nd endpoint chunk (Tcp_consume n) c = TcpDomainConnection_Consume nd n c"
| "domain_do nd endpoint chunk Tcp_close c = (Inr (), TcpDomainConnection_Close c)"

definition domain_api_call ::
  "bool \<Rightarrow> (string \<Rightarrow> fault + string) \<Rightarrow> c_int \<Rightarrow> 'cb tcp_api \<Rightarrow> (string, 'cb) tcp_world \<Rightarrow>
   (unit, (string, 'cb) tcp_world) outcome" where
  "domain_api_call nd endpoint chunk a w =
     (case domain_do nd endpoint chunk a (peer w) of
        (r, c) \<Rightarrow> (r, w\<lparr>peer := c, tcp_accepted := tcp_accepted w @ tcp_accepts a\<rparr>))"

definition domain_callback ::
  "bool \<Rightarrow> (string \<Rightarrow> fault + string) \<Rightarrow> c_int \<Rightarrow> (string, 'cb) tcp_app \<Rightarrow> conn_event \<Rightarrow> 'cb \<Rightarrow>
   (string, 'cb) tcp_world \<Rightarrow> (unit, (string, 'cb) tcp_world) outcome" where
  "domain_callback nd endpoint chunk app ev cb w =
     run_script (domain_api_call nd endpoint chunk) (app cb ev w) w"

inductive domain_step ::
  "bool \<Rightarrow> (string \<Rightarrow> fault + string) \<Rightarrow> c_int \<Rightarrow> (string, 'cb) tcp_app \<Rightarrow>
   (string, 'cb) tcp_world \<Rightarrow> (string, 'cb) tcp_world \<Rightarrow> bool"
  for nd endpoint chunk app where
  call: "domain_api_call nd endpoint chunk a w = (r, w') \<Longrightarrow> domain_step nd endpoint chunk app w w'"
| wrote: "tcp_pending (peer w) = m # ms \<Longrightarrow> domain_write_completed ec n (peer w) = (r, c) \<Longrightarrow>
    domain_step nd endpoint chunk app w
      (w\<lparr>peer := c, tcp_sent := tcp_sent w @ (if n = IoBufferWrapper_BoostSize m then [m] else [])\<rparr>)"
| read: "fits_read bs (tcp_readBuffer (peer w)) \<Longrightarrow>
    TcpDomainConnection_boostHandler nd peer put_peer
      (\<lambda>cb n. domain_callback nd endpoint chunk app (Available n) cb)
      (\<lambda>cb ec. domain_callback nd endpoint chunk app (Failed ec) cb) no_error (length bs)
      (put_peer ((peer w)\<lparr>tcp_readBuffer := circ_fill bs (tcp_readBuffer (peer w))\<rparr>)
         (w\<lparr>tcp_received := tcp_received w @ bs\<rparr>)) = (r, w') \<Longrightarrow>
    domain_step nd endpoint chunk app w w'"
| read_failed: "reads (tcp_readBuffer (peer w)) = slot # slots \<Longrightarrow> n = 0 \<or> ec_set ec \<Longrightarrow>
    TcpDomainConnection_boostHandler nd peer put_peer
      (\<lambda>cb n. domain_callback nd endpoint chunk app (Available n) cb)
      (\<lambda>cb ec. domain_callback nd endpoint chunk app (Failed ec) cb) ec n
      (put_peer ((peer w)\<lparr>tcp_readBuffer := (tcp_readBuffer (peer w))\<lparr>reads := slots\<rparr>\<rparr>) w) = (r, w') \<Longrightarrow>
    domain_step nd endpoint chunk app w w'"
| connected: "TcpDomainConnection_ConnectHandler peer
      (\<lambda>cb ec. domain_callback nd endpoint chunk app (Failed ec) cb)
      (domain_callback nd endpoint chunk app Connected) ec w = (r, w') \<Longrightarrow>
    domain_step nd endpoint chunk app w w'"

definition domain_world_new :: "'cb option \<Rightarrow> (string, 'cb) tcp_world" where
  "domain_world_new e =
     \<lparr>peer = TcpDomainConnection_new e, tcp_accepted = [], tcp_sent = [], tcp_received = []\<rparr>"

abbreviation plain_peer :: "(string, 'cb) tcp_world \<Rightarrow> bool" where
  "plain_peer w \<equiv> tcp_class (peer w) = Plain"

abbreviation name_only :: "(string \<Rightarrow> fault + string) \<Rightarrow> string \<Rightarrow> c_int \<Rightarrow> fault + string" where
  "name_only endpoint \<equiv> \<lambda>name port. endpoint name"

lemma domain_api_eq:
  "plain_peer w \<Longrightarrow> domain_api_call nd endpoint chunk a w = tcp_api_call nd (name_only endpoint) chunk a w"
  by (cases a) (simp_all add: domain_api_call_def tcp_api_call_def domain_queue_eq
      TcpDomainConnection_AsyncWrite_string_def TcpPeerConnection_AsyncWrite_string_def
      TcpDomainConnection_AsyncWrite_bytes_def TcpPeerConnection_AsyncWrite_bytes_def
      TcpDomainConnection_AsyncConnect_def TcpDomainConnection_BeginChainedRead_def
      TcpDomainConnection_Consume_def TcpDomainConnection_Close_def tcp_other_defs
      TcpPeerConnection_Close_def tcp_call_def Let_def split: sum.split)

lemma domain_callback_eq:
  assumes "plain_peer w"
  shows "domain_callback nd endpoint chunk app ev cb w = tcp_callback nd (name_only endpoint) chunk app ev cb w"
  unfolding domain_callback_def tcp_callback_def
proof (rule run_script_cong [where P = plain_peer])
  fix a and s :: "(string, 'a) tcp_world"
  assume "plain_peer s"
  with tcp_api_class [of s nd "name_only endpoint" chunk a]
  show "plain_peer (snd (tcp_api_call nd (name_only endpoint) chunk a s))"
    by (simp add: tcp_class_rel_def)
qed (use assms domain_api_eq in blast)+

lemma handler_app_cong:
  assumes app: "\<And>cb n s. P s \<Longrightarrow> app' cb n s = app cb n s" and put: "\<And>b s. P s \<Longrightarrow> P (put b s)" and "P s"
  shows "IoCircularBuffer_ReadSomeHandler nd get put app' n s = IoCircularBuffer_ReadSomeHandler nd get put app n s"
  using assms(3) by (simp add: IoCircularBuffer_ReadSomeHandler_def app put Let_def split: option.split)

lemma domain_handler_eq:
  assumes "plain_peer w"
  shows "TcpDomainConnection_boostHandler nd peer put_peer
      (\<lambda>cb n. domain_callback nd endpoint chunk app (Available n) cb)
      (\<lambda>cb ec. domain_callback nd endpoint chunk app (Failed ec) cb) ec n w =
    TcpPeerConnection_boostHandler nd peer put_peer (tcp_available nd (name_only endpoint) chunk app)
      (tcp_failed nd (name_only endpoint) chunk app) ec n w"
proof -
  have put: "plain_peer (tcp_put_buffer peer put_peer b v)" if "plain_peer v" for b and v :: "(string, 'a) tcp_world"
    using that by (simp add: tcp_put_buffer_def put_peer_def)
  show ?thesis
    using assms put [OF assms]
    by (simp add: domain_read_eq TcpPeerConnection_boostHandler_def tcp_report_def tcp_failed_def
        domain_callback_eq tcp_available_def [abs_def] split: option.split)
      (auto intro!: handler_app_cong [where P = plain_peer] simp: put domain_callback_eq)
qed

lemma domain_step_tcp:
  assumes "domain_step nd endpoint chunk app w w'" and plain: "plain_peer w"
  shows "tcp_step nd (name_only endpoint) chunk app w w' \<and> plain_peer w'"
proof -
  from assms(1) have "tcp_step nd (name_only endpoint) chunk app w w'"
  proof (cases rule: domain_step.cases)
    case (call a r)
    with domain_api_eq [OF plain] show ?thesis by (metis tcp_step.call)
  next
    case (wrote m ms ec n r c)
    with plain show ?thesis by (simp add: domain_completed_eq tcp_step.wrote)
  next
    case (read bs r)
    let ?u = "put_peer ((peer w)\<lparr>tcp_readBuffer := circ_fill bs (tcp_readBuffer (peer w))\<rparr>)
      (w\<lparr>tcp_received := tcp_received w @ bs\<rparr>)"
    have "plain_peer ?u" using plain by (simp add: put_peer_def)
    from read(2) [unfolded domain_handler_eq [OF this]] show ?thesis
      by (intro tcp_step.read [OF read(1)]) (simp add: tcp_put_buffer_def)
  next
    case (read_failed slot slots n ec r)
    let ?u = "put_peer ((peer w)\<lparr>tcp_readBuffer := (tcp_readBuffer (peer w))\<lparr>reads := slots\<rparr>\<rparr>) w"
    have "plain_peer ?u" using plain by (simp add: put_peer_def)
    from read_failed(3) [unfolded domain_handler_eq [OF this]] show ?thesis
      by (intro tcp_step.read_failed [OF read_failed(1,2)]) (simp add: tcp_put_buffer_def)
  next
    case (connected ec r)
    have "TcpDomainConnection_ConnectHandler peer
        (\<lambda>cb ec. domain_callback nd endpoint chunk app (Failed ec) cb)
        (domain_callback nd endpoint chunk app Connected) ec w =
      TcpPeerConnection_ConnectHandler peer put_peer (tcp_failed nd (name_only endpoint) chunk app)
        (tcp_callback nd (name_only endpoint) chunk app Connected) ec w"
      using plain
      by (simp add: TcpDomainConnection_ConnectHandler_def TcpPeerConnection_ConnectHandler_def tcp_report_def
          TcpConnection_UpperLayerHandleConnect_def tcp_notify_connected_def domain_callback_eq tcp_failed_def
          split: option.split)
    with connected show ?thesis by (metis tcp_step.connected)
  qed
  with tcp_step_class [OF this] plain show ?thesis by (simp add: tcp_class_rel_def)
qed

lemma domain_new_eq: "domain_world_new e = tcp_world_new Plain e"
  by (simp add: domain_world_new_def tcp_world_new_def TcpDomainConnection_new_def TcpPeerConnection_new_def)

lemma domain_steps_tcp:
  assumes "(domain_step nd endpoint chunk app)\<^sup>*\<^sup>* (domain_world_new e) w"
  shows "(tcp_step nd (name_only endpoint) chunk app)\<^sup>*\<^sup>* (tcp_world_new Plain e) w \<and> plain_peer w"
  using assms
proof (induction rule: rtranclp_induct)
  case base
  show ?case by (simp add: domain_new_eq) (simp add: tcp_world_new_def TcpPeerConnection_new_def)
next
  case (step v w)
  with domain_step_tcp [OF step.hyps(2)] show ?case by (auto intro: rtranclp.rtrancl_into_rtrancl)
qed

section \<open>Properties\<close>

text \<open>
  C15: A UNIX domain connection is a plain TCP connection whose end point is a path: every run of it,
  with any application behind its callbacks, is a run of \<open>TcpPeerConnection\<close>, step for step and
  state for state.
\<close>

theorem domain_refines_tcp:
  assumes "(domain_step nd endpoint chunk app)\<^sup>*\<^sup>* (domain_world_new e) w"
  shows "(tcp_step nd (name_only endpoint) chunk app)\<^sup>*\<^sup>* (tcp_world_new Plain e) w"
  using domain_steps_tcp [OF assms] by blast



text \<open>A connection to a socket of the file system on which a read was begun and a message written.\<close>

definition domain_example :: "(string, nat) tcp_world" where
  "domain_example = snd (domain_api_call False Inr 2 (Tcp_write_bytes [1])
     (snd (domain_api_call False Inr 2 (Tcp_begin_read 7 8)
       (snd (domain_api_call False Inr 2 (Tcp_connect 6 ''/tmp/s'' 0) (domain_world_new (Some 5)))))))"

definition silent_app :: "(string, nat) tcp_app" where
  "silent_app cb ev w = []"

lemma domain_example_run: "(domain_step False Inr 2 silent_app)\<^sup>*\<^sup>* (domain_world_new (Some 5)) domain_example"
proof -
  have next_call: "(domain_step False Inr 2 silent_app)\<^sup>*\<^sup>* v w \<Longrightarrow>
      (domain_step False Inr 2 silent_app)\<^sup>*\<^sup>* v (snd (domain_api_call False Inr 2 a w))" for v w a
    by (erule rtranclp.rtrancl_into_rtrancl) (rule domain_step.call, rule surjective_pairing)
  show ?thesis
    unfolding domain_example_def by (intro next_call rtranclp.rtrancl_refl)
qed

theorem domain_refines_tcp_witness:
  "(tcp_step False (\<lambda>name port. Inr name) 2 silent_app)\<^sup>*\<^sup>* (tcp_world_new Plain (Some 5)) domain_example"
  by (rule domain_refines_tcp [OF domain_example_run])

text \<open>
  So a UNIX domain connection sends the accepted messages once each and in order with at most one
  outstanding write, and holds a suffix of the bytes its socket received.
\<close>

lemma domain_order_and_stream:
  assumes "(domain_step nd endpoint chunk app)\<^sup>*\<^sup>* (domain_world_new e) w" and "0 < sint chunk"
  shows "tcp_accepted w = tcp_sent w @ tcp_outQueue (peer w)
    \<and> length (tcp_pending (peer w)) \<le> 1
    \<and> tcp_handed (peer w) =
        map IoBufferWrapper_ToBoost (take (length (tcp_handed (peer w))) (tcp_accepted w))
    \<and> (\<exists>k \<le> length (tcp_received w).
         vec_data (buffer (tcp_readBuffer (peer w))) = map Some (drop k (tcp_received w)))"
proof -
  have reach: "tcp_reach nd (name_only endpoint) chunk app w"
    using domain_steps_tcp [OF assms(1)] by (auto simp: tcp_reach_def)
  have run: "tcp_queue.run (tcp_accepted w) (tcp_sent w) (peer w)"
    using tcp_reach_sends [OF reach] by (simp add: tcp_sends_def)
  show ?thesis
    using tcp_queue.fifo [OF run] tcp_queue.one_in_flight [OF run] tcp_queue.handed_prefix [OF run]
      tcp_reach_reads [OF reach assms(2)]
    by (auto simp: tcp_reads_def tcp_buffer_def)
qed

lemma domain_order_and_stream_witness:
  "tcp_handed (peer domain_example) = [[1]] \<and> length (tcp_pending (peer domain_example)) \<le> 1"
proof -
  have "tcp_handed (peer domain_example) = [[1]]"
    by (simp add: domain_example_def domain_api_call_def domain_world_new_def domain_defs tcp_eval circ_eval)
  then show ?thesis using domain_order_and_stream [OF domain_example_run] by simp
qed

end
