(* ===== verification/StreamApi.thy ===== *)
theory StreamApi
  imports TcpPeer TcpDomain
begin

text \<open>
  The objects the application holds for its stream connections: \<open>IoServices/StreamConnection\<close> and
  \<open>IoServices/UnixStreamConnection\<close>. Each keeps a weak pointer to a connection that the server or
  the services object owns, and forwards to it while it exists.
\<close>

section \<open>A handle\<close>

text \<open>
  The weak pointer is the connection it reaches, or \<open>None\<close> once the owner has dropped it.
  \<open>locked\<close> is the common shape of the members: lock the pointer, throw if it has expired, forward.
\<close>

record 'conn stream_handle =
  peerConnection :: "'conn option"
  isClientSide :: bool

definition locked ::
  "string \<Rightarrow> ('conn \<Rightarrow> ('a, 'conn) outcome) \<Rightarrow> 'conn stream_handle \<Rightarrow> ('a, 'conn stream_handle) outcome" where
  "locked msg f h =
     (case peerConnection h of
        None \<Rightarrow> (Inl (RuntimeError msg), h)
      | Some c \<Rightarrow> (case f c of (r, c) \<Rightarrow> (r, h\<lparr>peerConnection := Some c\<rparr>)))"

text \<open>
  \<open>ConsumeInto\<close> and \<open>ConsumeTo\<close> on a handle and the destination. \<open>memcpy\<close> of a negative length,
  past the allocation or past the destination has no defined meaning; the copy is made before
  \<open>Consume\<close> checks the length. The assertion of \<open>ConsumeTo\<close> compares the sizes as \<open>int\<close>s, and
  evaluates \<open>Size\<close> only in a debug build.
\<close>

definition consume_into ::
  "('h \<Rightarrow> (byte option list, 'h) outcome) \<Rightarrow> ('h \<Rightarrow> (unit, 'h) outcome) \<Rightarrow> c_int \<Rightarrow>
   'h \<times> byte option list \<Rightarrow> (unit, 'h \<times> byte option list) outcome" where
  "consume_into data consume len s =
     (case s of (h, buf) \<Rightarrow>
        (case data h of
           (Inl f, h) \<Rightarrow> (Inl f, (h, buf))
         | (Inr cs, h) \<Rightarrow>
             if sint len < 0 \<or> length cs < nat (sint len) \<or> length buf < nat (sint len)
             then (Inl (Undefined ''memcpy out of bounds''), (h, buf))
             else
               let n = nat (sint len); buf1 = take n cs @ drop n buf
               in case consume h of (r, h) \<Rightarrow> (r, (h, buf1))))"

definition consume_to ::
  "bool \<Rightarrow> ('h \<Rightarrow> (nat, 'h) outcome) \<Rightarrow> (byte option list \<Rightarrow> 'h \<Rightarrow> (byte option list, 'h) outcome) \<Rightarrow>
   ('h \<Rightarrow> (unit, 'h) outcome) \<Rightarrow> c_int \<Rightarrow> 'h \<times> byte option list \<Rightarrow>
   (unit, 'h \<times> byte option list) outcome" where
  "consume_to nd get_size copy consume len s =
     (case s of (h, dest) \<Rightarrow>
        (case (if nd then (Inr True, h)
               else and_then (get_size h) (\<lambda>n h. (Inr (sint len \<le> sint (int_of_size n)), h))) of
           (Inl f, h) \<Rightarrow> (Inl f, (h, dest))
         | (Inr ok, h) \<Rightarrow>
             if \<not> ok then (Inl (Aborted ''Must extract within limit of available.''), (h, dest))
             else (case copy dest h of
                     (Inl f, h) \<Rightarrow> (Inl f, (h, dest))
                   | (Inr dest1, h) \<Rightarrow> (case consume h of (r, h) \<Rightarrow> (r, (h, dest1))))))"

section \<open>StreamConnection\<close>

definition StreamConnection_new :: "(end_point, 'cb) tcp_conn \<Rightarrow> bool \<Rightarrow> (end_point, 'cb) tcp_conn stream_handle" where
  "StreamConnection_new conn clientSide = \<lparr>peerConnection = Some conn, isClientSide = clientSide\<rparr>"

definition StreamConnection_Expired :: "(end_point, 'cb) tcp_conn stream_handle \<Rightarrow> bool" where
  "StreamConnection_Expired h \<longleftrightarrow> peerConnection h = None"

definition StreamConnection_AsyncWrite_string ::
  "byte list \<Rightarrow> bool \<Rightarrow> (end_point, 'cb) tcp_conn stream_handle \<Rightarrow> (c_int, (end_point, 'cb) tcp_conn stream_handle) outcome" where
  "StreamConnection_AsyncWrite_string msg nullTerminate h =
     locked ''Connection expired.'' (TcpPeerConnection_AsyncWrite_string msg nullTerminate) h"

definition StreamConnection_AsyncWrite_bytes ::
  "byte list \<Rightarrow> (end_point, 'cb) tcp_conn stream_handle \<Rightarrow> (c_int, (end_point, 'cb) tcp_conn stream_handle) outcome" where
  "StreamConnection_AsyncWrite_bytes msg h = locked ''Connection expired.'' (TcpPeerConnection_AsyncWrite_bytes msg) h"

definition StreamConnection_ConsumeInto ::
  "bool \<Rightarrow> c_int \<Rightarrow> (end_point, 'cb) tcp_conn stream_handle \<times> byte option list \<Rightarrow>
   (unit, (end_point, 'cb) tcp_conn stream_handle \<times> byte option list) outcome" where
  "StreamConnection_ConsumeInto nd len s =
     consume_into (locked ''Connection expired.'' (TcpPeerConnection_Data nd))
       (locked ''Connection expired.'' (TcpPeerConnection_Consume nd (size_of_int len))) len s"

definition StreamConnection_ConsumeTo ::
  "bool \<Rightarrow> c_int \<Rightarrow> (end_point, 'cb) tcp_conn stream_handle \<times> byte option list \<Rightarrow>
   (unit, (end_point, 'cb) tcp_conn stream_handle \<times> byte option list) outcome" where
  "StreamConnection_ConsumeTo nd len s =
     (case peerConnection (fst s) of
        None \<Rightarrow> (Inl (RuntimeError ''Connection expired.''), s)
      | Some c \<Rightarrow>
          consume_to nd (locked ''Connection expired.'' (TcpPeerConnection_Size nd))
            (\<lambda>dest. locked ''Connection expired.'' (TcpPeerConnection_CopyTo nd dest len))
            (locked ''Connection expired.'' (TcpPeerConnection_Consume nd (size_of_int len))) len s)"

definition StreamConnection_Data :: "bool \<Rightarrow> (end_point, 'cb) tcp_conn stream_handle \<Rightarrow> (byte option list, (end_point, 'cb) tcp_conn stream_handle) outcome" where
  "StreamConnection_Data nd h = locked ''Connection expired.'' (TcpPeerConnection_Data nd) h"

definition StreamConnection_Size :: "bool \<Rightarrow> (end_point, 'cb) tcp_conn stream_handle \<Rightarrow> (nat, (end_point, 'cb) tcp_conn stream_handle) outcome" where
  "StreamConnection_Size nd h = locked ''Connection expired.'' (TcpPeerConnection_Size nd) h"

definition StreamConnection_Consume ::
  "bool \<Rightarrow> c_int \<Rightarrow> (end_point, 'cb) tcp_conn stream_handle \<Rightarrow> (unit, (end_point, 'cb) tcp_conn stream_handle) outcome" where
  "StreamConnection_Consume nd len h = locked ''Connection expired.'' (TcpPeerConnection_Consume nd (size_of_int len)) h"

text \<open>
  The peer's address as text and its port. \<open>show_ip\<close> is boost's output of an address; an end point
  that was never set is the unspecified IPv4 address with port 0.
\<close>

definition StreamConnection_GetPeerEndPoint ::
  "(ip_address \<Rightarrow> string) \<Rightarrow> (end_point, 'cb) tcp_conn stream_handle \<Rightarrow>
   (string \<times> c_int, (end_point, 'cb) tcp_conn stream_handle) outcome" where
  "StreamConnection_GetPeerEndPoint show_ip h =
     locked ''Connection expired.''
       (\<lambda>c. case tcp_peerEndPoint c of
          None \<Rightarrow> (Inr (show_ip (V4 0), 0), c)
        | Some ep \<Rightarrow> (Inr (show_ip (fst ep), ucast (snd ep)), c)) h"

definition EndPoint_print :: "string \<times> c_int \<Rightarrow> string" where
  "EndPoint_print ep = fst ep @ '':'' @ show_c_int (snd ep)"

definition StreamConnection_Close :: "(end_point, 'cb) tcp_conn stream_handle \<Rightarrow> (unit, (end_point, 'cb) tcp_conn stream_handle) outcome" where
  "StreamConnection_Close h =
     (case peerConnection h of
        None \<Rightarrow> (Inr (), h)
      | Some c \<Rightarrow> (Inr (), h\<lparr>peerConnection := Some (TcpPeerConnection_Close c)\<rparr>))"

text \<open>The destructor closes the socket; \<open>socket_close\<close> is boost's answer, which may throw.\<close>

definition StreamConnection_destroy ::
  "(unit \<Rightarrow> fault option) \<Rightarrow> (end_point, 'cb) tcp_conn stream_handle \<Rightarrow> (unit, (end_point, 'cb) tcp_conn stream_handle) outcome" where
  "StreamConnection_destroy socket_close h =
     (case peerConnection h of
        None \<Rightarrow> (Inr (), h)
      | Some c \<Rightarrow> (case socket_close () of
            Some f \<Rightarrow> (Inl f, h) | None \<Rightarrow> (Inr (), h\<lparr>peerConnection := Some (tcp_call Close_socket c)\<rparr>)))"

section \<open>UnixStreamConnection\<close>

definition UnixStreamConnection_new :: "'cb domain_conn \<Rightarrow> bool \<Rightarrow> 'cb domain_conn stream_handle" where
  "UnixStreamConnection_new conn clientSide = \<lparr>peerConnection = Some conn, isClientSide = clientSide\<rparr>"

definition UnixStreamConnection_Expired :: "'cb domain_conn stream_handle \<Rightarrow> bool" where
  "UnixStreamConnection_Expired h \<longleftrightarrow> peerConnection h = None"

definition UnixStreamConnection_AsyncWrite_string ::
  "byte list \<Rightarrow> bool \<Rightarrow> 'cb domain_conn stream_handle \<Rightarrow> (c_int, 'cb domain_conn stream_handle) outcome" where
  "UnixStreamConnection_AsyncWrite_string msg nullTerminate h =
     locked ''Connection expired.'' (TcpDomainConnection_AsyncWrite_string msg nullTerminate) h"

definition UnixStreamConnection_AsyncWrite_bytes ::
  "byte list \<Rightarrow> 'cb domain_conn stream_handle \<Rightarrow> (c_int, 'cb domain_conn stream_handle) outcome" where
  "UnixStreamConnection_AsyncWrite_bytes msg h = locked ''Connection expired.'' (TcpDomainConnection_AsyncWrite_bytes msg) h"

definition UnixStreamConnection_ConsumeInto ::
  "bool \<Rightarrow> c_int \<Rightarrow> 'cb domain_conn stream_handle \<times> byte option list \<Rightarrow>
   (unit, 'cb domain_conn stream_handle \<times> byte option list) outcome" where
  "UnixStreamConnection_ConsumeInto nd len s =
     consume_into (locked ''Connection expired.'' (TcpDomainConnection_Data nd))
       (locked ''Connection expired.'' (TcpDomainConnection_Consume nd (size_of_int len))) len s"

definition UnixStreamConnection_ConsumeTo ::
  "bool \<Rightarrow> c_int \<Rightarrow> 'cb domain_conn stream_handle \<times> byte option list \<Rightarrow>
   (unit, 'cb domain_conn stream_handle \<times> byte option list) outcome" where
  "UnixStreamConnection_ConsumeTo nd len s =
     (case peerConnection (fst s) of
        None \<Rightarrow> (Inl (RuntimeError ''Connection expired.''), s)
      | Some c \<Rightarrow>
          consume_to nd (locked ''Connection expired.'' (TcpDomainConnection_Size nd))
            (\<lambda>dest. locked ''Connection expired.'' (TcpDomainConnection_CopyTo nd dest len))
            (locked ''Connection expired.'' (TcpDomainConnection_Consume nd (size_of_int len))) len s)"

definition UnixStreamConnection_Data :: "bool \<Rightarrow> 'cb domain_conn stream_handle \<Rightarrow> (byte option list, 'cb domain_conn stream_handle) outcome" where
  "UnixStreamConnection_Data nd h = locked ''Connection expired.'' (TcpDomainConnection_Data nd) h"

definition UnixStreamConnection_Size :: "bool \<Rightarrow> 'cb domain_conn stream_handle \<Rightarrow> (nat, 'cb domain_conn stream_handle) outcome" where
  "UnixStreamConnection_Size nd h = locked ''Connection expired.'' (TcpDomainConnection_Size nd) h"

definition UnixStreamConnection_Consume ::
  "bool \<Rightarrow> c_int \<Rightarrow> 'cb domain_conn stream_handle \<Rightarrow> (unit, 'cb domain_conn stream_handle) outcome" where
  "UnixStreamConnection_Consume nd len h = locked ''Connection expired.'' (TcpDomainConnection_Consume nd (size_of_int len)) h"

definition UnixStreamConnection_GetDomainEndPoint ::
  "'cb domain_conn stream_handle \<Rightarrow> (string, 'cb domain_conn stream_handle) outcome" where
  "UnixStreamConnection_GetDomainEndPoint h =
     locked ''Connection expired.''
       (\<lambda>c. case tcp_peerEndPoint c of None \<Rightarrow> (Inr '''', c) | Some name \<Rightarrow> (Inr name, c)) h"

definition UnixStreamConnection_Close :: "'cb domain_conn stream_handle \<Rightarrow> (unit, 'cb domain_conn stream_handle) outcome" where
  "UnixStreamConnection_Close h =
     (case peerConnection h of
        None \<Rightarrow> (Inr (), h)
      | Some c \<Rightarrow> (Inr (), h\<lparr>peerConnection := Some (TcpDomainConnection_Close c)\<rparr>))"

text \<open>The destructor closes the socket; \<open>socket_close\<close> is boost's answer, which may throw.\<close>

definition UnixStreamConnection_destroy ::
  "(unit \<Rightarrow> fault option) \<Rightarrow> 'cb domain_conn stream_handle \<Rightarrow> (unit, 'cb domain_conn stream_handle) outcome" where
  "UnixStreamConnection_destroy socket_close h =
     (case peerConnection h of
        None \<Rightarrow> (Inr (), h)
      | Some c \<Rightarrow> (case socket_close () of
            Some f \<Rightarrow> (Inl f, h) | None \<Rightarrow> (Inr (), h\<lparr>peerConnection := Some (tcp_call Close_socket c)\<rparr>)))"

section \<open>Properties\<close>

lemmas stream_defs =
  StreamConnection_AsyncWrite_string_def StreamConnection_AsyncWrite_bytes_def StreamConnection_ConsumeInto_def
  StreamConnection_ConsumeTo_def StreamConnection_Data_def StreamConnection_Size_def
  StreamConnection_Consume_def StreamConnection_GetPeerEndPoint_def StreamConnection_Close_def
  StreamConnection_Expired_def StreamConnection_destroy_def
  UnixStreamConnection_AsyncWrite_string_def UnixStreamConnection_AsyncWrite_bytes_def
  UnixStreamConnection_ConsumeInto_def UnixStreamConnection_ConsumeTo_def UnixStreamConnection_Data_def
  UnixStreamConnection_Size_def UnixStreamConnection_Consume_def UnixStreamConnection_GetDomainEndPoint_def
  UnixStreamConnection_Close_def UnixStreamConnection_Expired_def UnixStreamConnection_destroy_def

text \<open>Reading through a handle inside a read handler.\<close>

lemma tcp_read_ops:
  assumes "hasContext (tcp_readBuffer c)"
  shows "TcpPeerConnection_Data nd c = (Inr (cells (buffer (tcp_readBuffer c))), c)"
    and "TcpPeerConnection_Size nd c = (Inr (vsize (buffer (tcp_readBuffer c))), c)"
    and "0 \<le> sint len \<Longrightarrow> nat (sint len) \<le> vsize (buffer (tcp_readBuffer c)) \<Longrightarrow>
      TcpPeerConnection_CopyTo nd dest len c =
        (Inr (dest @ take (nat (sint len)) (vec_data (buffer (tcp_readBuffer c)))), c)"
  using assms
  by (simp_all add: TcpPeerConnection_Data_def TcpPeerConnection_Size_def TcpPeerConnection_CopyTo_def
      tcp_on_buffer_def on_host_def IoCircularBuffer_Get_def IoCircularBuffer_Size_def IoCircularBuffer_CopyTo_def)

lemma tcp_consume_ok:
  assumes "hasContext (tcp_readBuffer c)" and "vec_wf (buffer (tcp_readBuffer c))"
    and "n \<le> vsize (buffer (tcp_readBuffer c))"
  obtains c' where "TcpPeerConnection_Consume nd n c = (Inr (), c')"
    and "vec_data (buffer (tcp_readBuffer c')) = drop n (vec_data (buffer (tcp_readBuffer c)))"
proof -
  obtain b where "IoCircularBuffer_Consume nd n (tcp_readBuffer c) = (Inr (), (tcp_readBuffer c)\<lparr>buffer := b\<rparr>)"
    "vec_data b = drop n (vec_data (buffer (tcp_readBuffer c)))"
    using assms by (rule Consume_in)
  then show thesis
    by (intro that [of "c\<lparr>tcp_readBuffer := (tcp_readBuffer c)\<lparr>buffer := b\<rparr>\<rparr>"])
      (simp_all add: TcpPeerConnection_Consume_def tcp_on_buffer_def on_host_def)
qed

lemma tcp_consume_too_much:
  assumes "hasContext (tcp_readBuffer c)" and "vsize (buffer (tcp_readBuffer c)) < n"
  shows "TcpPeerConnection_Consume nd n c =
    (Inl (RuntimeError (''IO circular buffer consume of '' @ show_nat n @ '', available: '' @
       show_nat (vsize (buffer (tcp_readBuffer c))))), c)"
  using assms Consume_too_much [of "tcp_readBuffer c" n nd]
  by (simp add: TcpPeerConnection_Consume_def tcp_on_buffer_def on_host_def)

text \<open>
  \<open>ConsumeTo\<close> in a read handler moves bytes: for a length up to the size the first bytes of the
  connection are appended to the destination and removed from the connection, once and in order.
\<close>

lemma stream_consume_to_moves:
  assumes "peerConnection h = Some c" and "hasContext (tcp_readBuffer c)" and "vec_wf (buffer (tcp_readBuffer c))"
    and "0 \<le> sint len" and "nat (sint len) \<le> vsize (buffer (tcp_readBuffer c))"
    and "vsize (buffer (tcp_readBuffer c)) < 2 ^ 31"
  shows "\<exists>c' moved. StreamConnection_ConsumeTo nd len (h, dest) =
        (Inr (), (h\<lparr>peerConnection := Some c'\<rparr>, dest @ moved))
    \<and> length moved = nat (sint len)
    \<and> moved @ vec_data (buffer (tcp_readBuffer c')) = vec_data (buffer (tcp_readBuffer c))"
proof -
  let ?n = "nat (sint len)" and ?data = "vec_data (buffer (tcp_readBuffer c))"
  have n: "size_of_int len = ?n" using assms(4) by (rule size_of_int_nonneg)
  obtain c' where c': "TcpPeerConnection_Consume nd ?n c = (Inr (), c')"
    "vec_data (buffer (tcp_readBuffer c')) = drop ?n ?data"
    using assms(2,3,5) by (rule tcp_consume_ok)
  have "sint len \<le> sint (int_of_size (vsize (buffer (tcp_readBuffer c))))"
    using assms(4,5) by (simp add: int_of_size_def sint_of_nat_c_int [OF assms(6)] nat_le_iff)
  then have "StreamConnection_ConsumeTo nd len (h, dest) =
      (Inr (), (h\<lparr>peerConnection := Some c'\<rparr>, dest @ take ?n ?data))"
    using assms(1) tcp_read_ops(2) [OF assms(2)] tcp_read_ops(3) [OF assms(2,4,5)] c'
    by (cases nd) (simp_all add: StreamConnection_ConsumeTo_def consume_to_def locked_def n)
  then show ?thesis
    using c'(2) assms(5) length_vec_data [OF assms(3)]
    by (intro exI [of _ c'] exI [of _ "take ?n ?data"]) simp
qed

definition handle_example :: "(end_point, nat) tcp_conn" where
  "handle_example = (TcpPeerConnection_new Plain None)\<lparr>tcp_readBuffer :=
     IoCircularBuffer_new\<lparr>hasContext := True, buffer := \<lparr>cells = [Some 1, Some 2, Some 3, None], vsize = 2\<rparr>\<rparr>\<rparr>"

lemma stream_consume_to_moves_witness:
  "\<exists>c' moved. StreamConnection_ConsumeTo False 1 (\<lparr>peerConnection = Some handle_example, isClientSide = True\<rparr>, []) =
        (Inr (), (\<lparr>peerConnection = Some c', isClientSide = True\<rparr>, moved))
    \<and> length moved = 1 \<and> moved @ vec_data (buffer (tcp_readBuffer c')) = [Some 1, Some 2]"
  using stream_consume_to_moves [of "\<lparr>peerConnection = Some handle_example, isClientSide = True\<rparr>"
      handle_example 1 False "[]"]
  by (simp add: handle_example_def vec_wf_def vec_capacity_def vec_data_def)

text \<open>
  \<open>ConsumeInto\<close> copies before it checks. Up to the size it moves the bytes into the destination;
  beyond the size, but inside the allocation, it throws the message of \<open>Consume\<close> and leaves the
  connection alone, yet has overwritten the destination with cells that are no received data.
\<close>

lemma stream_consume_into:
  assumes "peerConnection h = Some c" and "hasContext (tcp_readBuffer c)" and "vec_wf (buffer (tcp_readBuffer c))"
    and "0 \<le> sint len" and "nat (sint len) \<le> vec_capacity (buffer (tcp_readBuffer c))"
    and "nat (sint len) \<le> length buf"
  shows "if nat (sint len) \<le> vsize (buffer (tcp_readBuffer c))
    then \<exists>c'. StreamConnection_ConsumeInto nd len (h, buf) = (Inr (), (h\<lparr>peerConnection := Some c'\<rparr>,
             take (nat (sint len)) (vec_data (buffer (tcp_readBuffer c))) @ drop (nat (sint len)) buf))
           \<and> vec_data (buffer (tcp_readBuffer c')) = drop (nat (sint len)) (vec_data (buffer (tcp_readBuffer c)))
    else StreamConnection_ConsumeInto nd len (h, buf) =
           (Inl (RuntimeError (''IO circular buffer consume of '' @ show_nat (nat (sint len)) @
              '', available: '' @ show_nat (vsize (buffer (tcp_readBuffer c))))),
            (h, take (nat (sint len)) (cells (buffer (tcp_readBuffer c))) @ drop (nat (sint len)) buf))"
proof (cases "nat (sint len) \<le> vsize (buffer (tcp_readBuffer c))")
  case True
  obtain c' where c': "TcpPeerConnection_Consume nd (nat (sint len)) c = (Inr (), c')"
    "vec_data (buffer (tcp_readBuffer c')) = drop (nat (sint len)) (vec_data (buffer (tcp_readBuffer c)))"
    using assms(2,3) True by (rule tcp_consume_ok)
  have "take (nat (sint len)) (cells (buffer (tcp_readBuffer c))) =
      take (nat (sint len)) (vec_data (buffer (tcp_readBuffer c)))"
    using True by (simp add: vec_data_def min_def)
  with c' True assms show ?thesis
    by (auto simp: StreamConnection_ConsumeInto_def consume_into_def locked_def size_of_int_nonneg
        tcp_read_ops(1) vec_capacity_def Let_def)
next
  case False
  with assms tcp_consume_too_much [OF assms(2), of "nat (sint len)" nd] show ?thesis
    by (simp add: StreamConnection_ConsumeInto_def consume_into_def locked_def size_of_int_nonneg
        tcp_read_ops(1) vec_capacity_def Let_def)
qed

lemma stream_consume_into_witness:
  "StreamConnection_ConsumeInto True 3 (\<lparr>peerConnection = Some handle_example, isClientSide = True\<rparr>, [None, None, None]) =
     (Inl (RuntimeError (''IO circular buffer consume of '' @ show_nat 3 @ '', available: '' @ show_nat 2)),
      (\<lparr>peerConnection = Some handle_example, isClientSide = True\<rparr>, [Some 1, Some 2, Some 3]))"
  using stream_consume_into [of "\<lparr>peerConnection = Some handle_example, isClientSide = True\<rparr>"
      handle_example 3 "[None, None, None]" True]
  by (simp add: handle_example_def vec_wf_def vec_capacity_def)

text \<open>
  Once the owner has dropped the connection, every operation on a handle, of either kind, throws
  \<open>Connection expired.\<close> and changes nothing; only \<open>Close\<close> and the destructor do nothing.
\<close>

lemma stream_expired:
  assumes "StreamConnection_Expired h" and "UnixStreamConnection_Expired u"
  shows "StreamConnection_AsyncWrite_string msg nt h = (Inl (RuntimeError ''Connection expired.''), h)
    \<and> StreamConnection_AsyncWrite_bytes msg h = (Inl (RuntimeError ''Connection expired.''), h)
    \<and> StreamConnection_ConsumeInto nd len (h, buf) = (Inl (RuntimeError ''Connection expired.''), (h, buf))
    \<and> StreamConnection_ConsumeTo nd len (h, buf) = (Inl (RuntimeError ''Connection expired.''), (h, buf))
    \<and> StreamConnection_Data nd h = (Inl (RuntimeError ''Connection expired.''), h)
    \<and> StreamConnection_Size nd h = (Inl (RuntimeError ''Connection expired.''), h)
    \<and> StreamConnection_Consume nd len h = (Inl (RuntimeError ''Connection expired.''), h)
    \<and> StreamConnection_GetPeerEndPoint show_ip h = (Inl (RuntimeError ''Connection expired.''), h)
    \<and> StreamConnection_Close h = (Inr (), h) \<and> StreamConnection_destroy sc h = (Inr (), h)
    \<and> UnixStreamConnection_AsyncWrite_bytes msg u = (Inl (RuntimeError ''Connection expired.''), u)
    \<and> UnixStreamConnection_ConsumeInto nd len (u, buf) = (Inl (RuntimeError ''Connection expired.''), (u, buf))
    \<and> UnixStreamConnection_ConsumeTo nd len (u, buf) = (Inl (RuntimeError ''Connection expired.''), (u, buf))
    \<and> UnixStreamConnection_Close u = (Inr (), u) \<and> UnixStreamConnection_destroy sc u = (Inr (), u)"
  using assms by (simp add: stream_defs locked_def consume_into_def)

lemma stream_expired_witness:
  "StreamConnection_AsyncWrite_bytes [1] \<lparr>peerConnection = None :: (end_point, nat) tcp_conn option, isClientSide = False\<rparr> =
     (Inl (RuntimeError ''Connection expired.''), \<lparr>peerConnection = None, isClientSide = False\<rparr>)"
  using stream_expired [of "\<lparr>peerConnection = None :: (end_point, nat) tcp_conn option, isClientSide = False\<rparr>"
      "\<lparr>peerConnection = None :: nat domain_conn option, isClientSide = False\<rparr>" "[1]"]
  by (simp add: StreamConnection_Expired_def UnixStreamConnection_Expired_def)

text \<open>
  A negative length is no error of its own: \<open>Consume\<close> takes it as a huge \<open>size_t\<close>, so inside a
  read handler it throws with that number and takes nothing.
\<close>

lemma stream_consume_negative:
  assumes "peerConnection h = Some c" and "hasContext (tcp_readBuffer c)"
    and "vsize (buffer (tcp_readBuffer c)) < 2 ^ 63" and "sint len < 0"
  shows "\<exists>n \<ge> 2 ^ 63. StreamConnection_Consume nd len h =
    (Inl (RuntimeError (''IO circular buffer consume of '' @ show_nat n @ '', available: '' @
       show_nat (vsize (buffer (tcp_readBuffer c))))), h)"
proof -
  from size_of_int_neg [OF assms(4)] have n: "2 ^ 63 \<le> size_of_int len" .
  with assms(3) have "vsize (buffer (tcp_readBuffer c)) < size_of_int len" by (rule order.strict_trans2)
  from tcp_consume_too_much [OF assms(2) this, of nd] n show ?thesis
    by (intro exI [of _ "size_of_int len"]) (simp add: StreamConnection_Consume_def locked_def assms(1))
qed

lemma stream_consume_negative_witness:
  "\<exists>n \<ge> 2 ^ 63. StreamConnection_Consume True (- 1) \<lparr>peerConnection = Some handle_example, isClientSide = True\<rparr> =
    (Inl (RuntimeError (''IO circular buffer consume of '' @ show_nat n @ '', available: '' @ show_nat 2)),
     \<lparr>peerConnection = Some handle_example, isClientSide = True\<rparr>)"
  using stream_consume_negative [of "\<lparr>peerConnection = Some handle_example, isClientSide = True\<rparr>" handle_example "- 1" True]
  by (simp add: handle_example_def)

end
