(* ===== verification/TcpServ.thy ===== *)
theory TcpServ
  imports StreamApi
begin

text \<open>
  A TCP server (\<open>IoServices/TcpServer\<close>): it accepts connections one after another, plain or with a
  TLS handshake, starts the chained read of each, keeps the accepted ones in a list under a mutex and
  removes them when their reading fails.
\<close>

section \<open>State\<close>

text \<open>
  The connections live in a store, by the numbers they were made in; a shared pointer is a number.
  What a connection calls back is \<open>On_available\<close> (the lambda of \<open>OnAccept\<close>) or \<open>On_error\<close> (the
  server's \<open>ErrorHandler\<close>). The state is generic in the end points and in what a server listens on,
  which \<open>UnixServer\<close> shares. \<open>srv_accepting\<close> holds the connections bound to outstanding accepts,
  \<open>srv_handshaking\<close> those bound to outstanding handshakes, \<open>srv_locked\<close> says whether the mutex is
  held, \<open>srv_open\<close> whether the acceptor is open.
\<close>

datatype server_cb = On_available | On_error

type_synonym 'ep server_conn = "('ep, server_cb) tcp_conn"

record security_options =
  CertificateFilename :: string
  PrivKeyFilename :: string
  DHExchangeFilename :: string
  GetPasswordCallback :: "(fault + string) option"
  VerifyClient :: bool
  ClientVerifyFile :: string

text \<open>The calls a TLS context gets before a connection is made with it, in the source's names.\<close>

datatype tls_option = default_workarounds | no_sslv2 | single_dh_use

datatype tls_setting =
    set_verify_fail_if_no_peer_cert
  | set_verify_callback
  | load_verify_file string
  | set_options "tls_option list"
  | set_password_callback
  | use_certificate_chain_file string
  | use_rsa_private_key_file string
  | use_tmp_dh_file string

definition SecurityOptions_default :: security_options where
  "SecurityOptions_default =
     \<lparr>CertificateFilename = '''', PrivKeyFilename = '''', DHExchangeFilename = '''',
      GetPasswordCallback = None, VerifyClient = False, ClientVerifyFile = ''''\<rparr>"

record ('at, 'ep) server =
  srv_at :: 'at
  srv_open :: "bool option"
  srv_connections :: "nat list"
  srv_acceptStreamCb :: bool
  srv_readSomeCb :: bool
  srv_security :: security_options
  srv_locked :: bool
  srv_accepting :: "nat list"
  srv_handshaking :: "nat list"
  srv_contexts :: "nat \<Rightarrow> tls_setting list"
  srv_heap :: "nat \<Rightarrow> 'ep server_conn"
  srv_next :: nat

type_synonym tcp_server = "(c_int, end_point) server"

definition ChunkSize :: c_int where
  "ChunkSize = 12"

text \<open>
  The application: its accept and read callbacks, given the connection, in the server's state. The
  rest is boost's: whether a socket is open after some calls, whether closing it throws, whether
  binding an acceptor throws, whether a call on a TLS context throws after the earlier ones.
\<close>

record ('at, 'ep) server_env =
  env_nd :: bool
  env_accept :: "nat \<Rightarrow> ('at, 'ep) server \<Rightarrow> (unit, ('at, 'ep) server) outcome"
  env_read :: "nat \<Rightarrow> c_int \<Rightarrow> ('at, 'ep) server \<Rightarrow> (unit, ('at, 'ep) server) outcome"
  env_is_open :: "'ep sock_call list \<Rightarrow> bool"
  env_close_throws :: "'ep sock_call list \<Rightarrow> fault option"
  env_bind_throws :: "'at \<Rightarrow> fault option"
  env_context_throws :: "tls_setting list \<Rightarrow> tls_setting \<Rightarrow> fault option"

section \<open>Construction and moves\<close>

text \<open>
  The constructor. Both callbacks are \<open>std::function\<close>s that may be empty. The store belongs to the
  whole process, so it is not part of what a move takes.
\<close>

definition TcpServer_new ::
  "'at \<Rightarrow> bool \<Rightarrow> bool \<Rightarrow> (nat \<Rightarrow> 'ep server_conn) \<Rightarrow> nat \<Rightarrow> ('at, 'ep) server" where
  "TcpServer_new where_to acceptsStream readSome heap n =
     \<lparr>srv_at = where_to, srv_open = None, srv_connections = [], srv_acceptStreamCb = acceptsStream,
      srv_readSomeCb = readSome, srv_security = SecurityOptions_default, srv_locked = False,
      srv_accepting = [], srv_handshaking = [], srv_contexts = (\<lambda>_. []), srv_heap = heap, srv_next = n\<rparr>"

text \<open>
  Move construction and assignment: the new or assigned server, and the source with an empty acceptor
  pointer, no connections and empty callbacks. The handlers of outstanding operations stay bound to
  the address of the source: they are not moved.
\<close>

definition server_moved_from :: "('at, 'ep) server \<Rightarrow> ('at, 'ep) server" where
  "server_moved_from s = s\<lparr>srv_open := None, srv_connections := [], srv_acceptStreamCb := False,
     srv_readSomeCb := False, srv_security := SecurityOptions_default\<rparr>"

definition TcpServer_move :: "('at, 'ep) server \<Rightarrow> ('at, 'ep) server \<times> ('at, 'ep) server" where
  "TcpServer_move rhs =
     (\<lparr>srv_at = srv_at rhs, srv_open = srv_open rhs, srv_connections = srv_connections rhs,
       srv_acceptStreamCb = srv_acceptStreamCb rhs, srv_readSomeCb = srv_readSomeCb rhs,
       srv_security = srv_security rhs, srv_locked = False, srv_accepting = [], srv_handshaking = [],
       srv_contexts = srv_contexts rhs, srv_heap = srv_heap rhs, srv_next = srv_next rhs\<rparr>, server_moved_from rhs)"

definition TcpServer_move_assign ::
  "('at, 'ep) server \<Rightarrow> ('at, 'ep) server \<Rightarrow> ('at, 'ep) server \<times> ('at, 'ep) server" where
  "TcpServer_move_assign lhs rhs =
     (lhs\<lparr>srv_at := srv_at rhs, srv_open := srv_open rhs, srv_connections := srv_connections rhs,
          srv_acceptStreamCb := srv_acceptStreamCb rhs, srv_readSomeCb := srv_readSomeCb rhs,
          srv_security := srv_security rhs\<rparr>, server_moved_from rhs)"

definition TcpServer_GetPort :: "('at, 'ep) server \<Rightarrow> 'at" where
  "TcpServer_GetPort s = srv_at s"

text \<open>Calling the password callback, which may be empty or throw.\<close>

definition TcpServer_GetPassword :: "('at, 'ep) server \<Rightarrow> fault + string" where
  "TcpServer_GetPassword s =
     (case GetPasswordCallback (srv_security s) of None \<Rightarrow> Inl BadFunctionCall | Some r \<Rightarrow> r)"

section \<open>The connections of a server\<close>

definition put_conn :: "nat \<Rightarrow> 'ep server_conn \<Rightarrow> ('at, 'ep) server \<Rightarrow> ('at, 'ep) server" where
  "put_conn i c s = s\<lparr>srv_heap := (srv_heap s)(i := c)\<rparr>"

definition get_conn :: "nat \<Rightarrow> ('at, 'ep) server \<Rightarrow> 'ep server_conn" where
  "get_conn i s = srv_heap s i"

text \<open>
  \<open>std::lock_guard\<close> on the server's mutex around \<open>f\<close>: a lock by the thread that holds it is a
  deadlock, and the mutex is released on every way out.
\<close>

definition with_mutex ::
  "(('at, 'ep) server \<Rightarrow> ('a, ('at, 'ep) server) outcome) \<Rightarrow> ('at, 'ep) server \<Rightarrow>
   ('a, ('at, 'ep) server) outcome" where
  "with_mutex f s =
     (if srv_locked s then (Inl (Deadlock ''_mutex''), s)
      else case f (s\<lparr>srv_locked := True\<rparr>) of (r, s) \<Rightarrow> (r, s\<lparr>srv_locked := False\<rparr>))"

text \<open>\<open>PeerSocket.close()\<close>, which reports an error by an exception.\<close>

definition close_socket ::
  "('at, 'ep) server_env \<Rightarrow> nat \<Rightarrow> ('at, 'ep) server \<Rightarrow> (unit, ('at, 'ep) server) outcome" where
  "close_socket e i s =
     (case env_close_throws e (tcp_calls (get_conn i s)) of
        Some f \<Rightarrow> (Inl f, s)
      | None \<Rightarrow> (Inr (), put_conn i (tcp_call Close_socket (get_conn i s)) s))"

fun for_each ::
  "(nat \<Rightarrow> 's \<Rightarrow> (unit, 's) outcome) \<Rightarrow> nat list \<Rightarrow> 's \<Rightarrow> (unit, 's) outcome" where
  "for_each f [] s = (Inr (), s)"
| "for_each f (i # is) s = and_then (f i s) (\<lambda>_ s. for_each f is s)"

definition TcpServer_CloseAllPeerConnections ::
  "('at, 'ep) server_env \<Rightarrow> ('at, 'ep) server \<Rightarrow> (unit, ('at, 'ep) server) outcome" where
  "TcpServer_CloseAllPeerConnections e s =
     with_mutex (\<lambda>s. for_each (close_socket e) (srv_connections s) s) s"

definition TcpServer_Stop ::
  "('at, 'ep) server_env \<Rightarrow> ('at, 'ep) server \<Rightarrow> (unit, ('at, 'ep) server) outcome" where
  "TcpServer_Stop e s =
     (if srv_open s = None then (Inr (), s)
      else TcpServer_CloseAllPeerConnections e (s\<lparr>srv_open := Some False\<rparr>))"

definition TcpServer_destroy ::
  "('at, 'ep) server_env \<Rightarrow> ('at, 'ep) server \<Rightarrow> (unit, ('at, 'ep) server) outcome" where
  "TcpServer_destroy e s = (if \<not> srv_readSomeCb s then (Inr (), s) else TcpServer_Stop e s)"

definition TcpServer_ErrorHandler ::
  "('at, 'ep) server_env \<Rightarrow> nat \<Rightarrow> error_code \<Rightarrow> ('at, 'ep) server \<Rightarrow> (unit, ('at, 'ep) server) outcome" where
  "TcpServer_ErrorHandler e i ec s =
     (if ec_set ec
      then with_mutex
             (\<lambda>s. and_then (close_socket e i s)
                (\<lambda>_ s. (Inr (), s\<lparr>srv_connections :=
                   filter (\<lambda>j. env_is_open e (tcp_calls (get_conn j s))) (srv_connections s)\<rparr>))) s
      else (Inr (), s))"

definition TcpServer_SendMessageToAllPeers ::
  "byte list \<Rightarrow> bool \<Rightarrow> ('at, 'ep) server \<Rightarrow> (unit, ('at, 'ep) server) outcome" where
  "TcpServer_SendMessageToAllPeers msg nullTerminate s =
     with_mutex
       (\<lambda>s. for_each
          (\<lambda>i s. and_then (on_host (get_conn i) (put_conn i)
                   (TcpPeerConnection_AsyncWrite_string msg nullTerminate) s) (\<lambda>_ s. (Inr (), s)))
          (srv_connections s) s) s"

section \<open>Accepting\<close>

definition TcpServer_AsyncAccept ::
  "('at, 'ep) server \<Rightarrow> (unit, ('at, 'ep) server) outcome" where
  "TcpServer_AsyncAccept s =
     (if srv_open s = None then (Inl (Undefined ''null _acceptor''), s)
      else
        let i = srv_next s
        in (Inr (), (put_conn i (TcpConnection_new (Some On_error)) s)
                      \<lparr>srv_next := i + 1, srv_accepting := srv_accepting s @ [i]\<rparr>))"

text \<open>
  A new TLS context is set up from the security options, call by call, before a connection is made
  with it; the first call that throws ends the function.
\<close>

definition TcpServer_context :: "security_options \<Rightarrow> tls_setting list" where
  "TcpServer_context sec =
     (if VerifyClient sec
      then [set_verify_fail_if_no_peer_cert, set_verify_callback, load_verify_file (ClientVerifyFile sec)]
      else [])
     @ [set_options [default_workarounds, no_sslv2, single_dh_use],
        set_password_callback,
        use_certificate_chain_file (CertificateFilename sec),
        use_rsa_private_key_file (PrivKeyFilename sec),
        use_tmp_dh_file (DHExchangeFilename sec)]"

fun setup_context ::
  "(tls_setting list \<Rightarrow> tls_setting \<Rightarrow> fault option) \<Rightarrow> tls_setting list \<Rightarrow> tls_setting list \<Rightarrow>
   fault + tls_setting list" where
  "setup_context throws made [] = Inr made"
| "setup_context throws made (a # as) =
     (case throws made a of Some f \<Rightarrow> Inl f | None \<Rightarrow> setup_context throws (made @ [a]) as)"

definition TcpServer_AsyncSecureAccept ::
  "('at, 'ep) server_env \<Rightarrow> ('at, 'ep) server \<Rightarrow> (unit, ('at, 'ep) server) outcome" where
  "TcpServer_AsyncSecureAccept e s =
     (case setup_context (env_context_throws e) [] (TcpServer_context (srv_security s)) of
        Inl f \<Rightarrow> (Inl f, s)
      | Inr context \<Rightarrow>
          if srv_open s = None then (Inl (Undefined ''null _acceptor''), s)
          else
            let i = srv_next s
            in (Inr (), (put_conn i (TcpSslConnection_new (Some On_error)) s)
                          \<lparr>srv_next := i + 1, srv_accepting := srv_accepting s @ [i],
                           srv_contexts := (srv_contexts s)(i := context)\<rparr>))"

definition TcpServer_Start ::
  "('at, 'ep) server_env \<Rightarrow> ('at, 'ep) server \<Rightarrow> (unit, ('at, 'ep) server) outcome" where
  "TcpServer_Start e s =
     (case env_bind_throws e (srv_at s) of
        Some f \<Rightarrow> (Inl f, s)
      | None \<Rightarrow> TcpServer_AsyncAccept (s\<lparr>srv_open := Some True\<rparr>))"

definition TcpServer_Start_secure ::
  "('at, 'ep) server_env \<Rightarrow> security_options \<Rightarrow> ('at, 'ep) server \<Rightarrow> (unit, ('at, 'ep) server) outcome" where
  "TcpServer_Start_secure e security s =
     (let s1 = s\<lparr>srv_security := security\<rparr>
      in case env_bind_throws e (srv_at s1) of
           Some f \<Rightarrow> (Inl f, s1)
         | None \<Rightarrow> TcpServer_AsyncSecureAccept e (s1\<lparr>srv_open := Some True\<rparr>))"

text \<open>
  The chained read of the new connection is begun before the mutex is taken; the application's accept
  callback runs while the mutex is held.
\<close>

definition TcpServer_OnAccept ::
  "('at, 'ep) server_env \<Rightarrow> nat \<Rightarrow> ('at, 'ep) server \<Rightarrow> (unit, ('at, 'ep) server) outcome" where
  "TcpServer_OnAccept e i s =
     and_then (on_host (get_conn i) (put_conn i)
                 (TcpPeerConnection_BeginChainedRead (env_nd e) (Some On_available) (Some On_error) ChunkSize) s)
       (\<lambda>_ s. with_mutex
          (\<lambda>s. let s1 = s\<lparr>srv_connections := srv_connections s @ [i]\<rparr>
               in if srv_acceptStreamCb s1 then env_accept e i s1 else (Inl BadFunctionCall, s1)) s)"

definition TcpServer_AcceptHandler ::
  "('at, 'ep) server_env \<Rightarrow> nat \<Rightarrow> error_code \<Rightarrow> ('at, 'ep) server \<Rightarrow> (unit, ('at, 'ep) server) outcome" where
  "TcpServer_AcceptHandler e i ec s =
     and_then (if ec_set ec then (Inr (), s) else TcpServer_OnAccept e i s)
       (\<lambda>_ s. TcpServer_AsyncAccept s)"

definition TcpServer_SecureAcceptHandler ::
  "('at, 'ep) server_env \<Rightarrow> nat \<Rightarrow> error_code \<Rightarrow> ('at, 'ep) server \<Rightarrow> (unit, ('at, 'ep) server) outcome" where
  "TcpServer_SecureAcceptHandler e i ec s =
     (let s1 = (if \<not> ec_set ec
                then (put_conn i (tcp_call Async_handshake (get_conn i s)) s)
                       \<lparr>srv_handshaking := srv_handshaking s @ [i]\<rparr>
                else s)
      in TcpServer_AsyncSecureAccept e s1)"

definition TcpServer_HandleSslHandshake ::
  "('at, 'ep) server_env \<Rightarrow> nat \<Rightarrow> error_code \<Rightarrow> ('at, 'ep) server \<Rightarrow> (unit, ('at, 'ep) server) outcome" where
  "TcpServer_HandleSslHandshake e i error s =
     (if \<not> ec_set error then TcpServer_OnAccept e i s else (Inr (), s))"

section \<open>Completions\<close>

text \<open>The callbacks of a connection: the application's read callback and the error handler.\<close>

definition server_available ::
  "('at, 'ep) server_env \<Rightarrow> nat \<Rightarrow> server_cb \<Rightarrow> nat \<Rightarrow> ('at, 'ep) server \<Rightarrow> (unit, ('at, 'ep) server) outcome" where
  "server_available e i cb n s =
     (if srv_readSomeCb s then env_read e i (int_of_size n) s else (Inl BadFunctionCall, s))"

definition server_failed ::
  "('at, 'ep) server_env \<Rightarrow> nat \<Rightarrow> server_cb \<Rightarrow> error_code \<Rightarrow> ('at, 'ep) server \<Rightarrow>
   (unit, ('at, 'ep) server) outcome" where
  "server_failed e i cb ec s = TcpServer_ErrorHandler e i ec s"

text \<open>
  The steps of a running server. \<open>conn_step\<close>: a connection's read or write completes, or a message is
  sent to all clients; the connection may be in the list or not. A server started without TLS also has
  an outstanding accept complete.
\<close>

inductive conn_step ::
  "('at, 'ep) server_env \<Rightarrow> ('at, 'ep) server \<Rightarrow> ('at, 'ep) server \<Rightarrow> bool" for e where
  read: "fits_read bs (tcp_readBuffer (get_conn i s)) \<Longrightarrow>
    TcpPeerConnection_boostHandler (env_nd e) (get_conn i) (put_conn i) (server_available e i) (server_failed e i)
      no_error (length bs)
      (tcp_put_buffer (get_conn i) (put_conn i) (circ_fill bs (tcp_readBuffer (get_conn i s))) s) = (r, s') \<Longrightarrow>
    conn_step e s s'"
| read_failed: "reads (tcp_readBuffer (get_conn i s)) = slot # slots \<Longrightarrow> n = 0 \<or> ec_set ec \<Longrightarrow>
    TcpPeerConnection_boostHandler (env_nd e) (get_conn i) (put_conn i) (server_available e i) (server_failed e i)
      ec n
      (tcp_put_buffer (get_conn i) (put_conn i) ((tcp_readBuffer (get_conn i s))\<lparr>reads := slots\<rparr>) s) = (r, s') \<Longrightarrow>
    conn_step e s s'"
| wrote: "on_host (get_conn i) (put_conn i) (tcp_write_completed ec n) s = (r, s') \<Longrightarrow> conn_step e s s'"
| broadcast: "TcpServer_SendMessageToAllPeers msg nt s = (r, s') \<Longrightarrow> conn_step e s s'"

inductive server_step ::
  "('at, 'ep) server_env \<Rightarrow> ('at, 'ep) server \<Rightarrow> ('at, 'ep) server \<Rightarrow> bool" for e where
  accepted: "i \<in> set (srv_accepting s) \<Longrightarrow>
    TcpServer_AcceptHandler e i ec (s\<lparr>srv_accepting := remove1 i (srv_accepting s)\<rparr>) = (r, s') \<Longrightarrow>
    server_step e s s'"
| conn: "conn_step e s s' \<Longrightarrow> server_step e s s'"

section \<open>What a step leaves alone\<close>

text \<open>
  Everything but an accept leaves the acceptor, the outstanding accepts and handshakes, the kind of
  every connection and the mutex as they are, and can only drop connections from the list. That the application's callbacks do so is the contract the
  class gives by keeping these members private.
\<close>

definition srv_frame :: "('at, 'ep) server \<Rightarrow> ('at, 'ep) server \<Rightarrow> bool" where
  "srv_frame s s' \<longleftrightarrow> srv_open s' = srv_open s \<and> srv_accepting s' = srv_accepting s
     \<and> srv_handshaking s' = srv_handshaking s \<and> srv_contexts s' = srv_contexts s
     \<and> srv_next s' = srv_next s \<and> srv_locked s' = srv_locked s
     \<and> srv_security s' = srv_security s \<and> srv_at s' = srv_at s
     \<and> (\<forall>i. tcp_class (srv_heap s' i) = tcp_class (srv_heap s i))
     \<and> set (srv_connections s') \<subseteq> set (srv_connections s)
     \<and> (distinct (srv_connections s) \<longrightarrow> distinct (srv_connections s'))"

definition server_app_frame :: "('at, 'ep) server_env \<Rightarrow> bool" where
  "server_app_frame e \<longleftrightarrow> (\<forall>i s. srv_frame s (snd (env_accept e i s)))
     \<and> (\<forall>i n s. srv_frame s (snd (env_read e i n s)))"

lemma srv_frame_trans: "srv_frame s t \<Longrightarrow> srv_frame t u \<Longrightarrow> srv_frame s u"
  by (auto simp: srv_frame_def)

lemma srv_frame_heap: "tcp_class c = tcp_class (get_conn i s) \<Longrightarrow> srv_frame s (put_conn i c s)"
  by (simp add: srv_frame_def put_conn_def get_conn_def)

lemma srv_frame_refl [simp]: "srv_frame s s"
  by (simp add: srv_frame_def)

lemma keeps_class:
  "tcp_class (snd (TcpPeerConnection_AsyncWrite_string msg nt c)) = tcp_class c"
  "tcp_class (snd (tcp_write_completed ec n c)) = tcp_class c"
  "tcp_class (snd (TcpPeerConnection_BeginChainedRead nd a b k c)) = tcp_class c"
  by (auto simp: TcpPeerConnection_AsyncWrite_string_def tcp_defs Let_def split: transport.split list.split prod.split)

lemma with_mutex_frame:
  assumes "\<And>s. srv_frame s (snd (f s))"
  shows "srv_frame s (snd (with_mutex f s))"
  using assms [of "s\<lparr>srv_locked := True\<rparr>"] by (auto simp: with_mutex_def srv_frame_def split: prod.split)

lemma for_each_frame:
  assumes "\<And>i s. srv_frame s (snd (f i s))"
  shows "srv_frame s (snd (for_each f is s))"
proof (induction "is" arbitrary: s)
  case (Cons i "is")
  obtain r t where t: "f i s = (r, t)" by fastforce
  with assms have "srv_frame s t" by (metis snd_conv)
  with Cons [of t] t show ?case by (cases r) (auto intro: srv_frame_trans)
qed simp

lemma on_conn_frame:
  "tcp_class (snd (f (get_conn i s))) = tcp_class (get_conn i s) \<Longrightarrow>
    srv_frame s (snd (on_host (get_conn i) (put_conn i) f s))"
  by (auto simp: on_host_def srv_frame_heap split: prod.split)

lemma close_socket_frame [simp]: "srv_frame s (snd (close_socket e i s))"
  by (auto simp: close_socket_def tcp_call_def intro: srv_frame_heap split: option.split)

lemma error_handler_frame: "srv_frame s (snd (TcpServer_ErrorHandler e i ec s))"
proof -
  have "srv_frame s (snd (and_then (close_socket e i s) (\<lambda>_ s. (Inr (), s\<lparr>srv_connections :=
      filter (\<lambda>j. env_is_open e (tcp_calls (get_conn j s))) (srv_connections s)\<rparr>))))" for s
    using close_socket_frame [of s e i]
    by (cases "env_close_throws e (tcp_calls (get_conn i s))")
      (auto simp: close_socket_def srv_frame_def put_conn_def get_conn_def tcp_call_def)
  then show ?thesis
    by (auto simp: TcpServer_ErrorHandler_def intro: with_mutex_frame)
qed

lemma broadcast_frame: "srv_frame s (snd (TcpServer_SendMessageToAllPeers msg nt s))"
  unfolding TcpServer_SendMessageToAllPeers_def
proof (rule with_mutex_frame, rule for_each_frame)
  show "srv_frame s (snd (and_then (on_host (get_conn i) (put_conn i)
      (TcpPeerConnection_AsyncWrite_string msg nt) s) (\<lambda>_ s. (Inr (), s))))" for i s
    using on_conn_frame [of "TcpPeerConnection_AsyncWrite_string msg nt" i s, OF keeps_class(1)]
    by (cases "on_host (get_conn i) (put_conn i) (TcpPeerConnection_AsyncWrite_string msg nt) s";
        cases "fst (on_host (get_conn i) (put_conn i) (TcpPeerConnection_AsyncWrite_string msg nt) s)") simp_all
qed

interpretation server_conn_host: tcp_host "get_conn i" "put_conn i" for i
  by unfold_locales (simp_all add: get_conn_def put_conn_def)

lemma server_read_frame:
  assumes "server_app_frame e"
  shows "srv_frame s (snd (TcpPeerConnection_boostHandler (env_nd e) (get_conn i) (put_conn i)
    (server_available e i) (server_failed e i) ec n s))"
proof (rule server_conn_host.boost_handler_rel [where R = srv_frame])
  show "srv_frame t (tcp_put_buffer (get_conn i) (put_conn i) b t)" for b t
    by (simp add: tcp_put_buffer_def srv_frame_heap)
  show "srv_frame t (snd (server_available e i cb k t))" for cb k t
    using assms by (simp add: server_available_def server_app_frame_def)
  show "srv_frame t (snd (server_failed e i cb ec t))" for cb ec t
    by (simp add: server_failed_def error_handler_frame)
qed (rule srv_frame_trans)

text \<open>An accept also appends its connection to the list, and then asks for the next one.\<close>

definition srv_appended :: "nat \<Rightarrow> ('at, 'ep) server \<Rightarrow> ('at, 'ep) server \<Rightarrow> bool" where
  "srv_appended i s s' \<longleftrightarrow> srv_open s' = srv_open s \<and> srv_accepting s' = srv_accepting s
     \<and> srv_handshaking s' = srv_handshaking s \<and> srv_contexts s' = srv_contexts s
     \<and> srv_next s' = srv_next s \<and> srv_locked s' = srv_locked s
     \<and> srv_security s' = srv_security s \<and> srv_at s' = srv_at s
     \<and> (\<forall>j. tcp_class (srv_heap s' j) = tcp_class (srv_heap s j))
     \<and> set (srv_connections s') \<subseteq> insert i (set (srv_connections s))
     \<and> (distinct (srv_connections s) \<and> i \<notin> set (srv_connections s) \<longrightarrow> distinct (srv_connections s'))"

lemma on_accept_appended:
  assumes "server_app_frame e"
  shows "srv_appended i s (snd (TcpServer_OnAccept e i s))"
proof -
  let ?chain = "TcpPeerConnection_BeginChainedRead (env_nd e) (Some On_available) (Some On_error) ChunkSize"
  obtain r c where r: "?chain (get_conn i s) = (r, c)" by fastforce
  let ?s = "put_conn i c s"
  let ?g = "\<lambda>s. let s1 = s\<lparr>srv_connections := srv_connections s @ [i]\<rparr>
      in if srv_acceptStreamCb s1 then env_accept e i s1 else (Inl BadFunctionCall, s1)"
  have "srv_frame (t\<lparr>srv_connections := srv_connections t @ [i]\<rparr>) (snd (?g t))" for t
    using assms by (simp add: server_app_frame_def Let_def)
  then have g: "srv_appended i t (snd (?g t))" for t
    by (auto simp: srv_frame_def srv_appended_def Let_def)
  have "srv_appended i ?s (snd (with_mutex ?g ?s))"
    using g [of "?s\<lparr>srv_locked := True\<rparr>"] by (auto simp: with_mutex_def srv_appended_def split: prod.split)
  moreover have c: "tcp_class c = tcp_class (srv_heap s i)"
    using keeps_class(3) [of "env_nd e" "Some On_available" "Some On_error" ChunkSize "get_conn i s"] r
    by (simp add: get_conn_def)
  ultimately have "srv_appended i s (snd (with_mutex ?g ?s))"
    by (simp add: srv_appended_def put_conn_def)
  moreover have "srv_appended i s ?s"
    using c by (auto simp: srv_appended_def put_conn_def)
  ultimately show ?thesis
    by (cases r) (simp_all add: TcpServer_OnAccept_def on_host_def r)
qed

lemma accept_handler_outcome:
  assumes "server_app_frame e" and "srv_open s \<noteq> None"
    and "TcpServer_AcceptHandler e i ec s = (r, s')"
  shows "srv_open s' = srv_open s \<and> srv_locked s' = srv_locked s \<and> srv_at s' = srv_at s
    \<and> (\<forall>j. tcp_class (srv_heap s' j) =
          (if j = srv_next s \<and> r = Inr () then Plain else tcp_class (srv_heap s j)))
    \<and> set (srv_connections s') \<subseteq> insert i (set (srv_connections s))
    \<and> (distinct (srv_connections s) \<and> i \<notin> set (srv_connections s) \<longrightarrow> distinct (srv_connections s'))
    \<and> (if r = Inr () then srv_accepting s' = srv_accepting s @ [srv_next s] \<and> srv_next s' = srv_next s + 1
       else srv_accepting s' = srv_accepting s \<and> srv_next s' = srv_next s)"
proof -
  define t where "t = (if ec_set ec then (Inr (), s) else TcpServer_OnAccept e i s)"
  have a: "srv_appended i s (snd t)"
    using on_accept_appended [OF assms(1), of i s] by (auto simp: t_def srv_appended_def)
  obtain q u where u: "t = (q, u)" by fastforce
  have "(r, s') = and_then (q, u) (\<lambda>_ s. TcpServer_AsyncAccept s)"
    using assms(3) u by (simp add: TcpServer_AcceptHandler_def t_def)
  with a u assms(2) show ?thesis
    by (cases q) (auto simp: srv_appended_def TcpServer_AsyncAccept_def put_conn_def TcpConnection_new_def
        TcpPeerConnection_new_def Let_def)
qed

lemma conn_step_frame:
  assumes "server_app_frame e" and "conn_step e s s'"
  shows "srv_frame s s'"
  using assms(2)
proof (cases rule: conn_step.cases)
  case (read bs i r)
  let ?t = "tcp_put_buffer (get_conn i) (put_conn i) (circ_fill bs (tcp_readBuffer (get_conn i s))) s"
  have "srv_frame s ?t" by (simp add: tcp_put_buffer_def srv_frame_heap)
  moreover have "srv_frame ?t s'"
    using server_read_frame [OF assms(1), of ?t i no_error "length bs"] read(2) by simp
  ultimately show ?thesis by (rule srv_frame_trans)
next
  case (read_failed i slot slots n ec r)
  let ?t = "tcp_put_buffer (get_conn i) (put_conn i) ((tcp_readBuffer (get_conn i s))\<lparr>reads := slots\<rparr>) s"
  have "srv_frame s ?t" by (simp add: tcp_put_buffer_def srv_frame_heap)
  moreover have "srv_frame ?t s'"
    using server_read_frame [OF assms(1), of ?t i ec n] read_failed(3) by simp
  ultimately show ?thesis by (rule srv_frame_trans)
next
  case (wrote i ec n r)
  with on_conn_frame [of "tcp_write_completed ec n" i s, OF keeps_class(2)] show ?thesis by simp
next
  case (broadcast msg nt r)
  with broadcast_frame [of s msg nt] show ?thesis by simp
qed

lemma server_step_frame:
  assumes "server_app_frame e" and "server_step e s s'"
  obtains (frame) "srv_frame s s'"
  | (accepted) i ec r where "i \<in> set (srv_accepting s)"
      and "TcpServer_AcceptHandler e i ec (s\<lparr>srv_accepting := remove1 i (srv_accepting s)\<rparr>) = (r, s')"
  using assms(2)
proof (cases rule: server_step.cases)
  case (accepted i ec r)
  with that(2) show thesis by blast
next
  case conn
  with conn_step_frame [OF assms(1)] frame show thesis by blast
qed

definition srv_inv :: "('at, 'ep) server \<Rightarrow> bool" where
  "srv_inv s \<longleftrightarrow> \<not> srv_locked s \<and> srv_open s \<noteq> None \<and> length (srv_accepting s) \<le> 1
     \<and> distinct (srv_connections s @ srv_accepting s)
     \<and> (\<forall>i \<in> set (srv_connections s @ srv_accepting s). i < srv_next s)"

lemma server_step_inv:
  assumes "server_app_frame e" and "server_step e s s'" and inv: "srv_inv s"
  shows "srv_inv s'"
  using assms(1,2)
proof (cases rule: server_step_frame)
  case frame
  with inv show ?thesis by (auto simp: srv_frame_def srv_inv_def)
next
  case (accepted i ec r)
  with inv have acc: "srv_accepting s = [i]" by (cases "srv_accepting s") (auto simp: srv_inv_def)
  from inv have o: "srv_open (s\<lparr>srv_accepting := remove1 i (srv_accepting s)\<rparr>) \<noteq> None" by (simp add: srv_inv_def)
  from accept_handler_outcome [OF assms(1) o accepted(2)] acc inv show ?thesis
    by (fastforce simp: srv_inv_def split: if_splits)
qed

section \<open>Properties\<close>

text \<open>
  C11: A running server never has more than one accept outstanding, and its list holds every connection
  at most once, none of them still being accepted, whatever the clients, the socket and the application
  do; no step returns with the mutex held.
\<close>

theorem server_list_sound:
  assumes "server_app_frame e"
    and "TcpServer_Start e (TcpServer_new where_to acc rd heap n) = (Inr (), s0)"
    and "(server_step e)\<^sup>*\<^sup>* s0 s"
  shows "length (srv_accepting s) \<le> 1 \<and> distinct (srv_connections s @ srv_accepting s)
    \<and> (\<forall>i \<in> set (srv_connections s @ srv_accepting s). i < srv_next s) \<and> \<not> srv_locked s"
proof -
  have "srv_inv s0"
    using assms(2)
    by (auto simp: TcpServer_Start_def TcpServer_AsyncAccept_def TcpServer_new_def srv_inv_def put_conn_def
        Let_def split: option.splits)
  with assms(3) have "srv_inv s"
    by (induction rule: rtranclp_induct) (auto intro: server_step_inv [OF assms(1)])
  then show ?thesis by (auto simp: srv_inv_def)
qed

text \<open>A small environment: an application that only listens, on sockets that close without error.\<close>

definition quiet_env :: "(c_int, end_point) server_env" where
  "quiet_env = \<lparr>env_nd = False, env_accept = (\<lambda>i s. (Inr (), s)), env_read = (\<lambda>i n s. (Inr (), s)),
     env_is_open = (\<lambda>as. Close_socket \<notin> set as), env_close_throws = (\<lambda>as. None),
     env_bind_throws = (\<lambda>a. None), env_context_throws = (\<lambda>made a. None)\<rparr>"

lemma quiet_env_frame: "server_app_frame quiet_env"
  by (simp add: server_app_frame_def quiet_env_def)

definition no_conns :: "nat \<Rightarrow> end_point server_conn" where
  "no_conns i = TcpConnection_new None"

definition started :: "(c_int, end_point) server" where
  "started = snd (TcpServer_Start quiet_env (TcpServer_new 80 True True no_conns 0))"

lemma started_ok: "TcpServer_Start quiet_env (TcpServer_new 80 True True no_conns 0) = (Inr (), started)"
  by (simp add: started_def TcpServer_Start_def quiet_env_def TcpServer_AsyncAccept_def TcpServer_new_def Let_def)

lemma started_accepting: "srv_accepting started = [0]" "srv_open started = Some True" "srv_connections started = []"
  "srv_next started = 1" "srv_locked started = False"
  by (simp_all add: started_def TcpServer_Start_def quiet_env_def TcpServer_AsyncAccept_def TcpServer_new_def
      put_conn_def Let_def)

lemma started_heap: "srv_heap started 0 = TcpConnection_new (Some On_error)"
  by (simp add: started_def TcpServer_Start_def quiet_env_def TcpServer_AsyncAccept_def TcpServer_new_def
      put_conn_def Let_def)

theorem server_list_sound_witness:
  "length (srv_accepting (snd (TcpServer_AcceptHandler quiet_env 0 no_error (started\<lparr>srv_accepting := []\<rparr>)))) \<le> 1"
proof -
  let ?run = "TcpServer_AcceptHandler quiet_env 0 no_error (started\<lparr>srv_accepting := []\<rparr>)"
  have "TcpServer_AcceptHandler quiet_env 0 no_error (started\<lparr>srv_accepting := remove1 0 (srv_accepting started)\<rparr>) =
      (fst ?run, snd ?run)"
    by (simp add: started_accepting)
  then have "server_step quiet_env started (snd ?run)"
    by (rule server_step.accepted [rotated]) (simp add: started_accepting)
  from server_list_sound [OF quiet_env_frame started_ok r_into_rtranclp [of "server_step quiet_env", OF this]] show ?thesis by simp
qed

text \<open>
  C19: The accept handler asks for the next connection only when it returns normally: then exactly one
  accept is outstanding, also after a failed one. If the application's accept callback (or the start of
  the read) throws, no accept is outstanding and no later step starts one: the server has stopped
  accepting for good.
\<close>

theorem server_accept_chain:
  assumes "server_app_frame e"
    and "TcpServer_Start e (TcpServer_new where_to acc rd heap n) = (Inr (), s0)"
    and "(server_step e)\<^sup>*\<^sup>* s0 s" and "i \<in> set (srv_accepting s)"
    and "TcpServer_AcceptHandler e i ec (s\<lparr>srv_accepting := remove1 i (srv_accepting s)\<rparr>) = (r, s')"
    and "(server_step e)\<^sup>*\<^sup>* s' t"
  shows "(r = Inr () \<longrightarrow> srv_accepting s' = [srv_next s]) \<and> (ec_set ec \<longrightarrow> r = Inr ())
    \<and> (r \<noteq> Inr () \<longrightarrow> srv_accepting t = [])"
proof -
  have "srv_inv s0"
    using assms(2)
    by (auto simp: TcpServer_Start_def TcpServer_AsyncAccept_def TcpServer_new_def srv_inv_def put_conn_def
        Let_def split: option.splits)
  with assms(3) have inv: "srv_inv s"
    by (induction rule: rtranclp_induct) (auto intro: server_step_inv [OF assms(1)])
  with assms(4) have acc: "srv_accepting s = [i]" by (cases "srv_accepting s") (auto simp: srv_inv_def)
  let ?s = "s\<lparr>srv_accepting := remove1 i (srv_accepting s)\<rparr>"
  from inv have o: "srv_open ?s \<noteq> None" by (simp add: srv_inv_def)
  note out = accept_handler_outcome [OF assms(1) o assms(5)]
  have err: "ec_set ec \<longrightarrow> r = Inr ()"
    using assms(5) o by (auto simp: TcpServer_AcceptHandler_def TcpServer_AsyncAccept_def Let_def)
  have "srv_accepting t = []" if "r \<noteq> Inr ()"
    using assms(6)
  proof (induction rule: rtranclp_induct)
    case base
    with out acc that show ?case by simp
  next
    case (step u v)
    from assms(1) step.hyps(2) show ?case
    proof (cases rule: server_step_frame)
      case frame
      with step.IH show ?thesis by (simp add: srv_frame_def)
    next
      case (accepted i ec r)
      with step.IH show ?thesis by simp
    qed
  qed
  with out acc err show ?thesis by auto
qed

theorem server_accept_chain_witness:
  "\<exists>s'. TcpServer_AcceptHandler (quiet_env\<lparr>env_accept := \<lambda>i s. (Inl (AppException ''no''), s)\<rparr>) 0 no_error
       (started\<lparr>srv_accepting := []\<rparr>) = (Inl (AppException ''no''), s') \<and> srv_accepting s' = []"
proof -
  let ?e = "quiet_env\<lparr>env_accept := \<lambda>i s. (Inl (AppException ''no''), s)\<rparr>"
  let ?run = "TcpServer_AcceptHandler ?e 0 no_error (started\<lparr>srv_accepting := []\<rparr>)"
  have frame: "server_app_frame ?e" by (simp add: server_app_frame_def quiet_env_def)
  have start: "TcpServer_Start ?e (TcpServer_new 80 True True no_conns 0) = (Inr (), started)"
    using started_ok by (simp add: TcpServer_Start_def quiet_env_def)
  have f: "fst ?run = Inl (AppException ''no'')"
    by (simp add: TcpServer_AcceptHandler_def TcpServer_OnAccept_def quiet_env_def started_def TcpServer_Start_def
        TcpServer_AsyncAccept_def TcpServer_new_def put_conn_def get_conn_def with_mutex_def on_host_def
        TcpConnection_new_def TcpPeerConnection_new_def TcpPeerConnection_BeginChainedRead_def tcp_on_buffer_def
        circ_eval ChunkSize_def Let_def)
  have run: "TcpServer_AcceptHandler ?e 0 no_error (started\<lparr>srv_accepting := remove1 0 (srv_accepting started)\<rparr>) =
      (fst ?run, snd ?run)"
    by (simp add: started_accepting)
  have zero: "0 \<in> set (srv_accepting started)" by (simp add: started_accepting)
  have "srv_accepting (snd ?run) = []"
    using server_accept_chain [OF frame start rtranclp.rtrancl_refl zero run rtranclp.rtrancl_refl] f by simp
  with f show ?thesis by (metis prod.collapse)
qed

text \<open>Updating every listed connection once.\<close>

definition update_conns :: "('c \<Rightarrow> 'c) \<Rightarrow> nat list \<Rightarrow> (nat \<Rightarrow> 'c) \<Rightarrow> nat \<Rightarrow> 'c" where
  "update_conns g is h = (\<lambda>j. if j \<in> set is then g (h j) else h j)"

lemma for_each_conns:
  assumes "\<And>i s. i \<in> set is \<Longrightarrow> get_conn i s = get_conn i s0 \<Longrightarrow>
      f i s = (Inr (), put_conn i (g (get_conn i s)) s)"
    and "distinct is" and "\<And>i. i \<in> set is \<Longrightarrow> get_conn i s = get_conn i s0"
  shows "for_each f is s = (Inr (), s\<lparr>srv_heap := update_conns g is (srv_heap s)\<rparr>)"
  using assms
proof (induction "is" arbitrary: s)
  case (Cons i "is")
  let ?s = "put_conn i (g (get_conn i s)) s"
  have "f i s = (Inr (), ?s)"
    by (rule Cons.prems(1)) (use Cons.prems(3) in auto)
  moreover have "for_each f is ?s = (Inr (), ?s\<lparr>srv_heap := update_conns g is (srv_heap ?s)\<rparr>)"
  proof (rule Cons.IH)
    show "get_conn j ?s = get_conn j s0" if "j \<in> set is" for j
      using that Cons.prems(2) Cons.prems(3) [of j] by (auto simp: get_conn_def put_conn_def)
  qed (use Cons.prems in auto)
  ultimately show ?case
    using Cons.prems(2) by (auto simp: get_conn_def put_conn_def update_conns_def fun_eq_iff)
qed (simp add: update_conns_def)

lemma queue_or_launch_ok: "TcpPeerConnection_QueueOrLaunch m c =
    (Inr (int_of_size (length (tcp_outQueue c) + 1)), tcp_enqueue m c)"
  by (cases "tcp_outQueue c") (simp_all add: tcp_send_defs Let_def split: transport.split)

lemma async_write_conn:
  "and_then (on_host (get_conn i) (put_conn i) (TcpPeerConnection_AsyncWrite_string msg nt) s) (\<lambda>_ s. (Inr (), s)) =
     (Inr (), put_conn i (tcp_enqueue (IoBufferWrapper_move_string msg nt) (get_conn i s)) s)"
  by (simp add: on_host_def TcpPeerConnection_AsyncWrite_string_def queue_or_launch_ok)

text \<open>
  A message to all clients is queued exactly once on every listed connection, behind what it has
  queued already, and on no other; nothing else of the server changes.
\<close>

lemma server_broadcast:
  assumes "\<not> srv_locked s" and "distinct (srv_connections s)"
  shows "TcpServer_SendMessageToAllPeers msg nt s =
    (Inr (), s\<lparr>srv_heap :=
       update_conns (tcp_enqueue (IoBufferWrapper_move_string msg nt)) (srv_connections s) (srv_heap s)\<rparr>)
    \<and> (\<forall>i \<in> set (srv_connections s).
         tcp_outQueue (srv_heap (snd (TcpServer_SendMessageToAllPeers msg nt s)) i) =
           tcp_outQueue (srv_heap s i) @ [IoBufferWrapper_move_string msg nt])"
proof -
  have "for_each (\<lambda>i s. and_then (on_host (get_conn i) (put_conn i)
      (TcpPeerConnection_AsyncWrite_string msg nt) s) (\<lambda>_ s. (Inr (), s))) (srv_connections s) (s\<lparr>srv_locked := True\<rparr>) =
    (Inr (), s\<lparr>srv_locked := True, srv_heap :=
       update_conns (tcp_enqueue (IoBufferWrapper_move_string msg nt)) (srv_connections s) (srv_heap s)\<rparr>)"
    using for_each_conns [OF _ assms(2), of "s\<lparr>srv_locked := True\<rparr>" _
        "tcp_enqueue (IoBufferWrapper_move_string msg nt)" "s\<lparr>srv_locked := True\<rparr>"]
    by (simp add: async_write_conn)
  with assms(1) show ?thesis
    by (simp add: TcpServer_SendMessageToAllPeers_def with_mutex_def update_conns_def
        tcp_queue.enqueue_queue)
qed

lemma server_broadcast_witness:
  "let s = started\<lparr>srv_connections := [0], srv_accepting := []\<rparr>
   in tcp_outQueue (srv_heap (snd (TcpServer_SendMessageToAllPeers [7] False s)) 0) =
        [IoBufferWrapper_move_string [7] False]"
  using server_broadcast [of "started\<lparr>srv_connections := [0], srv_accepting := []\<rparr>" "[7]" False]
  by (simp add: Let_def started_accepting started_heap update_conns_def tcp_queue.enqueue_queue
      TcpConnection_new_def TcpPeerConnection_new_def)

text \<open>
  The error handler closes the connection that failed and drops it from the list, together with
  every other connection whose socket happens to be closed, whether or not a read of it is still
  outstanding; the open ones stay, in order. Called without an error code it does nothing.
\<close>

lemma server_error_removes:
  assumes "\<not> srv_locked s" and "\<And>as. \<not> env_is_open e (as @ [Close_socket])"
    and "env_close_throws e (tcp_calls (srv_heap s i)) = None"
  shows "\<exists>s'. TcpServer_ErrorHandler e i ec s = (Inr (), s')
    \<and> (if ec_set ec
       then srv_connections s' =
              filter (\<lambda>j. j \<noteq> i \<and> env_is_open e (tcp_calls (srv_heap s j))) (srv_connections s)
          \<and> tcp_calls (srv_heap s' i) = tcp_calls (srv_heap s i) @ [Close_socket]
          \<and> (\<forall>j. j \<noteq> i \<longrightarrow> srv_heap s' j = srv_heap s j)
       else s' = s)"
proof (cases "ec_set ec")
  case True
  let ?h = "(srv_heap s)(i := tcp_call Close_socket (srv_heap s i))"
  have "filter (\<lambda>j. env_is_open e (tcp_calls (?h j))) (srv_connections s) =
      filter (\<lambda>j. j \<noteq> i \<and> env_is_open e (tcp_calls (srv_heap s j))) (srv_connections s)"
    using assms(2) by (intro filter_cong) (auto simp: tcp_call_def)
  moreover have "TcpServer_ErrorHandler e i ec s =
      (Inr (), s\<lparr>srv_heap := ?h, srv_connections :=
         filter (\<lambda>j. env_is_open e (tcp_calls (?h j))) (srv_connections s)\<rparr>)"
    using True assms(1,3)
    by (simp add: TcpServer_ErrorHandler_def with_mutex_def close_socket_def get_conn_def put_conn_def)
  ultimately show ?thesis
    using True by (intro exI [of _ "s\<lparr>srv_heap := ?h, srv_connections :=
      filter (\<lambda>j. j \<noteq> i \<and> env_is_open e (tcp_calls (srv_heap s j))) (srv_connections s)\<rparr>"])
      (simp add: tcp_call_def)
next
  case False
  then show ?thesis by (simp add: TcpServer_ErrorHandler_def)
qed

lemma server_error_removes_witness:
  "srv_connections (snd (TcpServer_ErrorHandler quiet_env 1 \<lparr>ec_value = 104, ec_message = ''reset''\<rparr>
     (started\<lparr>srv_connections := [0, 1, 2], srv_heap := (srv_heap started)
        (0 := tcp_call Close_socket (TcpConnection_new None), 1 := TcpConnection_new None, 2 := TcpConnection_new None)\<rparr>))) = [2]"
proof -
  let ?s = "started\<lparr>srv_connections := [0, 1, 2], srv_heap := (srv_heap started)
        (0 := tcp_call Close_socket (TcpConnection_new None), 1 := TcpConnection_new None, 2 := TcpConnection_new None)\<rparr>"
  have "\<exists>s'. TcpServer_ErrorHandler quiet_env 1 \<lparr>ec_value = 104, ec_message = ''reset''\<rparr> ?s = (Inr (), s')
      \<and> srv_connections s' = [2]"
    using server_error_removes [of ?s quiet_env 1 "\<lparr>ec_value = 104, ec_message = ''reset''\<rparr>"]
    by (auto simp: started_accepting quiet_env_def ec_set_def tcp_call_def TcpConnection_new_def
        TcpPeerConnection_new_def)
  then show ?thesis by auto
qed

lemma begin_fresh:
  obtains c where "TcpPeerConnection_BeginChainedRead nd (Some On_available) (Some On_error) ChunkSize
      (TcpConnection_new (Some On_error)) = (Inr (), c)"
  by (simp add: TcpConnection_new_def TcpPeerConnection_new_def TcpPeerConnection_BeginChainedRead_def
      tcp_on_buffer_def circ_eval ChunkSize_def)

text \<open>
  The accept callback runs with the server's mutex held. An application that greets all clients
  from it, through \<open>SendMessageToAllPeers\<close> of the same server, locks the mutex a second time in the
  same thread: accepting a connection ends in a deadlock.
\<close>

lemma accept_callback_deadlock:
  assumes "\<not> srv_locked s" and "srv_acceptStreamCb s"
    and "srv_heap s i = TcpConnection_new (Some On_error)"
    and "\<And>j t. env_accept e j t = TcpServer_SendMessageToAllPeers msg nt t"
  shows "fst (TcpServer_OnAccept e i s) = Inl (Deadlock ''_mutex'')"
proof -
  obtain c where c: "TcpPeerConnection_BeginChainedRead (env_nd e) (Some On_available) (Some On_error) ChunkSize
      (srv_heap s i) = (Inr (), c)"
    using begin_fresh [of "env_nd e"] assms(3) by metis
  let ?t = "(put_conn i c s)\<lparr>srv_locked := True, srv_connections := srv_connections s @ [i]\<rparr>"
  have "env_accept e i ?t = (Inl (Deadlock ''_mutex''), ?t)"
    by (simp add: assms(4) TcpServer_SendMessageToAllPeers_def with_mutex_def)
  with assms(1,2) c show ?thesis
    by (simp add: TcpServer_OnAccept_def on_host_def get_conn_def put_conn_def with_mutex_def Let_def)
qed

lemma accept_callback_deadlock_witness:
  "fst (TcpServer_OnAccept (quiet_env\<lparr>env_accept := \<lambda>i. TcpServer_SendMessageToAllPeers [72, 105] True\<rparr>) 0 started) =
     Inl (Deadlock ''_mutex'')"
  by (rule accept_callback_deadlock [where msg = "[72, 105]" and nt = True])
    (simp_all add: started_def TcpServer_Start_def quiet_env_def TcpServer_AsyncAccept_def TcpServer_new_def
      put_conn_def Let_def)

text \<open>
  Stopping a started server closes the acceptor and the socket of every listed connection, and only
  those; a server that was moved from stops nothing when it is destroyed, and the one moved to does.
\<close>

lemma server_stop_closes:
  assumes "\<not> srv_locked s" and "distinct (srv_connections s)" and "srv_open s \<noteq> None" and "srv_readSomeCb s"
    and "\<And>as. env_close_throws e as = None"
  shows "TcpServer_destroy e s = (Inr (), s\<lparr>srv_open := Some False,
       srv_heap := update_conns (tcp_call Close_socket) (srv_connections s) (srv_heap s)\<rparr>)
    \<and> TcpServer_destroy e (snd (TcpServer_move s)) = (Inr (), snd (TcpServer_move s))
    \<and> srv_heap (snd (TcpServer_destroy e (fst (TcpServer_move s)))) = srv_heap (snd (TcpServer_destroy e s))"
proof -
  have "TcpServer_CloseAllPeerConnections e t =
      (Inr (), t\<lparr>srv_heap := update_conns (tcp_call Close_socket) (srv_connections t) (srv_heap t)\<rparr>)"
    if "\<not> srv_locked t" "distinct (srv_connections t)" for t
  proof -
    have "for_each (close_socket e) (srv_connections t) (t\<lparr>srv_locked := True\<rparr>) =
      (Inr (), t\<lparr>srv_locked := True,
         srv_heap := update_conns (tcp_call Close_socket) (srv_connections t) (srv_heap t)\<rparr>)"
      using for_each_conns [OF _ that(2), of "t\<lparr>srv_locked := True\<rparr>" "close_socket e" "tcp_call Close_socket" "t\<lparr>srv_locked := True\<rparr>"]
        assms(5) by (simp add: close_socket_def)
    with that(1) show ?thesis by (simp add: TcpServer_CloseAllPeerConnections_def with_mutex_def)
  qed
  moreover obtain b where "srv_open s = Some b" using assms(3) by auto
  ultimately show ?thesis
    using assms(1,2,4)
    by (simp add: TcpServer_destroy_def TcpServer_Stop_def TcpServer_move_def server_moved_from_def)
qed

lemma server_stop_closes_witness:
  "srv_open (snd (TcpServer_destroy quiet_env started)) = Some False"
  using server_stop_closes [of started quiet_env]
  by (simp add: started_accepting) (simp add: started_def TcpServer_Start_def quiet_env_def TcpServer_AsyncAccept_def
      TcpServer_new_def put_conn_def Let_def)

end
