(* ===== verification/SecureServ.thy ===== *)
theory SecureServ
  imports TcpServ
begin

text \<open>
  The TCP server started with security options (\<open>TcpServer::Start(SecurityOptions&&)\<close>): between the
  accept of a connection and its place in the list there is a TLS handshake.
\<close>

section \<open>Completions\<close>

text \<open>
  The steps of a running secure server: an accept completes, a handshake completes, or one of the
  steps of the connections.
\<close>

inductive secure_step ::
  "('at, 'ep) server_env \<Rightarrow> ('at, 'ep) server \<Rightarrow> ('at, 'ep) server \<Rightarrow> bool" for e where
  accepted: "i \<in> set (srv_accepting s) \<Longrightarrow>
    TcpServer_SecureAcceptHandler e i ec (s\<lparr>srv_accepting := remove1 i (srv_accepting s)\<rparr>) = (r, s') \<Longrightarrow>
    secure_step e s s'"
| handshaken: "i \<in> set (srv_handshaking s) \<Longrightarrow>
    TcpServer_HandleSslHandshake e i ec (s\<lparr>srv_handshaking := remove1 i (srv_handshaking s)\<rparr>) = (r, s') \<Longrightarrow>
    secure_step e s s'"
| conn: "conn_step e s s' \<Longrightarrow> secure_step e s s'"

text \<open>The connections a server holds in any of its three places.\<close>

definition srv_held :: "('at, 'ep) server \<Rightarrow> nat list" where
  "srv_held s = srv_connections s @ srv_handshaking s @ srv_accepting s"

definition secure_inv :: "('at, 'ep) server \<Rightarrow> bool" where
  "secure_inv s \<longleftrightarrow> \<not> srv_locked s \<and> srv_open s \<noteq> None \<and> length (srv_accepting s) \<le> 1
     \<and> distinct (srv_held s)
     \<and> (\<forall>i \<in> set (srv_held s). i < srv_next s \<and> tcp_class (srv_heap s i) = Ssl
          \<and> srv_contexts s i = TcpServer_context (srv_security s))"

lemma setup_context_made: "setup_context throws made as = Inr c \<Longrightarrow> c = made @ as"
proof (induction "as" arbitrary: made)
  case (Cons a as')
  then have "setup_context throws (made @ [a]) as' = Inr c" by (simp split: option.splits)
  with Cons.IH [of "made @ [a]"] show ?case by simp
qed simp

lemma secure_accept_outcome:
  assumes "srv_open s \<noteq> None" and "TcpServer_AsyncSecureAccept e s = (r, s')"
  shows "(r \<noteq> Inr () \<and> s' = s) \<or> (r = Inr () \<and> s' = s\<lparr>srv_accepting := srv_accepting s @ [srv_next s],
      srv_contexts := (srv_contexts s)(srv_next s := TcpServer_context (srv_security s)),
      srv_heap := (srv_heap s)(srv_next s := TcpSslConnection_new (Some On_error)), srv_next := srv_next s + 1\<rparr>)"
  using assms
  by (auto simp: TcpServer_AsyncSecureAccept_def put_conn_def Let_def dest!: setup_context_made split: sum.splits)

lemma secure_accept_inv:
  assumes "secure_inv s" and "srv_accepting s = []" and "TcpServer_AsyncSecureAccept e s = (r, s')"
  shows "secure_inv s'"
proof -
  have o: "srv_open s \<noteq> None" using assms(1) by (simp add: secure_inv_def)
  from secure_accept_outcome [OF o assms(3)] show ?thesis
  proof (elim disjE conjE)
    assume "s' = s"
    with assms(1) show ?thesis by simp
  next
    assume "s' = s\<lparr>srv_accepting := srv_accepting s @ [srv_next s],
      srv_contexts := (srv_contexts s)(srv_next s := TcpServer_context (srv_security s)),
      srv_heap := (srv_heap s)(srv_next s := TcpSslConnection_new (Some On_error)), srv_next := srv_next s + 1\<rparr>"
    moreover have "srv_next s \<notin> set (srv_held s)" using assms(1) by (auto simp: secure_inv_def)
    moreover have "tcp_class (TcpSslConnection_new (Some On_error) :: 'b server_conn) = Ssl"
      by (simp add: TcpSslConnection_new_def TcpPeerConnection_new_def)
    ultimately show ?thesis
      using assms(1,2) by (auto simp: secure_inv_def srv_held_def less_Suc_eq)
  qed
qed

lemma handshake_started_inv:
  assumes "secure_inv s" and "srv_accepting s = [i]"
  shows "secure_inv (s\<lparr>srv_accepting := []\<rparr>)"
    and "secure_inv ((put_conn i (tcp_call Async_handshake (get_conn i s)) (s\<lparr>srv_accepting := []\<rparr>))
           \<lparr>srv_handshaking := srv_handshaking s @ [i]\<rparr>)"
  using assms
  by (auto simp: secure_inv_def srv_held_def put_conn_def get_conn_def tcp_call_def)

lemma secure_frame:
  assumes "srv_frame s s'" and "secure_inv s"
  shows "secure_inv s'"
proof -
  have "set (srv_held s') \<subseteq> set (srv_held s)" "distinct (srv_held s')"
    using assms by (auto simp: srv_frame_def secure_inv_def srv_held_def)
  with assms show ?thesis by (auto simp: srv_frame_def secure_inv_def)
qed

lemma secure_appended:
  assumes "srv_appended i s s'" and "secure_inv s" and "i \<notin> set (srv_held s)"
    and "i < srv_next s" and "tcp_class (srv_heap s i) = Ssl"
    and "srv_contexts s i = TcpServer_context (srv_security s)"
  shows "secure_inv s'"
proof -
  have "set (srv_held s') \<subseteq> insert i (set (srv_held s))" "distinct (srv_held s')"
    using assms(1-3) by (auto simp: srv_appended_def secure_inv_def srv_held_def)
  with assms show ?thesis by (auto simp: srv_appended_def secure_inv_def)
qed

lemma secure_step_cases_inv:
  assumes app: "server_app_frame e" and step: "secure_step e s s'" and inv: "secure_inv s"
  shows "secure_inv s' \<and> set (srv_connections s') \<subseteq> set (srv_connections s) \<union> set (srv_handshaking s)
    \<and> set (srv_handshaking s') \<subseteq> set (srv_handshaking s) \<union> set (srv_accepting s)"
  using step
proof (cases rule: secure_step.cases)
  case (accepted i ec r)
  with inv have acc: "srv_accepting s = [i]" by (cases "srv_accepting s") (auto simp: secure_inv_def)
  let ?t = "s\<lparr>srv_accepting := []\<rparr>"
  let ?u = "(put_conn i (tcp_call Async_handshake (get_conn i s)) ?t)\<lparr>srv_handshaking := srv_handshaking s @ [i]\<rparr>"
  define v where "v = (if ec_set ec then ?t else ?u)"
  have v: "secure_inv v" "srv_accepting v = []" "srv_connections v = srv_connections s"
    "set (srv_handshaking v) \<subseteq> set (srv_handshaking s) \<union> {i}"
    using handshake_started_inv [OF inv acc] by (auto simp: v_def put_conn_def)
  have run: "TcpServer_AsyncSecureAccept e v = (r, s')"
    using accepted(2) by (simp add: TcpServer_SecureAcceptHandler_def acc v_def Let_def get_conn_def put_conn_def
        split: if_splits)
  have "srv_open v \<noteq> None" using v(1) by (simp add: secure_inv_def)
  from secure_accept_outcome [OF this run] secure_accept_inv [OF v(1,2) run] v(3,4) acc show ?thesis
    by auto
next
  case (handshaken i ec r)
  let ?t = "s\<lparr>srv_handshaking := remove1 i (srv_handshaking s)\<rparr>"
  have t: "secure_inv ?t" "i \<notin> set (srv_held ?t)"
    using inv handshaken(1) by (auto simp: secure_inv_def srv_held_def dest: notin_set_remove1)
  have i: "i < srv_next ?t" "tcp_class (srv_heap ?t i) = Ssl" "srv_contexts ?t i = TcpServer_context (srv_security ?t)"
    using inv handshaken(1) by (auto simp: secure_inv_def srv_held_def)
  show ?thesis
  proof (cases "ec_set ec")
    case True
    with handshaken t(1) show ?thesis
      using set_remove1_subset [of i "srv_handshaking s"] by (auto simp: TcpServer_HandleSslHandshake_def)
  next
    case False
    with handshaken(2) have "TcpServer_OnAccept e i ?t = (r, s')" by (simp add: TcpServer_HandleSslHandshake_def)
    then have a: "srv_appended i ?t s'" using on_accept_appended [OF app, of i ?t] by simp
    from secure_appended [OF a t i] a handshaken(1) set_remove1_subset [of i "srv_handshaking s"] show ?thesis
      by (auto simp: srv_appended_def)
  qed
next
  case conn
  then have "srv_frame s s'" by (rule conn_step_frame [OF app])
  with secure_frame inv show ?thesis by (auto simp: srv_frame_def)
qed

lemma secure_start_inv:
  assumes "TcpServer_Start_secure e sec (TcpServer_new where_to acc rd heap n) = (Inr (), s)"
  shows "secure_inv s \<and> srv_security s = sec"
proof -
  let ?s = "(TcpServer_new where_to acc rd heap n)\<lparr>srv_security := sec, srv_open := Some True\<rparr>"
  have "secure_inv ?s" "srv_accepting ?s = []" by (simp_all add: secure_inv_def srv_held_def TcpServer_new_def)
  moreover have run: "TcpServer_AsyncSecureAccept e ?s = (Inr (), s)"
    using assms by (auto simp: TcpServer_Start_secure_def TcpServer_new_def Let_def split: option.splits)
  ultimately have "secure_inv s" by (rule secure_accept_inv)
  moreover have "srv_security s = sec" using secure_accept_outcome [OF _ run] by auto
  ultimately show ?thesis by simp
qed

section \<open>Properties\<close>


definition example_security :: security_options where
  "example_security = \<lparr>CertificateFilename = ''server.pem'', PrivKeyFilename = ''key.pem'',
     DHExchangeFilename = ''dh512.pem'', GetPasswordCallback = Some (Inr ''test''), VerifyClient = True,
     ClientVerifyFile = ''ca.pem''\<rparr>"

definition secured :: tcp_server where
  "secured = snd (TcpServer_Start_secure quiet_env example_security (TcpServer_new 443 True True no_conns 0))"

lemma secured_ok:
  "TcpServer_Start_secure quiet_env example_security (TcpServer_new 443 True True no_conns 0) = (Inr (), secured)"
  by (simp add: secured_def TcpServer_Start_secure_def quiet_env_def TcpServer_AsyncSecureAccept_def
      TcpServer_new_def TcpServer_context_def example_security_def put_conn_def Let_def)

lemma secured_lists: "srv_accepting secured = [0]" "srv_connections secured = []" "srv_handshaking secured = []"
  by (simp_all add: secured_def TcpServer_Start_secure_def quiet_env_def TcpServer_AsyncSecureAccept_def
      TcpServer_new_def TcpServer_context_def example_security_def put_conn_def Let_def)


text \<open>
  A secure server accepts its next client without waiting for the handshake of the last one,
  whatever the accept brought, as long as its security options can still be loaded into a context. If
  they cannot, the exception leaves the handler with no accept outstanding, and no later step starts
  one.
\<close>

lemma secure_accept_chain:
  assumes "server_app_frame e" and "secure_inv s" and "i \<in> set (srv_accepting s)"
    and "TcpServer_SecureAcceptHandler e i ec (s\<lparr>srv_accepting := remove1 i (srv_accepting s)\<rparr>) = (r, s')"
    and "(secure_step e)\<^sup>*\<^sup>* s' t"
  shows "case setup_context (env_context_throws e) [] (TcpServer_context (srv_security s)) of
      Inr context \<Rightarrow> r = Inr () \<and> srv_accepting s' = [srv_next s]
        \<and> srv_handshaking s' = srv_handshaking s @ (if ec_set ec then [] else [i])
    | Inl f \<Rightarrow> r = Inl f \<and> srv_accepting t = []"
proof -
  from assms(2,3) have acc: "srv_accepting s = [i]" by (cases "srv_accepting s") (auto simp: secure_inv_def)
  from assms(2) have o: "srv_open s \<noteq> None" by (simp add: secure_inv_def)
  have stays: "srv_accepting t = []" if "srv_accepting s' = []"
    using assms(5)
  proof (induction rule: rtranclp_induct)
    case (step u v)
    from step.hyps(2) show ?case
    proof (cases rule: secure_step.cases)
      case (handshaken i ec r)
      with step.IH on_accept_appended [OF assms(1), of i "u\<lparr>srv_handshaking := remove1 i (srv_handshaking u)\<rparr>"]
      show ?thesis by (auto simp: TcpServer_HandleSslHandshake_def srv_appended_def split: if_splits)
    next
      case conn
      with step.IH conn_step_frame [OF assms(1)] show ?thesis by (auto simp: srv_frame_def)
    qed (use step.IH in simp)
  qed (use that in simp)
  show ?thesis
    using assms(4) acc o stays
    by (auto simp: TcpServer_SecureAcceptHandler_def TcpServer_AsyncSecureAccept_def put_conn_def Let_def
        split: sum.splits if_splits)
qed

lemma secure_accept_chain_witness:
  "let e = quiet_env\<lparr>env_context_throws := \<lambda>made a. if a = use_tmp_dh_file ''dh512.pem'' then Some (SystemError 2) else None\<rparr>
   in fst (TcpServer_SecureAcceptHandler e 0 no_error (secured\<lparr>srv_accepting := []\<rparr>)) = Inl (SystemError 2)
      \<and> srv_accepting (snd (TcpServer_SecureAcceptHandler e 0 no_error (secured\<lparr>srv_accepting := []\<rparr>))) = []"
proof -
  let ?e = "quiet_env\<lparr>env_context_throws := \<lambda>made a. if a = use_tmp_dh_file ''dh512.pem'' then Some (SystemError 2) else None\<rparr>"
  let ?run = "TcpServer_SecureAcceptHandler ?e 0 no_error (secured\<lparr>srv_accepting := []\<rparr>)"
  have frame: "server_app_frame ?e" by (simp add: server_app_frame_def quiet_env_def)
  note start = secure_start_inv [OF secured_ok]
  have run: "TcpServer_SecureAcceptHandler ?e 0 no_error (secured\<lparr>srv_accepting := remove1 0 (srv_accepting secured)\<rparr>) =
      (fst ?run, snd ?run)"
    by (simp add: secured_lists)
  have "setup_context (env_context_throws ?e) [] (TcpServer_context (srv_security secured)) = Inl (SystemError 2)"
    using start by (simp add: TcpServer_context_def example_security_def)
  with secure_accept_chain [OF frame _ _ run rtranclp.rtrancl_refl] start show ?thesis
    by (simp add: secured_lists Let_def)
qed

end
