(* ===== verification/UnixServ.thy ===== *)
theory UnixServ
  imports TcpServ TcpDomain
begin

text \<open>
  A UNIX domain server (\<open>IoServices/UnixServer\<close>): it listens on a path, which it removes from the
  file system first, and accepts UNIX domain connections. Each operation is defined here from its own
  source over the state of a server (the TLS members of that state stay at their initial values); runs
  of it are then proved to be runs of the plain TCP server.
\<close>

section \<open>The class\<close>

type_synonym unix_server = "(string, string) server"

definition UnixServer_new ::
  "string \<Rightarrow> bool \<Rightarrow> bool \<Rightarrow> (nat \<Rightarrow> string server_conn) \<Rightarrow> nat \<Rightarrow> unix_server" where
  "UnixServer_new path acceptsStream readSome heap n =
     \<lparr>srv_at = path, srv_open = None, srv_connections = [], srv_acceptStreamCb = acceptsStream,
      srv_readSomeCb = readSome, srv_security = SecurityOptions_default, srv_locked = False,
      srv_accepting = [], srv_handshaking = [], srv_contexts = (\<lambda>_. []), srv_heap = heap, srv_next = n\<rparr>"

definition UnixServer_move :: "unix_server \<Rightarrow> unix_server \<times> unix_server" where
  "UnixServer_move rhs =
     (\<lparr>srv_at = srv_at rhs, srv_open = srv_open rhs, srv_connections = srv_connections rhs,
       srv_acceptStreamCb = srv_acceptStreamCb rhs, srv_readSomeCb = srv_readSomeCb rhs,
       srv_security = SecurityOptions_default, srv_locked = False, srv_accepting = [],
       srv_handshaking = [], srv_contexts = srv_contexts rhs, srv_heap = srv_heap rhs, srv_next = srv_next rhs\<rparr>,
      rhs\<lparr>srv_open := None, srv_connections := [], srv_acceptStreamCb := False, srv_readSomeCb := False\<rparr>)"

definition UnixServer_move_assign :: "unix_server \<Rightarrow> unix_server \<Rightarrow> unix_server \<times> unix_server" where
  "UnixServer_move_assign lhs rhs =
     (lhs\<lparr>srv_at := srv_at rhs, srv_open := srv_open rhs, srv_connections := srv_connections rhs,
          srv_acceptStreamCb := srv_acceptStreamCb rhs, srv_readSomeCb := srv_readSomeCb rhs\<rparr>,
      rhs\<lparr>srv_open := None, srv_connections := [], srv_acceptStreamCb := False, srv_readSomeCb := False\<rparr>)"

definition UnixServer_GetPath :: "unix_server \<Rightarrow> string" where
  "UnixServer_GetPath s = srv_at s"

definition UnixServer_CloseAllUnixConnections ::
  "(string, string) server_env \<Rightarrow> unix_server \<Rightarrow> (unit, unix_server) outcome" where
  "UnixServer_CloseAllUnixConnections e s =
     with_mutex (\<lambda>s. for_each (close_socket e) (srv_connections s) s) s"

definition UnixServer_Stop ::
  "(string, string) server_env \<Rightarrow> unix_server \<Rightarrow> (unit, unix_server) outcome" where
  "UnixServer_Stop e s =
     (if srv_open s = None then (Inr (), s)
      else UnixServer_CloseAllUnixConnections e (s\<lparr>srv_open := Some False\<rparr>))"

definition UnixServer_destroy ::
  "(string, string) server_env \<Rightarrow> unix_server \<Rightarrow> (unit, unix_server) outcome" where
  "UnixServer_destroy e s = (if \<not> srv_readSomeCb s then (Inr (), s) else UnixServer_Stop e s)"

definition UnixServer_ErrorHandler ::
  "(string, string) server_env \<Rightarrow> nat \<Rightarrow> error_code \<Rightarrow> unix_server \<Rightarrow> (unit, unix_server) outcome" where
  "UnixServer_ErrorHandler e i ec s =
     (if ec_set ec
      then with_mutex
             (\<lambda>s. and_then (close_socket e i s)
                (\<lambda>_ s. (Inr (), s\<lparr>srv_connections :=
                   filter (\<lambda>j. env_is_open e (tcp_calls (get_conn j s))) (srv_connections s)\<rparr>))) s
      else (Inr (), s))"

definition UnixServer_SendMessageToAllClients ::
  "byte list \<Rightarrow> bool \<Rightarrow> unix_server \<Rightarrow> (unit, unix_server) outcome" where
  "UnixServer_SendMessageToAllClients msg nullTerminate s =
     with_mutex
       (\<lambda>s. for_each
          (\<lambda>i s. and_then (on_host (get_conn i) (put_conn i)
                   (TcpDomainConnection_AsyncWrite_string msg nullTerminate) s) (\<lambda>_ s. (Inr (), s)))
          (srv_connections s) s) s"

definition UnixServer_AsyncAccept :: "unix_server \<Rightarrow> (unit, unix_server) outcome" where
  "UnixServer_AsyncAccept s =
     (if srv_open s = None then (Inl (Undefined ''null _acceptor''), s)
      else
        let i = srv_next s
        in (Inr (), (put_conn i (TcpDomainConnection_new (Some On_error)) s)
                      \<lparr>srv_next := i + 1, srv_accepting := srv_accepting s @ [i]\<rparr>))"

text \<open>
  \<open>Start\<close> in a file system, a set of paths: \<open>delete\<close> is \<open>std::remove\<close>, whose result the code
  does not look at, and \<open>bind\<close> the acceptor's constructor, which makes the socket's file or throws.
\<close>

definition UnixServer_Start ::
  "(string \<Rightarrow> string set \<Rightarrow> string set) \<Rightarrow> (string \<Rightarrow> string set \<Rightarrow> fault + string set) \<Rightarrow>
   unix_server \<times> string set \<Rightarrow> (unit, unix_server \<times> string set) outcome" where
  "UnixServer_Start delete bind = (\<lambda>(s, files).
     (let files1 = delete (srv_at s) files
      in case bind (srv_at s) files1 of
           Inl f \<Rightarrow> (Inl f, (s, files1))
         | Inr files2 \<Rightarrow>
             (case UnixServer_AsyncAccept (s\<lparr>srv_open := Some True\<rparr>) of (r, s2) \<Rightarrow> (r, (s2, files2)))))"

definition UnixServer_OnAccept ::
  "(string, string) server_env \<Rightarrow> nat \<Rightarrow> unix_server \<Rightarrow> (unit, unix_server) outcome" where
  "UnixServer_OnAccept e i s =
     and_then (on_host (get_conn i) (put_conn i)
                 (TcpDomainConnection_BeginChainedRead (env_nd e) (Some On_available) (Some On_error) ChunkSize) s)
       (\<lambda>_ s. with_mutex
          (\<lambda>s. let s1 = s\<lparr>srv_connections := srv_connections s @ [i]\<rparr>
               in if srv_acceptStreamCb s1 then env_accept e i s1 else (Inl BadFunctionCall, s1)) s)"

definition UnixServer_AcceptHandler ::
  "(string, string) server_env \<Rightarrow> nat \<Rightarrow> error_code \<Rightarrow> unix_server \<Rightarrow> (unit, unix_server) outcome" where
  "UnixServer_AcceptHandler e i ec s =
     and_then (if ec_set ec then (Inr (), s) else UnixServer_OnAccept e i s)
       (\<lambda>_ s. UnixServer_AsyncAccept s)"

section \<open>Completions\<close>

definition unix_available ::
  "(string, string) server_env \<Rightarrow> nat \<Rightarrow> server_cb \<Rightarrow> nat \<Rightarrow> unix_server \<Rightarrow> (unit, unix_server) outcome" where
  "unix_available e i cb n s =
     (if srv_readSomeCb s then env_read e i (int_of_size n) s else (Inl BadFunctionCall, s))"

definition unix_failed ::
  "(string, string) server_env \<Rightarrow> nat \<Rightarrow> server_cb \<Rightarrow> error_code \<Rightarrow> unix_server \<Rightarrow> (unit, unix_server) outcome" where
  "unix_failed e i cb ec s = UnixServer_ErrorHandler e i ec s"

inductive unix_server_step :: "(string, string) server_env \<Rightarrow> unix_server \<Rightarrow> unix_server \<Rightarrow> bool" for e where
  accepted: "i \<in> set (srv_accepting s) \<Longrightarrow>
    UnixServer_AcceptHandler e i ec (s\<lparr>srv_accepting := remove1 i (srv_accepting s)\<rparr>) = (r, s') \<Longrightarrow>
    unix_server_step e s s'"
| read: "fits_read bs (tcp_readBuffer (get_conn i s)) \<Longrightarrow>
    TcpDomainConnection_boostHandler (env_nd e) (get_conn i) (put_conn i) (unix_available e i) (unix_failed e i)
      no_error (length bs)
      (tcp_put_buffer (get_conn i) (put_conn i) (circ_fill bs (tcp_readBuffer (get_conn i s))) s) = (r, s') \<Longrightarrow>
    unix_server_step e s s'"
| read_failed: "reads (tcp_readBuffer (get_conn i s)) = slot # slots \<Longrightarrow> n = 0 \<or> ec_set ec \<Longrightarrow>
    TcpDomainConnection_boostHandler (env_nd e) (get_conn i) (put_conn i) (unix_available e i) (unix_failed e i)
      ec n
      (tcp_put_buffer (get_conn i) (put_conn i) ((tcp_readBuffer (get_conn i s))\<lparr>reads := slots\<rparr>) s) = (r, s') \<Longrightarrow>
    unix_server_step e s s'"
| wrote: "on_host (get_conn i) (put_conn i) (domain_write_completed ec n) s = (r, s') \<Longrightarrow> unix_server_step e s s'"
| broadcast: "UnixServer_SendMessageToAllClients msg nt s = (r, s') \<Longrightarrow> unix_server_step e s s'"

section \<open>Equality with the plain TCP server\<close>

lemma unix_simple_eqs:
  "UnixServer_new = TcpServer_new"
  "UnixServer_CloseAllUnixConnections = TcpServer_CloseAllPeerConnections"
  "UnixServer_Stop = TcpServer_Stop"
  "UnixServer_destroy = TcpServer_destroy"
  "UnixServer_ErrorHandler = TcpServer_ErrorHandler"
  by (auto intro!: ext simp: UnixServer_new_def TcpServer_new_def UnixServer_CloseAllUnixConnections_def
      TcpServer_CloseAllPeerConnections_def UnixServer_Stop_def TcpServer_Stop_def UnixServer_destroy_def
      TcpServer_destroy_def UnixServer_ErrorHandler_def TcpServer_ErrorHandler_def)

lemma domain_begin_eq: "TcpDomainConnection_BeginChainedRead = TcpPeerConnection_BeginChainedRead"
  by (intro ext) (simp add: TcpDomainConnection_BeginChainedRead_def TcpPeerConnection_BeginChainedRead_def
      tcp_on_buffer_def)

lemma unix_accept_eqs:
  "UnixServer_AsyncAccept = TcpServer_AsyncAccept"
  "UnixServer_OnAccept = TcpServer_OnAccept"
  "UnixServer_AcceptHandler = TcpServer_AcceptHandler"
proof -
  have new: "TcpDomainConnection_new = TcpConnection_new"
    by (intro ext) (simp add: TcpDomainConnection_new_def TcpConnection_new_def TcpPeerConnection_new_def)
  show a: "UnixServer_AsyncAccept = TcpServer_AsyncAccept"
    by (intro ext) (simp add: UnixServer_AsyncAccept_def TcpServer_AsyncAccept_def new)
  show o: "UnixServer_OnAccept = TcpServer_OnAccept"
    by (intro ext) (simp add: UnixServer_OnAccept_def TcpServer_OnAccept_def domain_begin_eq)
  show "UnixServer_AcceptHandler = TcpServer_AcceptHandler"
    by (intro ext) (simp add: UnixServer_AcceptHandler_def TcpServer_AcceptHandler_def a o)
qed

lemma unix_callback_eqs: "unix_available = server_available" "unix_failed = server_failed"
  by (intro ext; simp add: unix_available_def server_available_def unix_failed_def server_failed_def
      unix_simple_eqs)+

text \<open>What remains differs only on connections that are not plain, and the store holds none.\<close>

definition all_plain :: "('at, 'ep) server \<Rightarrow> bool" where
  "all_plain s \<longleftrightarrow> (\<forall>i. tcp_class (srv_heap s i) = Plain)"

lemma all_plain_put: "all_plain s \<Longrightarrow> tcp_class c = Plain \<Longrightarrow> all_plain (put_conn i c s)"
  by (simp add: all_plain_def put_conn_def)

lemma all_plain_get: "all_plain s \<Longrightarrow> tcp_class (get_conn i s) = Plain"
  by (simp add: all_plain_def get_conn_def)

lemma frame_plain: "srv_frame s t \<Longrightarrow> all_plain s \<Longrightarrow> all_plain t"
  by (simp add: srv_frame_def all_plain_def)

lemma for_each_cong_plain:
  assumes "\<And>i s. all_plain s \<Longrightarrow> f i s = g i s \<and> all_plain (snd (g i s))" and "all_plain s"
  shows "for_each f is s = for_each g is s \<and> all_plain (snd (for_each g is s))"
  using assms(2)
proof (induction "is" arbitrary: s)
  case (Cons i "is")
  obtain r t where t: "g i s = (r, t)" by fastforce
  with assms(1) [OF Cons.prems] have "f i s = (r, t)" "all_plain t" by (metis snd_conv)+
  with Cons.IH [of t] t show ?case by (cases r) simp_all
qed simp

lemma with_mutex_cong_plain:
  assumes "\<And>s. all_plain s \<Longrightarrow> f s = g s \<and> all_plain (snd (g s))" and "all_plain s"
  shows "with_mutex f s = with_mutex g s \<and> all_plain (snd (with_mutex g s))"
  using assms(1) [of "s\<lparr>srv_locked := True\<rparr>"] assms(2)
  by (auto simp: with_mutex_def all_plain_def split: prod.split)

lemma unix_send_eq:
  assumes "all_plain s"
  shows "UnixServer_SendMessageToAllClients msg nt s = TcpServer_SendMessageToAllPeers msg nt s
    \<and> all_plain (snd (TcpServer_SendMessageToAllPeers msg nt s))"
  unfolding UnixServer_SendMessageToAllClients_def TcpServer_SendMessageToAllPeers_def
proof (rule with_mutex_cong_plain [OF for_each_cong_plain assms])
  fix i and t :: unix_server
  assume t: "all_plain t"
  have "on_host (get_conn i) (put_conn i) (TcpDomainConnection_AsyncWrite_string msg nt) t =
      on_host (get_conn i) (put_conn i) (TcpPeerConnection_AsyncWrite_string msg nt) t"
    using all_plain_get [OF t]
    by (simp add: on_host_def TcpDomainConnection_AsyncWrite_string_def TcpPeerConnection_AsyncWrite_string_def
        domain_queue_eq)
  moreover have "all_plain (snd (on_host (get_conn i) (put_conn i) (TcpPeerConnection_AsyncWrite_string msg nt) t))"
    using on_conn_frame [where f = "TcpPeerConnection_AsyncWrite_string msg nt" and i = i and s = t] keeps_class(1) t
    by (blast intro: frame_plain)
  ultimately show "and_then (on_host (get_conn i) (put_conn i) (TcpDomainConnection_AsyncWrite_string msg nt) t)
        (\<lambda>_ s. (Inr (), s)) =
      and_then (on_host (get_conn i) (put_conn i) (TcpPeerConnection_AsyncWrite_string msg nt) t) (\<lambda>_ s. (Inr (), s))
    \<and> all_plain (snd (and_then (on_host (get_conn i) (put_conn i) (TcpPeerConnection_AsyncWrite_string msg nt) t)
        (\<lambda>_ s. (Inr (), s))))"
    by (auto simp: and_then_def split: prod.split sum.split)
qed

lemma server_step_plain:
  assumes "server_app_frame e" and "server_step e s s'" and "all_plain s" and "srv_open s \<noteq> None"
  shows "all_plain s' \<and> srv_open s' \<noteq> None"
  using assms(1,2)
proof (cases rule: server_step_frame)
  case frame
  with assms(3,4) frame_plain show ?thesis by (auto simp: srv_frame_def)
next
  case (accepted i ec r)
  from accept_handler_outcome [OF assms(1) _ accepted(2)] assms(3,4) show ?thesis
    by (simp add: all_plain_def)
qed

lemma unix_step_tcp:
  assumes step: "unix_server_step e s s'" and plain: "all_plain s"
  shows "server_step e s s'"
  using step
proof (cases rule: unix_server_step.cases)
  case (accepted i ec r)
  then show ?thesis by (simp add: unix_accept_eqs server_step.accepted)
next
  case (read bs i r)
  then show ?thesis by (auto simp: domain_read_eq unix_callback_eqs intro: server_step.conn conn_step.read)
next
  case (read_failed i slot slots n ec r)
  then show ?thesis by (auto simp: domain_read_eq unix_callback_eqs intro: server_step.conn conn_step.read_failed)
next
  case (wrote i ec n r)
  then have *: "on_host (get_conn i) (put_conn i) (tcp_write_completed ec n) s = (r, s')"
    using all_plain_get [OF plain, of i] by (simp add: on_host_def domain_completed_eq)
  show ?thesis by (intro server_step.conn conn_step.wrote [OF *])
next
  case (broadcast msg nt r)
  then have *: "TcpServer_SendMessageToAllPeers msg nt s = (r, s')"
    using unix_send_eq [OF plain, of msg nt] by simp
  show ?thesis by (intro server_step.conn conn_step.broadcast [OF *])
qed

lemma unix_steps_tcp:
  assumes "server_app_frame e" and "(unix_server_step e)\<^sup>*\<^sup>* s0 s" and "all_plain s0" and "srv_open s0 \<noteq> None"
  shows "(server_step e)\<^sup>*\<^sup>* s0 s \<and> all_plain s \<and> srv_open s \<noteq> None"
  using assms(2)
proof (induction rule: rtranclp_induct)
  case base
  with assms(3,4) show ?case by simp
next
  case (step s t)
  then have *: "server_step e s t" using unix_step_tcp by blast
  with step.IH server_step_plain [OF assms(1) *] show ?case by (auto intro: rtranclp.rtrancl_into_rtrancl)
qed

lemma unix_start_state:
  assumes "UnixServer_Start delete bind (UnixServer_new path acc rd heap n, files) = (Inr (), (s, files'))"
  shows "srv_inv s \<and> srv_heap s = heap(n := TcpDomainConnection_new (Some On_error)) \<and> srv_next s = n + 1
    \<and> srv_accepting s = [n]"
  using assms
  by (auto simp: UnixServer_Start_def UnixServer_new_def UnixServer_AsyncAccept_def srv_inv_def put_conn_def
      Let_def split: sum.splits)

section \<open>Properties\<close>

text \<open>
  C17: A UNIX domain server is a plain TCP server that listens on a path: every run of it from a
  successful start is a run of the TCP server, so it has at most one accept outstanding and lists every
  connection at most once.
\<close>

theorem unix_server_refines:
  assumes "server_app_frame e" and "\<And>i. tcp_class (heap i) = Plain"
    and "UnixServer_Start delete bind (UnixServer_new path acc rd heap n, files) = (Inr (), (s0, files'))"
    and "(unix_server_step e)\<^sup>*\<^sup>* s0 s"
  shows "(server_step e)\<^sup>*\<^sup>* s0 s \<and> length (srv_accepting s) \<le> 1
    \<and> distinct (srv_connections s @ srv_accepting s) \<and> \<not> srv_locked s"
proof -
  note s0 = unix_start_state [OF assms(3)]
  with assms(2) have "all_plain s0" by (simp add: all_plain_def TcpDomainConnection_new_def)
  with unix_steps_tcp [OF assms(1,4)] s0 have run: "(server_step e)\<^sup>*\<^sup>* s0 s" by (simp add: srv_inv_def)
  then have "srv_inv s"
    using s0 by (induction rule: rtranclp_induct) (auto intro: server_step_inv [OF assms(1)])
  with run show ?thesis by (simp add: srv_inv_def)
qed

text \<open>A file system whose only law is that binding makes the file, and fails on one that exists.\<close>

definition fs_delete :: "string \<Rightarrow> string set \<Rightarrow> string set" where
  "fs_delete p files = files - {p}"

definition fs_bind :: "string \<Rightarrow> string set \<Rightarrow> fault + string set" where
  "fs_bind p files = (if p \<in> files then Inl (SystemError 98) else Inr (insert p files))"

definition quiet_unix :: "(string, string) server_env" where
  "quiet_unix = \<lparr>env_nd = False, env_accept = (\<lambda>i s. (Inr (), s)), env_read = (\<lambda>i n s. (Inr (), s)),
     env_is_open = (\<lambda>as. Close_socket \<notin> set as), env_close_throws = (\<lambda>as. None),
     env_bind_throws = (\<lambda>a. None), env_context_throws = (\<lambda>made a. None)\<rparr>"

definition unix_example :: unix_server where
  "unix_example = UnixServer_new ''/tmp/s'' True True (\<lambda>i. TcpDomainConnection_new None) 0"

theorem unix_server_refines_witness:
  "let s0 = fst (snd (UnixServer_Start fs_delete fs_bind (unix_example, {''/tmp/s''})));
       s = snd (UnixServer_AcceptHandler quiet_unix 0 no_error (s0\<lparr>srv_accepting := []\<rparr>))
   in (server_step quiet_unix)\<^sup>*\<^sup>* s0 s \<and> length (srv_accepting s) \<le> 1"
proof -
  let ?start = "UnixServer_Start fs_delete fs_bind (unix_example, {''/tmp/s''})"
  let ?s0 = "fst (snd ?start)"
  let ?run = "UnixServer_AcceptHandler quiet_unix 0 no_error (?s0\<lparr>srv_accepting := []\<rparr>)"
  have s0: "?start = (Inr (), (?s0, snd (snd ?start)))"
    by (simp add: UnixServer_Start_def fs_delete_def fs_bind_def UnixServer_AsyncAccept_def unix_example_def
        UnixServer_new_def Let_def)
  have acc: "srv_accepting ?s0 = [0]"
    using unix_start_state [OF s0 [unfolded unix_example_def]] by (simp add: unix_example_def)
  have "unix_server_step quiet_unix ?s0 (snd ?run)"
    by (rule unix_server_step.accepted [where i = 0 and ec = no_error and r = "fst ?run"]) (simp_all add: acc)
  with unix_server_refines [of quiet_unix "\<lambda>i. TcpDomainConnection_new None" fs_delete fs_bind "''/tmp/s''" True True 0
      "{''/tmp/s''}" ?s0 "snd (snd ?start)" "snd ?run"] s0
  show ?thesis
    by (auto simp: server_app_frame_def quiet_unix_def unix_example_def TcpDomainConnection_new_def
        Let_def)
qed

text \<open>
  Starting a UNIX domain server removes whatever file is at its path first, so a socket left behind
  by an earlier process does not make it fail: it ends listening on the path with one accept
  outstanding. By the same step a second server started on the path of a first one takes the path over
  from it without an error.
\<close>

lemma unix_start_replaces:
  assumes "\<And>p fs. delete p fs = fs - {p}" and "\<And>p fs. p \<notin> fs \<Longrightarrow> bind p fs = Inr (insert p fs)"
  shows "\<exists>s t. UnixServer_Start delete bind (UnixServer_new path acc rd heap n, files) = (Inr (), (s, insert path files))
    \<and> srv_open s = Some True \<and> srv_accepting s = [n]
    \<and> UnixServer_Start delete bind (UnixServer_new path acc' rd' heap' m, insert path files) =
        (Inr (), (t, insert path files)) \<and> srv_accepting t = [m]"
  by (simp add: assms UnixServer_Start_def UnixServer_AsyncAccept_def UnixServer_new_def put_conn_def Let_def)

lemma unix_start_replaces_witness:
  "fst (UnixServer_Start fs_delete fs_bind (unix_example, {''/tmp/s'', ''/etc''})) = Inr ()"
  using unix_start_replaces [of fs_delete fs_bind "''/tmp/s''" True True "\<lambda>i. TcpDomainConnection_new None" 0
      "{''/tmp/s'', ''/etc''}" True True "\<lambda>i. TcpDomainConnection_new None" 1]
  by (auto simp: fs_delete_def fs_bind_def unix_example_def)

end
