(* ===== verification/IoRegistry.thy ===== *)
theory IoRegistry
  imports SecureServ UnixServ
begin

text \<open>
  The servers of the services object (\<open>IoServicesImpl.cpp\<close>): a vector of TCP servers found by their port
  and one of UNIX servers found by their path. A server is an element of its vector, so it is moved when
  the vector grows.
\<close>

section \<open>The vectors\<close>

text \<open>
  \<open>emplace_back\<close>: with no spare capacity the elements are moved to a new allocation, whose capacity is
  the library's choice \<open>grow\<close>.
\<close>

definition vector_emplace_back :: "(nat \<Rightarrow> nat) \<Rightarrow> ('a \<Rightarrow> 'a) \<Rightarrow> 'a \<Rightarrow> 'a list \<times> nat \<Rightarrow> 'a list \<times> nat" where
  "vector_emplace_back grow moved x = (\<lambda>(xs, cap).
     if length xs < cap then (xs @ [x], cap) else (map moved xs @ [x], grow cap))"

text \<open>\<open>std::find_if\<close> followed by an operation on what it found.\<close>

fun with_first ::
  "('a \<Rightarrow> bool) \<Rightarrow> ('a \<Rightarrow> ('b, 'a) outcome) \<Rightarrow> 'a list \<Rightarrow> ('b, 'a list) outcome option" where
  "with_first found f [] = None"
| "with_first found f (x # xs) =
     (if found x then Some (case f x of (r, y) \<Rightarrow> (r, y # xs))
      else map_option (\<lambda>(r, ys). (r, x # ys)) (with_first found f xs))"

text \<open>A loop over a vector that ends with the first exception.\<close>

fun for_all :: "('a \<Rightarrow> (unit, 'a) outcome) \<Rightarrow> 'a list \<Rightarrow> (unit, 'a list) outcome" where
  "for_all f [] = (Inr (), [])"
| "for_all f (x # xs) =
     (case f x of
        (Inl e, y) \<Rightarrow> (Inl e, y # xs)
      | (Inr _, y) \<Rightarrow> (case for_all f xs of (r, ys) \<Rightarrow> (r, y # ys)))"

record registry =
  tcpServers :: "tcp_server list"
  tcpCapacity :: nat
  unixServers :: "unix_server list"
  unixCapacity :: nat
  registry_files :: "string set"

definition registry_new :: registry where
  "registry_new = \<lparr>tcpServers = [], tcpCapacity = 0, unixServers = [], unixCapacity = 0, registry_files = {}\<rparr>"

section \<open>Operations\<close>

definition IoServicesImpl_AddTcpServer ::
  "(nat \<Rightarrow> nat) \<Rightarrow> tcp_server \<Rightarrow> registry \<Rightarrow> (unit, registry) outcome" where
  "IoServicesImpl_AddTcpServer grow s r =
     (if \<exists>t \<in> set (tcpServers r). TcpServer_GetPort t = TcpServer_GetPort s
      then (Inl (RuntimeError ''Server already on port''), r)
      else
        let (ss, cap) = vector_emplace_back grow (\<lambda>t. fst (TcpServer_move t)) s (tcpServers r, tcpCapacity r)
        in (Inr (), r\<lparr>tcpServers := ss, tcpCapacity := cap\<rparr>))"

definition IoServicesImpl_StartTcpServer ::
  "(c_int, end_point) server_env \<Rightarrow> c_int \<Rightarrow> registry \<Rightarrow> (unit, registry) outcome" where
  "IoServicesImpl_StartTcpServer e port r =
     (case with_first (\<lambda>t. TcpServer_GetPort t = port) (TcpServer_Start e) (tcpServers r) of
        None \<Rightarrow> (Inl (RuntimeError (''No server for port: '' @ show_c_int port)), r)
      | Some (x, ss) \<Rightarrow> (x, r\<lparr>tcpServers := ss\<rparr>))"

definition IoServicesImpl_StartTcpServer_secure ::
  "(c_int, end_point) server_env \<Rightarrow> c_int \<Rightarrow> security_options \<Rightarrow> registry \<Rightarrow> (unit, registry) outcome" where
  "IoServicesImpl_StartTcpServer_secure e port security r =
     (case with_first (\<lambda>t. TcpServer_GetPort t = port) (TcpServer_Start_secure e security) (tcpServers r) of
        None \<Rightarrow> (Inl (RuntimeError (''No secure server for port: '' @ show_c_int port)), r)
      | Some (x, ss) \<Rightarrow> (x, r\<lparr>tcpServers := ss\<rparr>))"

definition IoServicesImpl_SendToAllServerConnections ::
  "byte list \<Rightarrow> bool \<Rightarrow> registry \<Rightarrow> (unit, registry) outcome" where
  "IoServicesImpl_SendToAllServerConnections msg nullTerminate r =
     (case for_all (TcpServer_SendMessageToAllPeers msg nullTerminate) (tcpServers r) of
        (x, ss) \<Rightarrow> (x, r\<lparr>tcpServers := ss\<rparr>))"

definition IoServicesImpl_AddUnixServer ::
  "(nat \<Rightarrow> nat) \<Rightarrow> unix_server \<Rightarrow> registry \<Rightarrow> (unit, registry) outcome" where
  "IoServicesImpl_AddUnixServer grow s r =
     (if \<exists>t \<in> set (unixServers r). UnixServer_GetPath t = UnixServer_GetPath s
      then (Inl (RuntimeError ''Server already on port''), r)
      else
        let (ss, cap) = vector_emplace_back grow (\<lambda>t. fst (UnixServer_move t)) s (unixServers r, unixCapacity r)
        in (Inr (), r\<lparr>unixServers := ss, unixCapacity := cap\<rparr>))"

text \<open>The file system changes with the server, also when starting it throws.\<close>

definition start_in ::
  "(unix_server \<times> string set \<Rightarrow> (unit, unix_server \<times> string set) outcome) \<Rightarrow> string set \<Rightarrow> unix_server \<Rightarrow>
   ((fault + unit) \<times> string set, unix_server) outcome" where
  "start_in start files s = (case start (s, files) of (x, (s', files')) \<Rightarrow> (Inr (x, files'), s'))"

definition IoServicesImpl_StartUnixServer ::
  "(string \<Rightarrow> string set \<Rightarrow> string set) \<Rightarrow> (string \<Rightarrow> string set \<Rightarrow> fault + string set) \<Rightarrow> string \<Rightarrow>
   registry \<Rightarrow> (unit, registry) outcome" where
  "IoServicesImpl_StartUnixServer delete bind path r =
     (case with_first (\<lambda>t. UnixServer_GetPath t = path) (start_in (UnixServer_Start delete bind) (registry_files r))
             (unixServers r) of
        None \<Rightarrow> (Inl (RuntimeError (''No server for path: '' @ path)), r)
      | Some (Inl f, ss) \<Rightarrow> (Inl f, r\<lparr>unixServers := ss\<rparr>)
      | Some (Inr (x, files), ss) \<Rightarrow> (x, r\<lparr>unixServers := ss, registry_files := files\<rparr>))"

text \<open>The public class makes these calls for the application.\<close>

definition IoServices_AddTcpServer ::
  "(nat \<Rightarrow> nat) \<Rightarrow> tcp_server \<Rightarrow> registry \<Rightarrow> (unit, registry) outcome" where
  "IoServices_AddTcpServer grow s r = IoServicesImpl_AddTcpServer grow s r"

definition IoServices_StartTcpServer ::
  "(c_int, end_point) server_env \<Rightarrow> c_int \<Rightarrow> registry \<Rightarrow> (unit, registry) outcome" where
  "IoServices_StartTcpServer e port r = IoServicesImpl_StartTcpServer e port r"

definition IoServices_StartTcpServer_secure ::
  "(c_int, end_point) server_env \<Rightarrow> c_int \<Rightarrow> security_options \<Rightarrow> registry \<Rightarrow> (unit, registry) outcome" where
  "IoServices_StartTcpServer_secure e port security r = IoServicesImpl_StartTcpServer_secure e port security r"

definition IoServices_SendToAllServerConnections ::
  "byte list \<Rightarrow> bool \<Rightarrow> registry \<Rightarrow> (unit, registry) outcome" where
  "IoServices_SendToAllServerConnections msg nullTerminate r =
     IoServicesImpl_SendToAllServerConnections msg nullTerminate r"

definition IoServices_AddUnixServer ::
  "(nat \<Rightarrow> nat) \<Rightarrow> unix_server \<Rightarrow> registry \<Rightarrow> (unit, registry) outcome" where
  "IoServices_AddUnixServer grow s r = IoServicesImpl_AddUnixServer grow s r"

definition IoServices_StartUnixServer ::
  "(string \<Rightarrow> string set \<Rightarrow> string set) \<Rightarrow> (string \<Rightarrow> string set \<Rightarrow> fault + string set) \<Rightarrow> string \<Rightarrow>
   registry \<Rightarrow> (unit, registry) outcome" where
  "IoServices_StartUnixServer delete bind path r = IoServicesImpl_StartUnixServer delete bind path r"

section \<open>The interface of a server vector\<close>

text \<open>
  What the registry needs of an element: a key that a move keeps, and a condition that it keeps too.
\<close>

locale server_vector =
  fixes key :: "'s \<Rightarrow> 'k" and moved :: "'s \<Rightarrow> 's" and ok :: "'s \<Rightarrow> bool"
  assumes key_moved: "key (moved s) = key s" and ok_moved: "ok s \<Longrightarrow> ok (moved s)"
begin

definition vector_ok :: "'s list \<Rightarrow> bool" where
  "vector_ok ss \<longleftrightarrow> distinct (map key ss) \<and> (\<forall>s \<in> set ss. ok s)"

lemma emplace_ok:
  assumes "vector_ok ss" and "ok s" and "\<And>t. t \<in> set ss \<Longrightarrow> key t \<noteq> key s"
  shows "vector_ok (fst (vector_emplace_back grow moved s (ss, cap)))"
proof -
  have "key s \<notin> key ` set ss" using assms(3) by force
  moreover have "distinct (map (\<lambda>x. key (moved x)) ss)" using assms(1) by (simp add: key_moved vector_ok_def)
  moreover have "key s \<notin> key ` moved ` set ss" using assms(3) by (force simp: key_moved)
  ultimately show ?thesis
    using assms(1,2) by (auto simp: vector_ok_def vector_emplace_back_def ok_moved comp_def)
qed

lemma with_first_split:
  assumes "with_first found f ss = Some (r, ts)"
  obtains us s vs s' where "ss = us @ s # vs" and "ts = us @ s' # vs" and "found s" and "f s = (r, s')"
    and "\<And>t. t \<in> set us \<Longrightarrow> \<not> found t"
  using assms
proof (induction ss arbitrary: ts thesis)
  case (Cons x xs)
  show ?case
  proof (cases "found x")
    case True
    with Cons.prems(2) show ?thesis by (auto intro: Cons.prems(1) [of "[]"] split: prod.splits)
  next
    case False
    with Cons.prems(2) obtain ys where "with_first found f xs = Some (r, ys)" "ts = x # ys" by auto
    from Cons.IH [OF _ this(1)] this(2) False Cons.prems(1) [of "x # us" for us] show ?thesis
      by (metis append_Cons set_ConsD)
  qed
qed simp

lemma with_first_none: "with_first found f ss = None \<longleftrightarrow> (\<forall>s \<in> set ss. \<not> found s)"
  by (induction ss) auto

lemma replaced_ok:
  assumes "vector_ok (us @ s # vs)" and "key s' = key s" and "ok s'"
  shows "vector_ok (us @ s' # vs)"
  using assms by (auto simp: vector_ok_def)

lemma for_all_ok:
  assumes "vector_ok ss" and "\<And>s. s \<in> set ss \<Longrightarrow> key (snd (f s)) = key s \<and> (ok s \<longrightarrow> ok (snd (f s)))"
  shows "vector_ok (snd (for_all f ss))"
proof -
  have "map key (snd (for_all f ss)) = map key ss \<and> ((\<forall>s \<in> set ss. ok s) \<longrightarrow> (\<forall>s \<in> set (snd (for_all f ss)). ok s))"
    using assms(2)
  proof (induction ss)
    case (Cons x xs)
    obtain r y where y: "f x = (r, y)" by fastforce
    obtain q ys where ys: "for_all f xs = (q, ys)" by fastforce
    from Cons.prems [of x] y have "key y = key x" "ok x \<longrightarrow> ok y" by simp_all
    with Cons.IH Cons.prems y ys show ?case by (cases r) auto
  qed simp
  with assms(1) show ?thesis by (auto simp: vector_ok_def)
qed

end

text \<open>A server of the vector: one that was started satisfies the invariant of a running server.\<close>

definition server_ok :: "('at, 'ep) server \<Rightarrow> bool" where
  "server_ok s \<longleftrightarrow> \<not> srv_locked s \<and> (if srv_open s = None then srv_accepting s = [] \<and> srv_connections s = [] else srv_inv s)"

definition unix_ok :: "unix_server \<Rightarrow> bool" where
  "unix_ok s \<longleftrightarrow> server_ok s \<and> all_plain s"

lemma server_ok_lists:
  "server_ok s \<Longrightarrow> length (srv_accepting s) \<le> Suc 0" "server_ok s \<Longrightarrow> distinct (srv_connections s)"
  "server_ok s \<Longrightarrow> distinct (srv_accepting s)"
  "server_ok s \<Longrightarrow> set (srv_connections s) \<inter> set (srv_accepting s) = {}" "server_ok s \<Longrightarrow> \<not> srv_locked s"
  by (auto simp: server_ok_def srv_inv_def split: if_splits)

lemma server_ok_moved: "server_ok s \<Longrightarrow> server_ok (fst (TcpServer_move s))"
  by (auto simp: server_ok_def srv_inv_def TcpServer_move_def split: if_splits)

interpretation tcp_vector: server_vector TcpServer_GetPort "\<lambda>t. fst (TcpServer_move t)" server_ok
proof
  show "TcpServer_GetPort (fst (TcpServer_move s)) = TcpServer_GetPort s" for s
    by (simp add: TcpServer_GetPort_def TcpServer_move_def)
qed (rule server_ok_moved)

interpretation unix_vector: server_vector UnixServer_GetPath "\<lambda>t. fst (UnixServer_move t)" unix_ok
proof
  show "UnixServer_GetPath (fst (UnixServer_move s)) = UnixServer_GetPath s" for s
    by (simp add: UnixServer_GetPath_def UnixServer_move_def)
  show "unix_ok (fst (UnixServer_move s))" if "unix_ok s" for s
    using that by (auto simp: unix_ok_def server_ok_def srv_inv_def all_plain_def UnixServer_move_def split: if_splits)
qed

section \<open>Runs\<close>

text \<open>
  The calls on the services object and the steps of its running servers. A port in use cannot be bound:
  starting a server that is already open throws. A new server's store of connections is empty, so its
  kind is arbitrary for TCP and plain for UNIX.
\<close>

inductive registry_step ::
  "(nat \<Rightarrow> nat) \<Rightarrow> (c_int \<Rightarrow> (c_int, end_point) server_env) \<Rightarrow> (string \<Rightarrow> (string, string) server_env) \<Rightarrow>
   registry \<Rightarrow> registry \<Rightarrow> bool" for grow tcp_env unix_env where
  add_tcp: "IoServicesImpl_AddTcpServer grow (TcpServer_new port acc rd heap n) r = (x, r') \<Longrightarrow>
    registry_step grow tcp_env unix_env r r'"
| start_tcp: "(\<And>s. s \<in> set (tcpServers r) \<Longrightarrow> srv_at s = port \<Longrightarrow> srv_open s \<noteq> None \<Longrightarrow>
      env_bind_throws (tcp_env port) port \<noteq> None) \<Longrightarrow>
    IoServicesImpl_StartTcpServer (tcp_env port) port r = (x, r') \<Longrightarrow>
    registry_step grow tcp_env unix_env r r'"
| send_all: "IoServicesImpl_SendToAllServerConnections msg nt r = (x, r') \<Longrightarrow>
    registry_step grow tcp_env unix_env r r'"
| tcp_ran: "tcpServers r = us @ s # vs \<Longrightarrow> srv_open s \<noteq> None \<Longrightarrow> server_step (tcp_env (srv_at s)) s s' \<Longrightarrow>
    registry_step grow tcp_env unix_env r (r\<lparr>tcpServers := us @ s' # vs\<rparr>)"
| add_unix: "(\<And>i. tcp_class (heap' i) = Plain) \<Longrightarrow>
    IoServicesImpl_AddUnixServer grow (UnixServer_new path acc rd heap' n) r = (x, r') \<Longrightarrow>
    registry_step grow tcp_env unix_env r r'"
| start_unix: "(\<And>s files. s \<in> set (unixServers r) \<Longrightarrow> srv_at s = path \<Longrightarrow> srv_open s \<noteq> None \<Longrightarrow>
      \<exists>f. bind path files = Inl f) \<Longrightarrow>
    IoServicesImpl_StartUnixServer delete bind path r = (x, r') \<Longrightarrow>
    registry_step grow tcp_env unix_env r r'"
| unix_ran: "unixServers r = us' @ u # vs' \<Longrightarrow> srv_open u \<noteq> None \<Longrightarrow> unix_server_step (unix_env (srv_at u)) u u' \<Longrightarrow>
    registry_step grow tcp_env unix_env r (r\<lparr>unixServers := us' @ u' # vs'\<rparr>)"

definition registry_ok :: "registry \<Rightarrow> bool" where
  "registry_ok r \<longleftrightarrow> tcp_vector.vector_ok (tcpServers r) \<and> unix_vector.vector_ok (unixServers r)"

lemma tcp_start_ok:
  assumes "TcpServer_Start e s = (x, s')" and "server_ok s"
    and "srv_open s \<noteq> None \<Longrightarrow> env_bind_throws e (srv_at s) \<noteq> None"
  shows "TcpServer_GetPort s' = TcpServer_GetPort s \<and> server_ok s'"
proof (cases "srv_open s")
  case None
  with assms(1,2) show ?thesis
    by (auto simp: TcpServer_Start_def TcpServer_AsyncAccept_def TcpServer_GetPort_def server_ok_def srv_inv_def
        put_conn_def Let_def split: option.splits)
next
  case (Some b)
  then obtain f where "env_bind_throws e (srv_at s) = Some f" using assms(3) by auto
  with assms(1,2) show ?thesis by (simp add: TcpServer_Start_def)
qed

lemma unix_start_ok:
  assumes "UnixServer_Start delete bind (s, files) = (x, (s', files'))" and "unix_ok s"
    and "\<And>files. srv_open s \<noteq> None \<Longrightarrow> \<exists>f. bind (srv_at s) files = Inl f"
  shows "UnixServer_GetPath s' = UnixServer_GetPath s \<and> unix_ok s'"
proof (cases "srv_open s")
  case None
  with assms(1,2) show ?thesis
    by (auto simp: UnixServer_Start_def UnixServer_AsyncAccept_def UnixServer_GetPath_def unix_ok_def server_ok_def
        srv_inv_def put_conn_def all_plain_def TcpDomainConnection_new_def Let_def split: sum.splits)
next
  case (Some b)
  then obtain f where "bind (srv_at s) (delete (srv_at s) files) = Inl f" using assms(3) by fastforce
  with assms(1,2) show ?thesis by (simp add: UnixServer_Start_def Let_def)
qed

lemma server_step_ok:
  assumes "server_app_frame e" and "server_step e s s'" and "server_ok s" and "srv_open s \<noteq> None"
  shows "TcpServer_GetPort s' = TcpServer_GetPort s \<and> server_ok s'"
proof -
  have "srv_inv s" using assms(3,4) by (auto simp: server_ok_def split: if_splits)
  then have "srv_inv s'" by (rule server_step_inv [OF assms(1,2)])
  moreover from assms(1,2) have "srv_at s' = srv_at s"
  proof (cases rule: server_step_frame)
    case frame
    then show ?thesis by (simp add: srv_frame_def)
  next
    case (accepted i ec r)
    from accept_handler_outcome [OF assms(1) _ accepted(2)] assms(4) show ?thesis by simp
  qed
  ultimately show ?thesis by (auto simp: server_ok_def TcpServer_GetPort_def srv_inv_def)
qed

lemma unix_step_ok:
  assumes "server_app_frame e" and "unix_server_step e s s'" and "unix_ok s" and "srv_open s \<noteq> None"
  shows "UnixServer_GetPath s' = UnixServer_GetPath s \<and> unix_ok s'"
proof -
  have p: "all_plain s" using assms(3) by (simp add: unix_ok_def)
  have step: "server_step e s s'" by (rule unix_step_tcp [OF assms(2) p])
  show ?thesis
    using server_step_ok [OF assms(1) step _ assms(4)] server_step_plain [OF assms(1) step p assms(4)] assms(3)
    by (simp add: unix_ok_def UnixServer_GetPath_def TcpServer_GetPort_def)
qed

lemma send_ok:
  assumes "server_ok s"
  shows "TcpServer_GetPort (snd (TcpServer_SendMessageToAllPeers msg nt s)) = TcpServer_GetPort s
    \<and> server_ok (snd (TcpServer_SendMessageToAllPeers msg nt s))"
  using assms broadcast_frame [of s msg nt]
  by (auto simp: server_ok_def srv_inv_def srv_frame_def TcpServer_GetPort_def split: if_splits)

lemma registry_step_ok:
  assumes "\<And>p. server_app_frame (tcp_env p)" and "\<And>p. server_app_frame (unix_env p)"
    and "registry_step grow tcp_env unix_env r r'" and ok: "registry_ok r"
  shows "registry_ok r'"
  using assms(3)
proof (cases rule: registry_step.cases)
  case (add_tcp port acc rd heap n x)
  have "server_ok (TcpServer_new port acc rd heap n)" by (simp add: server_ok_def TcpServer_new_def)
  with tcp_vector.emplace_ok [of "tcpServers r" "TcpServer_new port acc rd heap n" grow "tcpCapacity r"] add_tcp ok
  show ?thesis
    by (auto simp: IoServicesImpl_AddTcpServer_def registry_ok_def split: if_splits prod.splits dest: arg_cong [of _ _ fst])
next
  case (start_tcp port x)
  show ?thesis
  proof (cases "with_first (\<lambda>t. TcpServer_GetPort t = port) (TcpServer_Start (tcp_env port)) (tcpServers r)")
    case None
    with start_tcp ok show ?thesis by (simp add: IoServicesImpl_StartTcpServer_def)
  next
    case (Some q)
    then obtain y ss where q: "q = (y, ss)" by fastforce
    from tcp_vector.with_first_split [OF Some [unfolded q]] obtain us s vs s' where
      s: "tcpServers r = us @ s # vs" "ss = us @ s' # vs" "TcpServer_GetPort s = port"
        "TcpServer_Start (tcp_env port) s = (y, s')" by metis
    then have "TcpServer_GetPort s' = TcpServer_GetPort s \<and> server_ok s'"
      using start_tcp(1) [of s] ok
      by (intro tcp_start_ok [OF s(4)]) (auto simp: registry_ok_def tcp_vector.vector_ok_def TcpServer_GetPort_def)
    with tcp_vector.replaced_ok [of us s vs s'] s ok have "tcp_vector.vector_ok ss" by (simp add: registry_ok_def)
    with Some q start_tcp ok show ?thesis by (auto simp: IoServicesImpl_StartTcpServer_def registry_ok_def)
  qed
next
  case (send_all msg nt x)
  have "tcp_vector.vector_ok (snd (for_all (TcpServer_SendMessageToAllPeers msg nt) (tcpServers r)))"
    by (rule tcp_vector.for_all_ok) (use ok send_ok in \<open>auto simp: registry_ok_def tcp_vector.vector_ok_def\<close>)
  with send_all ok show ?thesis
    by (auto simp: IoServicesImpl_SendToAllServerConnections_def registry_ok_def split: prod.splits)
next
  case (tcp_ran us s vs s')
  with server_step_ok [OF assms(1) tcp_ran(4)] tcp_vector.replaced_ok [of us s vs s'] ok show ?thesis
    by (simp add: registry_ok_def tcp_vector.vector_ok_def)
next
  case (add_unix heap' path acc rd n x)
  have "unix_ok (UnixServer_new path acc rd heap' n)"
    using add_unix(1) by (simp add: unix_ok_def server_ok_def UnixServer_new_def all_plain_def)
  with unix_vector.emplace_ok [of "unixServers r" "UnixServer_new path acc rd heap' n" grow "unixCapacity r"] add_unix ok
  show ?thesis
    by (auto simp: IoServicesImpl_AddUnixServer_def registry_ok_def split: if_splits prod.splits dest: arg_cong [of _ _ fst])
next
  case (start_unix path bind delete x)
  show ?thesis
  proof (cases "with_first (\<lambda>t. UnixServer_GetPath t = path)
      (start_in (UnixServer_Start delete bind) (registry_files r)) (unixServers r)")
    case None
    with start_unix ok show ?thesis by (simp add: IoServicesImpl_StartUnixServer_def)
  next
    case (Some q)
    then obtain y ss where q: "q = (y, ss)" by fastforce
    from unix_vector.with_first_split [OF Some [unfolded q]] obtain us s vs s' where
      s: "unixServers r = us @ s # vs" "ss = us @ s' # vs" "UnixServer_GetPath s = path"
        "start_in (UnixServer_Start delete bind) (registry_files r) s = (y, s')" by metis
    from s(4) obtain z files where run: "UnixServer_Start delete bind (s, registry_files r) = (z, (s', files))"
      and y: "y = Inr (z, files)" by (auto simp: start_in_def split: prod.splits)
    have "UnixServer_GetPath s' = UnixServer_GetPath s \<and> unix_ok s'"
      using start_unix(1) [of s] ok s(1,3)
      by (intro unix_start_ok [OF run]) (auto simp: registry_ok_def unix_vector.vector_ok_def UnixServer_GetPath_def)
    with unix_vector.replaced_ok [of us s vs s'] s ok have "unix_vector.vector_ok ss" by (simp add: registry_ok_def)
    with Some q y start_unix ok show ?thesis by (auto simp: IoServicesImpl_StartUnixServer_def registry_ok_def)
  qed
next
  case (unix_ran us' u vs' u')
  with unix_step_ok [OF assms(2) unix_ran(4)] unix_vector.replaced_ok [of us' u vs' u'] ok show ?thesis
    by (simp add: registry_ok_def unix_vector.vector_ok_def)
qed

lemma registry_steps_ok:
  assumes "\<And>p. server_app_frame (tcp_env p)" and "\<And>p. server_app_frame (unix_env p)"
    and "(registry_step grow tcp_env unix_env)\<^sup>*\<^sup>* registry_new r"
  shows "registry_ok r"
  using assms(3)
proof (induction rule: rtranclp_induct)
  case base
  show ?case by (simp add: registry_ok_def registry_new_def tcp_vector.vector_ok_def unix_vector.vector_ok_def)
next
  case (step s t)
  show ?case by (rule registry_step_ok [OF assms(1,2) step.hyps(2) step.IH])
qed

section \<open>Properties\<close>


text \<open>Two servers are added and the first is started; the vector grows by one.\<close>

definition two_servers :: registry where
  "two_servers = snd (IoServicesImpl_AddTcpServer Suc (TcpServer_new 81 True True no_conns 0)
     (snd (IoServicesImpl_StartTcpServer quiet_env 80
        (snd (IoServicesImpl_AddTcpServer Suc (TcpServer_new 80 True True no_conns 0) registry_new)))))"

lemma two_servers_reach: "(registry_step Suc (\<lambda>_. quiet_env) (\<lambda>_. quiet_unix))\<^sup>*\<^sup>* registry_new two_servers"
proof -
  let ?one = "snd (IoServicesImpl_AddTcpServer Suc (TcpServer_new 80 True True no_conns 0) registry_new)"
  let ?run = "snd (IoServicesImpl_StartTcpServer quiet_env 80 ?one)"
  have add: "registry_step Suc (\<lambda>_. quiet_env) (\<lambda>_. quiet_unix) registry_new ?one"
    by (rule registry_step.add_tcp) (rule surjective_pairing)
  have start: "registry_step Suc (\<lambda>_. quiet_env) (\<lambda>_. quiet_unix) ?one ?run"
  proof (rule registry_step.start_tcp)
    show "IoServicesImpl_StartTcpServer quiet_env 80 ?one = (fst (IoServicesImpl_StartTcpServer quiet_env 80 ?one), ?run)"
      by (rule surjective_pairing)
    show "env_bind_throws quiet_env 80 \<noteq> None" if "s \<in> set (tcpServers ?one)" "srv_open s \<noteq> None" for s
      using that by (auto simp: IoServicesImpl_AddTcpServer_def registry_new_def vector_emplace_back_def TcpServer_new_def)
  qed
  have again: "registry_step Suc (\<lambda>_. quiet_env) (\<lambda>_. quiet_unix) ?run two_servers"
    unfolding two_servers_def by (rule registry_step.add_tcp) (rule surjective_pairing)
  from add start have "(registry_step Suc (\<lambda>_. quiet_env) (\<lambda>_. quiet_unix))\<^sup>*\<^sup>* registry_new ?run"
    by (rule rtranclp.rtrancl_into_rtrancl [OF r_into_rtranclp [of "registry_step Suc (\<lambda>_. quiet_env) (\<lambda>_. quiet_unix)"]])
  from this again show ?thesis by (rule rtranclp.rtrancl_into_rtrancl)
qed


lemma with_first_at:
  "(\<And>u. u \<in> set us \<Longrightarrow> \<not> found u) \<Longrightarrow> found t \<Longrightarrow>
    with_first found f (us @ t # vs) = Some (case f t of (r, y) \<Rightarrow> (r, us @ y # vs))"
  by (induction us) (auto split: prod.split)

text \<open>
  Servers are found by their port. Adding one on a port that is taken throws and changes nothing;
  starting a port nobody was added on throws with the port in the message; otherwise exactly the one
  server with that port is started and every other server is left alone.
\<close>

lemma registry_by_port:
  assumes "registry_ok r"
  shows "((\<exists>t \<in> set (tcpServers r). srv_at t = srv_at s) \<longrightarrow>
      IoServicesImpl_AddTcpServer grow s r = (Inl (RuntimeError ''Server already on port''), r))
    \<and> ((\<forall>t \<in> set (tcpServers r). srv_at t \<noteq> port) \<longrightarrow>
      IoServicesImpl_StartTcpServer e port r = (Inl (RuntimeError (''No server for port: '' @ show_c_int port)), r))
    \<and> (\<forall>us t vs. tcpServers r = us @ t # vs \<and> srv_at t = port \<longrightarrow>
      IoServicesImpl_StartTcpServer e port r =
        (fst (TcpServer_Start e t), r\<lparr>tcpServers := us @ snd (TcpServer_Start e t) # vs\<rparr>))"
proof (intro conjI impI allI; (elim conjE)?)
  fix us t vs
  assume t: "tcpServers r = us @ t # vs" "srv_at t = port"
  have "distinct (map TcpServer_GetPort (us @ t # vs))"
    using assms t(1) by (simp add: registry_ok_def tcp_vector.vector_ok_def)
  then have "TcpServer_GetPort t \<notin> TcpServer_GetPort ` set us" by auto
  then have "srv_at u \<noteq> port" if "u \<in> set us" for u
    using that t(2) by (auto simp: TcpServer_GetPort_def image_iff)
  then have "with_first (\<lambda>t. TcpServer_GetPort t = port) (TcpServer_Start e) (us @ t # vs) =
      Some (case TcpServer_Start e t of (x, y) \<Rightarrow> (x, us @ y # vs))"
    using t(2) by (intro with_first_at) (auto simp: TcpServer_GetPort_def)
  with t show "IoServicesImpl_StartTcpServer e port r =
      (fst (TcpServer_Start e t), r\<lparr>tcpServers := us @ snd (TcpServer_Start e t) # vs\<rparr>)"
    by (simp add: IoServicesImpl_StartTcpServer_def split: prod.split)
next
  assume "\<forall>t \<in> set (tcpServers r). srv_at t \<noteq> port"
  then have "with_first (\<lambda>t. TcpServer_GetPort t = port) (TcpServer_Start e) (tcpServers r) = None"
    by (simp add: tcp_vector.with_first_none TcpServer_GetPort_def)
  then show "IoServicesImpl_StartTcpServer e port r =
      (Inl (RuntimeError (''No server for port: '' @ show_c_int port)), r)"
    by (simp add: IoServicesImpl_StartTcpServer_def)
qed (auto simp: IoServicesImpl_AddTcpServer_def TcpServer_GetPort_def)

lemma registry_by_port_witness:
  "IoServicesImpl_StartTcpServer quiet_env 90 two_servers = (Inl (RuntimeError ''No server for port: 90''), two_servers)"
proof -
  have "server_app_frame quiet_unix" by (simp add: server_app_frame_def quiet_unix_def)
  then have ok: "registry_ok two_servers" using registry_steps_ok [OF _ _ two_servers_reach] quiet_env_frame by blast
  have "srv_at t \<noteq> 90" if "t \<in> set (tcpServers two_servers)" for t
    using that by (auto simp: two_servers_def IoServicesImpl_AddTcpServer_def IoServicesImpl_StartTcpServer_def
        registry_new_def vector_emplace_back_def TcpServer_new_def TcpServer_GetPort_def TcpServer_Start_def
        TcpServer_AsyncAccept_def TcpServer_move_def put_conn_def quiet_env_def Let_def split: if_splits)
  moreover have "show_c_int 90 = ''90''" by code_simp
  ultimately show ?thesis using registry_by_port [OF ok, of "TcpServer_new 90 True True no_conns 0" Suc 90 quiet_env]
    by simp
qed

text \<open>
  All servers have to be added before one is started. Adding a server to a full vector moves the
  servers that are in it: one that was started stays open and keeps its connections, but the accept it
  had outstanding is bound to the object that was moved from and destroyed, so the moved server has none
  and accepts no client any more. With spare capacity nothing is moved.
\<close>

lemma add_after_start_moves:
  assumes "\<forall>t \<in> set (tcpServers r). srv_at t \<noteq> srv_at s" and "t \<in> set (tcpServers r)"
    and "IoServicesImpl_AddTcpServer grow s r = (x, r')"
  shows "x = Inr () \<and>
    (if length (tcpServers r) < tcpCapacity r then tcpServers r' = tcpServers r @ [s]
     else \<exists>t' \<in> set (tcpServers r'). srv_at t' = srv_at t \<and> srv_open t' = srv_open t
        \<and> srv_connections t' = srv_connections t \<and> srv_accepting t' = [])"
proof -
  have "IoServicesImpl_AddTcpServer grow s r =
      (let (ss, cap) = vector_emplace_back grow (\<lambda>t. fst (TcpServer_move t)) s (tcpServers r, tcpCapacity r)
       in (Inr (), r\<lparr>tcpServers := ss, tcpCapacity := cap\<rparr>))"
    using assms(1) by (auto simp: IoServicesImpl_AddTcpServer_def TcpServer_GetPort_def)
  with assms(2,3) show ?thesis
    by (auto simp: vector_emplace_back_def TcpServer_move_def intro!: bexI [of _ "fst (TcpServer_move t)"] image_eqI)
qed

lemma add_after_start_moves_witness:
  "\<exists>t' \<in> set (tcpServers two_servers). srv_at t' = 80 \<and> srv_open t' = Some True \<and> srv_accepting t' = []"
proof -
  let ?r = "snd (IoServicesImpl_StartTcpServer quiet_env 80
        (snd (IoServicesImpl_AddTcpServer Suc (TcpServer_new 80 True True no_conns 0) registry_new)))"
  have r: "tcpServers ?r = [started]" "tcpCapacity ?r = 1"
    using started_ok
    by (simp_all add: IoServicesImpl_AddTcpServer_def IoServicesImpl_StartTcpServer_def registry_new_def
        vector_emplace_back_def TcpServer_GetPort_def) (simp add: TcpServer_new_def)+
  have at: "srv_at started = 80" by (simp add: started_def TcpServer_Start_def quiet_env_def TcpServer_AsyncAccept_def
        TcpServer_new_def put_conn_def Let_def)
  obtain x where add: "IoServicesImpl_AddTcpServer Suc (TcpServer_new 81 True True no_conns 0) ?r = (x, two_servers)"
    by (metis two_servers_def prod.collapse)
  have new: "srv_at (TcpServer_new 81 True True no_conns 0) = 81" by (simp add: TcpServer_new_def)
  from add_after_start_moves [OF _ _ add, of started] show ?thesis
    by (auto simp: r at new started_accepting)
qed

end
