(* ===== verification/IoTimers.thy ===== *)
theory IoTimers
  imports WriteQueue
begin

text \<open>
  The timers of the services object (\<open>IoServices/PeriodicTimer.h\<close>, \<open>Timer.h\<close> and the timer part of
  \<open>IoServicesImpl.cpp\<close>): keys compared by their number only, and a periodic timer whose expiry handler
  waits for the next expiry itself.
\<close>

section \<open>Keys\<close>

datatype periodic_timer = PeriodicTimer (Id: c_int) (Name: string)

definition PeriodicTimer_eq :: "periodic_timer \<Rightarrow> periodic_timer \<Rightarrow> bool" where
  "PeriodicTimer_eq a b \<longleftrightarrow> Id a = Id b"

text \<open>The order is that of the signed numbers: a preorder, since the name does not count.\<close>

definition PeriodicTimer_less :: "periodic_timer \<Rightarrow> periodic_timer \<Rightarrow> bool" where
  "PeriodicTimer_less a b \<longleftrightarrow> sint (Id a) < sint (Id b)"

instantiation periodic_timer :: preorder
begin

definition less_eq_periodic_timer :: "periodic_timer \<Rightarrow> periodic_timer \<Rightarrow> bool" where
  "less_eq_periodic_timer a b \<longleftrightarrow> sint (Id a) \<le> sint (Id b)"

definition less_periodic_timer :: "periodic_timer \<Rightarrow> periodic_timer \<Rightarrow> bool" where
  "less_periodic_timer a b \<longleftrightarrow> PeriodicTimer_less a b"

instance
  by intro_classes (auto simp: less_eq_periodic_timer_def less_periodic_timer_def PeriodicTimer_less_def)

end

lemma periodic_timer_equivalent: "\<not> a < b \<and> \<not> b < a \<longleftrightarrow> PeriodicTimer_eq a b" for a b :: periodic_timer
  using signed_word_eqI [of "Id a" "Id b"]
  by (auto simp: less_periodic_timer_def PeriodicTimer_less_def PeriodicTimer_eq_def)

text \<open>The key of a one-shot timer is compared in the same way.\<close>

datatype one_shot_timer = Timer (timer_Id: c_int) (timer_Name: string)

definition Timer_eq :: "one_shot_timer \<Rightarrow> one_shot_timer \<Rightarrow> bool" where
  "Timer_eq a b \<longleftrightarrow> timer_Id a = timer_Id b"

definition Timer_less :: "one_shot_timer \<Rightarrow> one_shot_timer \<Rightarrow> bool" where
  "Timer_less a b \<longleftrightarrow> sint (timer_Id a) < sint (timer_Id b)"

instantiation one_shot_timer :: preorder
begin

definition less_eq_one_shot_timer :: "one_shot_timer \<Rightarrow> one_shot_timer \<Rightarrow> bool" where
  "less_eq_one_shot_timer a b \<longleftrightarrow> sint (timer_Id a) \<le> sint (timer_Id b)"

definition less_one_shot_timer :: "one_shot_timer \<Rightarrow> one_shot_timer \<Rightarrow> bool" where
  "less_one_shot_timer a b \<longleftrightarrow> Timer_less a b"

instance
  by intro_classes (auto simp: less_eq_one_shot_timer_def less_one_shot_timer_def Timer_less_def)

end

lemma one_shot_timer_equivalent: "\<not> a < b \<and> \<not> b < a \<longleftrightarrow> Timer_eq a b" for a b :: one_shot_timer
  using signed_word_eqI [of "timer_Id a" "timer_Id b"]
  by (auto simp: less_one_shot_timer_def Timer_less_def Timer_eq_def)

section \<open>State\<close>

text \<open>
  The map of periodic timers is hashed and compared by \<open>Id\<close>, so it is a map from numbers; a key found
  there keeps the name it was made with. A \<open>deadline_timer\<close> is the list of its outstanding waits, a wait
  its handler: the lambda of \<open>SetPeriodicTimer\<close> with what it captures. \<open>timer_ready\<close> is the queue of the
  I/O service: completed waits with their error code, oldest first. \<open>timer_calls\<close> records the calls of
  application handlers.
\<close>

datatype 'cb timer_wait = Wait (wait_id: periodic_timer) (wait_ms: int) (wait_handler: "'cb option")

record 'cb timers =
  periodicTimers :: "c_int \<rightharpoonup> string \<times> 'cb timer_wait list"
  oneShotTimers :: "c_int \<rightharpoonup> string"
  timer_ready :: "('cb timer_wait \<times> error_code) list"
  timer_calls :: "periodic_timer list"

definition timers_new :: "'cb timers" where
  "timers_new = \<lparr>periodicTimers = Map.empty, oneShotTimers = Map.empty, timer_ready = [], timer_calls = []\<rparr>"

definition aborted :: error_code where
  "aborted = \<lparr>ec_value = operation_aborted, ec_message = ''Operation canceled''\<rparr>"

section \<open>Operations\<close>

text \<open>\<open>emplace\<close> leaves a key that is already there alone.\<close>

definition IoServicesImpl_InitialisePeriodicTimer :: "c_int \<Rightarrow> string \<Rightarrow> 'cb timers \<Rightarrow> 'cb timers" where
  "IoServicesImpl_InitialisePeriodicTimer i name st =
     (case periodicTimers st i of
        Some _ \<Rightarrow> st
      | None \<Rightarrow> st\<lparr>periodicTimers := (periodicTimers st)(i \<mapsto> (name, []))\<rparr>)"

definition IoServicesImpl_InitialiseOneShotTimer :: "c_int \<Rightarrow> string \<Rightarrow> 'cb timers \<Rightarrow> 'cb timers" where
  "IoServicesImpl_InitialiseOneShotTimer i name st =
     (case oneShotTimers st i of
        Some _ \<Rightarrow> st
      | None \<Rightarrow> st\<lparr>oneShotTimers := (oneShotTimers st)(i \<mapsto> name)\<rparr>)"

text \<open>
  \<open>cancel\<close> of a \<open>deadline_timer\<close>, which \<open>expires_from_now\<close> does first as well: the handlers of its
  outstanding waits are queued with \<open>operation_aborted\<close>.
\<close>

definition cancel_waits :: "c_int \<Rightarrow> 'cb timers \<Rightarrow> 'cb timers" where
  "cancel_waits i st =
     (case periodicTimers st i of
        None \<Rightarrow> st
      | Some (name, ws) \<Rightarrow>
          st\<lparr>periodicTimers := (periodicTimers st)(i \<mapsto> (name, [])),
             timer_ready := timer_ready st @ map (\<lambda>w. (w, aborted)) ws\<rparr>)"

definition async_wait :: "c_int \<Rightarrow> 'cb timer_wait \<Rightarrow> 'cb timers \<Rightarrow> 'cb timers" where
  "async_wait i w st =
     (case periodicTimers st i of
        None \<Rightarrow> st
      | Some (name, ws) \<Rightarrow> st\<lparr>periodicTimers := (periodicTimers st)(i \<mapsto> (name, ws @ [w]))\<rparr>)"

definition IoServicesImpl_SetPeriodicTimer ::
  "periodic_timer \<Rightarrow> int \<Rightarrow> 'cb option \<Rightarrow> 'cb timers \<Rightarrow> 'cb timers" where
  "IoServicesImpl_SetPeriodicTimer i ms handler st =
     (case periodicTimers st (Id i) of
        None \<Rightarrow> st
      | Some _ \<Rightarrow> async_wait (Id i) (Wait i ms handler) (cancel_waits (Id i) st))"

definition IoServicesImpl_CancelPeriodicTimer :: "periodic_timer \<Rightarrow> 'cb timers \<Rightarrow> 'cb timers" where
  "IoServicesImpl_CancelPeriodicTimer i st =
     (case periodicTimers st (Id i) of None \<Rightarrow> st | Some _ \<Rightarrow> cancel_waits (Id i) st)"

text \<open>
  The interface: a duration is a number of seconds in a \<open>long long\<close>, converted to milliseconds of the
  same type.
\<close>

definition IoServices_InitialisePeriodicTimer :: "periodic_timer \<Rightarrow> 'cb timers \<Rightarrow> 'cb timers" where
  "IoServices_InitialisePeriodicTimer i st = IoServicesImpl_InitialisePeriodicTimer (Id i) (Name i) st"

definition IoServices_InitialiseOneShotTimer :: "one_shot_timer \<Rightarrow> 'cb timers \<Rightarrow> 'cb timers" where
  "IoServices_InitialiseOneShotTimer i st = IoServicesImpl_InitialiseOneShotTimer (timer_Id i) (timer_Name i) st"

definition IoServices_SetPeriodicTimer ::
  "periodic_timer \<Rightarrow> int \<Rightarrow> 'cb option \<Rightarrow> 'cb timers \<Rightarrow> (unit, 'cb timers) outcome" where
  "IoServices_SetPeriodicTimer i du handler st =
     (let ms = du * 1000
      in if ms < - (2 ^ 63) \<or> 2 ^ 63 \<le> ms then (Inl (Undefined ''signed overflow''), st)
         else (Inr (), IoServicesImpl_SetPeriodicTimer i ms handler st))"

definition IoServices_CancelPeriodicTimer :: "periodic_timer \<Rightarrow> 'cb timers \<Rightarrow> 'cb timers" where
  "IoServices_CancelPeriodicTimer i st = IoServicesImpl_CancelPeriodicTimer i st"

section \<open>Runs\<close>

datatype 'cb timer_api =
    Timer_initialise periodic_timer
  | Timer_set periodic_timer int "'cb option"
  | Timer_cancel periodic_timer

fun timer_do :: "'cb timer_api \<Rightarrow> 'cb timers \<Rightarrow> (unit, 'cb timers) outcome" where
  "timer_do (Timer_initialise i) st = (Inr (), IoServices_InitialisePeriodicTimer i st)"
| "timer_do (Timer_set i du handler) st = IoServices_SetPeriodicTimer i du handler st"
| "timer_do (Timer_cancel i) st = (Inr (), IoServices_CancelPeriodicTimer i st)"

text \<open>The application: the calls its handlers make.\<close>

type_synonym 'cb timer_app = "'cb \<Rightarrow> periodic_timer \<Rightarrow> 'cb timers \<Rightarrow> 'cb timer_api app_step list"

text \<open>The lambda of \<open>SetPeriodicTimer\<close>: the wait's completion handler.\<close>

definition reset_handler :: "'cb timer_app \<Rightarrow> 'cb timer_wait \<Rightarrow> error_code \<Rightarrow> 'cb timers \<Rightarrow> (unit, 'cb timers) outcome" where
  "reset_handler app w ec st =
     (if ec_value ec = operation_aborted then (Inr (), st)
      else case wait_handler w of
             None \<Rightarrow> (Inl BadFunctionCall, st)
           | Some cb \<Rightarrow>
               and_then (run_script timer_do (app cb (wait_id w) st)
                           (st\<lparr>timer_calls := timer_calls st @ [wait_id w]\<rparr>))
                 (\<lambda>_ st. (Inr (), IoServicesImpl_SetPeriodicTimer (wait_id w) (wait_ms w) (wait_handler w) st)))"

text \<open>
  Calls from any thread that \<open>allow\<close> admits, expiries, and the service running the oldest completed wait.
\<close>

inductive timer_step ::
  "('cb timer_api \<Rightarrow> bool) \<Rightarrow> 'cb timer_app \<Rightarrow> 'cb timers \<Rightarrow> 'cb timers \<Rightarrow> bool" for allow app where
  call: "allow a \<Longrightarrow> timer_do a st = (r, st') \<Longrightarrow> timer_step allow app st st'"
| expired: "periodicTimers st k = Some (name, ws) \<Longrightarrow>
    timer_step allow app st
      (st\<lparr>periodicTimers := (periodicTimers st)(k \<mapsto> (name, [])),
          timer_ready := timer_ready st @ map (\<lambda>w. (w, no_error)) ws\<rparr>)"
| run: "timer_ready st = (w, ec) # rest \<Longrightarrow>
    reset_handler app w ec (st\<lparr>timer_ready := rest\<rparr>) = (r, st') \<Longrightarrow> timer_step allow app st st'"

inductive_cases timer_stepE [consumes 1, case_names call expired run]: "timer_step allow app st st'"

section \<open>Invariants\<close>

lemmas timer_op_defs =
  IoServicesImpl_InitialisePeriodicTimer_def IoServicesImpl_SetPeriodicTimer_def
  IoServicesImpl_CancelPeriodicTimer_def IoServices_InitialisePeriodicTimer_def
  IoServices_SetPeriodicTimer_def IoServices_CancelPeriodicTimer_def cancel_waits_def async_wait_def

text \<open>Each timer has at most one outstanding wait, one of its own.\<close>

definition timers_ok :: "'cb timers \<Rightarrow> bool" where
  "timers_ok st \<longleftrightarrow> (\<forall>k name ws. periodicTimers st k = Some (name, ws) \<longrightarrow>
     length ws \<le> 1 \<and> (\<forall>w \<in> set ws. Id (wait_id w) = k))"

lemma timers_ok_fields [simp]:
  "timers_ok (st\<lparr>timer_calls := cs\<rparr>) = timers_ok st" "timers_ok (st\<lparr>timer_ready := rs\<rparr>) = timers_ok st"
  by (simp_all add: timers_ok_def)

lemma timer_set_ok: "timers_ok st \<Longrightarrow> timers_ok (IoServicesImpl_SetPeriodicTimer i ms h st)"
  by (auto simp: timers_ok_def timer_op_defs split: option.splits if_splits prod.splits)

lemma timer_do_ok: "timers_ok st \<Longrightarrow> timers_ok (snd (timer_do a st))"
proof (cases a)
  case (Timer_set i du h)
  then show "timers_ok st \<Longrightarrow> ?thesis"
    using timer_set_ok [of st i "du * 1000" h] by (simp add: IoServices_SetPeriodicTimer_def Let_def)
qed (auto simp: timers_ok_def timer_op_defs split: option.splits if_splits prod.splits)

text \<open>
  What keeps a property under every call of a script and under the re-arming keeps it under the
  completion handler.
\<close>

lemma reset_handler_inv:
  assumes "P st" and "\<And>st. P st \<Longrightarrow> P (st\<lparr>timer_calls := timer_calls st @ [wait_id w]\<rparr>)"
    and "\<And>a st cb t. wait_handler w = Some cb \<Longrightarrow> a \<in> set (script_calls (app cb (wait_id w) t)) \<Longrightarrow>
      P st \<Longrightarrow> P (snd (timer_do a st))"
    and "\<And>st. P st \<Longrightarrow> P (IoServicesImpl_SetPeriodicTimer (wait_id w) (wait_ms w) (wait_handler w) st)"
  shows "P (snd (reset_handler app w ec st))"
proof (cases "wait_handler w")
  case None
  with assms(1) show ?thesis by (simp add: reset_handler_def)
next
  case (Some cb)
  let ?st = "st\<lparr>timer_calls := timer_calls st @ [wait_id w]\<rparr>"
  obtain r t where t: "run_script timer_do (app cb (wait_id w) st) ?st = (r, t)" by fastforce
  have "P (snd (run_script timer_do (app cb (wait_id w) st) ?st))"
    by (rule run_script_inv [OF assms(3) [OF Some] assms(2) [OF assms(1)]])
  then have "P t" by (simp add: t)
  then have "P (IoServicesImpl_SetPeriodicTimer (wait_id w) (wait_ms w) (Some cb) t)"
    using assms(4) [of t] Some by simp
  with \<open>P t\<close> assms(1) Some t show ?thesis by (cases r) (simp_all add: reset_handler_def)
qed

lemma timer_step_ok:
  assumes "timer_step allow app st st'" and "timers_ok st"
  shows "timers_ok st'"
  using assms(1)
proof (cases rule: timer_stepE)
  case (call a r)
  with timer_do_ok [OF assms(2)] show ?thesis by (metis snd_conv)
next
  case (expired k name ws)
  with assms(2) show ?thesis by (auto simp: timers_ok_def)
next
  case (run w ec rest r)
  have "timers_ok (snd (reset_handler app w ec (st\<lparr>timer_ready := rest\<rparr>)))"
    by (rule reset_handler_inv) (simp_all add: assms(2) timer_do_ok timer_set_ok)
  with run show ?thesis by simp
qed

text \<open>A timer with nothing on the way: no outstanding wait, and no completed one but aborted ones.\<close>

definition timer_idle :: "c_int \<Rightarrow> 'cb timers \<Rightarrow> bool" where
  "timer_idle k st \<longleftrightarrow> (\<forall>name ws. periodicTimers st k = Some (name, ws) \<longrightarrow> ws = [])
     \<and> (\<forall>(w, ec) \<in> set (timer_ready st). Id (wait_id w) = k \<longrightarrow> ec_value ec = operation_aborted)"

definition calls_of :: "c_int \<Rightarrow> 'cb timers \<Rightarrow> periodic_timer list" where
  "calls_of k st = filter (\<lambda>i. Id i = k) (timer_calls st)"

text \<open>The calls that do not set a timer with the number \<open>k\<close>.\<close>

definition not_set :: "c_int \<Rightarrow> 'cb timer_api \<Rightarrow> bool" where
  "not_set k a \<longleftrightarrow> (\<forall>i du h. a = Timer_set i du h \<longrightarrow> Id i \<noteq> k)"

definition idle_since :: "c_int \<Rightarrow> periodic_timer list \<Rightarrow> 'cb timers \<Rightarrow> bool" where
  "idle_since k cs st \<longleftrightarrow> timers_ok st \<and> timer_idle k st \<and> calls_of k st = cs"

lemma set_other_idle:
  "Id i \<noteq> k \<Longrightarrow> idle_since k cs st \<Longrightarrow> idle_since k cs (IoServicesImpl_SetPeriodicTimer i ms h st)"
  using timer_set_ok [of st i ms h]
  by (auto simp: idle_since_def timer_idle_def calls_of_def timer_op_defs aborted_def
      split: option.splits if_splits prod.splits)

lemma timer_do_idle:
  assumes "not_set k a" and "idle_since k cs st"
  shows "idle_since k cs (snd (timer_do a st))"
proof (cases a)
  case (Timer_set i du h)
  with assms show ?thesis
    by (auto simp: IoServices_SetPeriodicTimer_def Let_def not_set_def set_other_idle)
next
  case (Timer_initialise i)
  with assms timer_do_ok [of st a] show ?thesis
    by (auto simp: idle_since_def timer_idle_def calls_of_def timer_op_defs split: option.splits if_splits)
next
  case (Timer_cancel i)
  with assms timer_do_ok [of st a] show ?thesis
    by (auto simp: idle_since_def timer_idle_def calls_of_def timer_op_defs aborted_def
        split: option.splits if_splits prod.splits)
qed

lemma timer_step_idle:
  assumes "timer_step (not_set k) app st st'" and idle: "idle_since k cs st"
    and app: "\<And>cb i t a. a \<in> set (script_calls (app cb i t)) \<Longrightarrow> not_set k a"
  shows "idle_since k cs st'"
  using assms(1)
proof (cases rule: timer_stepE)
  case (call a r)
  with timer_do_idle [OF call(1) idle] show ?thesis by simp
next
  case (expired j name ws)
  have "j \<noteq> Id (wait_id w) \<Longrightarrow> w \<notin> set ws" for w
    using expired(2) idle by (auto simp: idle_since_def timers_ok_def)
  with expired idle timer_step_ok [OF assms(1)] show ?thesis
    by (auto simp: idle_since_def timer_idle_def calls_of_def)
next
  case (run w ec rest r)
  have rest: "idle_since k cs (st\<lparr>timer_ready := rest\<rparr>)"
    using idle run(1) by (auto simp: idle_since_def timer_idle_def calls_of_def timers_ok_def)
  show ?thesis
  proof (cases "Id (wait_id w) = k")
    case True
    with idle run(1) have "ec_value ec = operation_aborted" by (auto simp: idle_since_def timer_idle_def)
    with run(2) rest show ?thesis by (simp add: reset_handler_def)
  next
    case False
    have "idle_since k cs (snd (reset_handler app w ec (st\<lparr>timer_ready := rest\<rparr>)))"
    proof (rule reset_handler_inv)
      show "idle_since k cs (t\<lparr>timer_calls := timer_calls t @ [wait_id w]\<rparr>)" if "idle_since k cs t" for t
        using that False by (auto simp: idle_since_def timer_idle_def calls_of_def timers_ok_def)
    qed (use rest app timer_do_idle set_other_idle [OF False] in blast)+
    with run(2) show ?thesis by simp
  qed
qed

section \<open>Properties\<close>

text \<open>
  C33: A periodic timer never has more than one outstanding wait, and that one is its own, whatever is
  set, cancelled and initialised by the application and its handlers, in whatever order the waits
  expire and their handlers run: setting a timer again aborts the wait before.
\<close>

theorem timer_single_wait:
  assumes "(timer_step allow app)\<^sup>*\<^sup>* timers_new st" and "periodicTimers st k = Some (name, ws)"
  shows "length ws \<le> 1 \<and> (\<forall>w \<in> set ws. Id (wait_id w) = k)"
proof -
  have "timers_ok st"
    using assms(1)
  proof (induction rule: rtranclp_induct)
    case base
    show ?case by (simp add: timers_ok_def timers_new_def)
  next
    case (step s t)
    show ?case by (rule timer_step_ok [OF step.hyps(2) step.IH])
  qed
  with assms(2) show ?thesis by (simp add: timers_ok_def)
qed

text \<open>A ticking timer: number 3, every two seconds, set twice.\<close>

definition tick :: periodic_timer where
  "tick = PeriodicTimer 3 ''tick''"

definition ticking :: "nat timers" where
  "ticking = snd (timer_do (Timer_set tick 2 (Some 7))
     (snd (timer_do (Timer_set tick 1 (Some 6)) (snd (timer_do (Timer_initialise tick) timers_new)))))"

definition idle_app :: "nat timer_app" where
  "idle_app cb i st = []"

lemma ticking_reach: "(timer_step (\<lambda>_. True) idle_app)\<^sup>*\<^sup>* timers_new ticking"
proof -
  have next_call: "(timer_step (\<lambda>_. True) idle_app)\<^sup>*\<^sup>* s t \<Longrightarrow>
      (timer_step (\<lambda>_. True) idle_app)\<^sup>*\<^sup>* s (snd (timer_do a t))" for s t a
    by (erule rtranclp.rtrancl_into_rtrancl) (rule timer_step.call, rule TrueI, rule surjective_pairing)
  show ?thesis unfolding ticking_def by (intro next_call rtranclp.rtrancl_refl)
qed

lemma ticking_waits:
  "periodicTimers ticking 3 = Some (''tick'', [Wait tick 2000 (Some 7)])"
  "timer_ready ticking = [(Wait tick 1000 (Some 6), aborted)]"
  by (simp_all add: ticking_def timer_op_defs timers_new_def tick_def Let_def)

theorem timer_single_wait_witness: "length [Wait tick 2000 (Some (7::nat))] \<le> 1"
  using timer_single_wait [OF ticking_reach ticking_waits(1)] by blast

text \<open>
  C34: Cancelling a timer none of whose completed waits is still to be run stops it: from then on, for as
  long as nobody sets a timer of that number, its handler is never called again, whatever else happens.
\<close>

theorem timer_cancel_stops:
  assumes "timers_ok st"
    and "\<forall>(w, ec) \<in> set (timer_ready st). Id (wait_id w) = Id i \<longrightarrow> ec_value ec = operation_aborted"
    and "\<And>cb j t a. a \<in> set (script_calls (app cb j t)) \<Longrightarrow> not_set (Id i) a"
    and "(timer_step (not_set (Id i)) app)\<^sup>*\<^sup>* (IoServices_CancelPeriodicTimer i st) t"
  shows "calls_of (Id i) t = calls_of (Id i) st"
proof -
  have "idle_since (Id i) (calls_of (Id i) st) (IoServices_CancelPeriodicTimer i st)"
    using assms(1,2) timer_do_ok [OF assms(1), of "Timer_cancel i"]
    by (auto simp: idle_since_def timer_idle_def calls_of_def timer_op_defs aborted_def
        split: option.splits prod.splits)
  with assms(4) have "idle_since (Id i) (calls_of (Id i) st) t"
    by (induction rule: rtranclp_induct) (auto intro: timer_step_idle [OF _ _ assms(3)])
  then show ?thesis by (simp add: idle_since_def)
qed

theorem timer_cancel_stops_witness:
  "calls_of 3 (IoServices_CancelPeriodicTimer tick ticking) = calls_of 3 ticking"
proof -
  have "timers_ok ticking"
    unfolding ticking_def by (intro timer_do_ok) (simp add: timers_ok_def timers_new_def)
  with timer_cancel_stops [of ticking tick idle_app "IoServices_CancelPeriodicTimer tick ticking"]
  show ?thesis by (simp add: ticking_waits aborted_def idle_app_def tick_def)
qed

text \<open>
  A cancel that comes after the expiry is lost. If a completed wait of the timer is the next to be
  run, cancelling the timer does not keep its handler from being called, and the handler sets the timer
  again with the same duration: the timer goes on ticking although it was cancelled.
\<close>

lemma timer_cancel_lost:
  assumes "timer_ready st = (Wait i ms (Some cb), ec) # rest" and "ec_value ec \<noteq> operation_aborted"
    and "periodicTimers st (Id i) = Some (name, ws)" and "\<And>t. app cb i t = []"
    and "IoServices_CancelPeriodicTimer i st = st1"
  shows "\<exists>t. timer_ready st1 = (Wait i ms (Some cb), ec) # tl (timer_ready st1)
    \<and> reset_handler app (Wait i ms (Some cb)) ec (st1\<lparr>timer_ready := tl (timer_ready st1)\<rparr>) = (Inr (), t)
    \<and> timer_calls t = timer_calls st @ [i]
    \<and> periodicTimers t (Id i) = Some (name, [Wait i ms (Some cb)])"
proof -
  have "st1 = st\<lparr>periodicTimers := (periodicTimers st)(Id i \<mapsto> (name, [])),
      timer_ready := timer_ready st @ map (\<lambda>w. (w, aborted)) ws\<rparr>"
    using assms(3,5) by (simp add: timer_op_defs)
  with assms(1-4) show ?thesis
    by (simp add: reset_handler_def IoServicesImpl_SetPeriodicTimer_def cancel_waits_def async_wait_def)
qed

lemma timer_cancel_lost_witness:
  "let st = ticking\<lparr>periodicTimers := [3 \<mapsto> (''tick'', [])], timer_ready := [(Wait tick 2000 (Some 7), no_error)]\<rparr>
   in \<exists>t. reset_handler idle_app (Wait tick 2000 (Some 7)) no_error
        ((IoServices_CancelPeriodicTimer tick st)\<lparr>timer_ready := []\<rparr>) = (Inr (), t)
      \<and> periodicTimers t 3 = Some (''tick'', [Wait tick 2000 (Some 7)])"
  using timer_cancel_lost [of "ticking\<lparr>periodicTimers := [3 \<mapsto> (''tick'', [])],
      timer_ready := [(Wait tick 2000 (Some 7), no_error)]\<rparr>" tick 2000 7 no_error "[]" "''tick''" "[]" idle_app
      "IoServices_CancelPeriodicTimer tick (ticking\<lparr>periodicTimers := [3 \<mapsto> (''tick'', [])],
        timer_ready := [(Wait tick 2000 (Some 7), no_error)]\<rparr>)"]
  by (auto simp: tick_def idle_app_def no_error_def operation_aborted_def timer_op_defs)

end
