(* ===== verification/IoWorkers.thy ===== *)
theory IoWorkers
  imports WriteQueue
begin

text \<open>
  Starting, running and stopping the services object, and its pool of worker threads
  (\<open>IoServicesImpl.cpp\<close>, \<open>IoServices.cpp\<close>): the loop that runs the handlers of the I/O service, the
  threads that run them beside it, and the counter of free workers that decides when to add one.
\<close>

section \<open>State\<close>

text \<open>
  \<open>posted\<close> is the work in the queue of the I/O service, oldest first, and \<open>busy\<close> the work being
  executed by some thread: \<open>None\<close> is the lambda by which \<open>Start\<close> reports that the service runs, the rest
  is the application's. The loop's own thread runs work as well, so there is one thread more than
  worker handles.
\<close>

record 'w service =
  shouldRun :: bool
  serviceStopped :: bool
  futureRetrieved :: bool
  startedSet :: bool
  runHandleValid :: bool
  freeWorkerCount :: c_int
  workerHandles :: nat
  posted :: "'w option list"
  busy :: "'w option list"

definition service_new :: "'w service" where
  "service_new = \<lparr>shouldRun = False, serviceStopped = False, futureRetrieved = False, startedSet = False,
     runHandleValid = False, freeWorkerCount = 0, workerHandles = 0, posted = [], busy = []\<rparr>"

section \<open>Starting and stopping\<close>

text \<open>The future of a promise can be taken once.\<close>

definition IoServicesImpl_Start :: "'w service \<Rightarrow> (unit, 'w service) outcome" where
  "IoServicesImpl_Start p =
     (let p1 = p\<lparr>shouldRun := True\<rparr>
      in if futureRetrieved p1 then (Inl (FutureError ''Future already retrieved''), p1)
         else (Inr (), p1\<lparr>futureRetrieved := True, runHandleValid := True, posted := posted p1 @ [None]\<rparr>))"

text \<open>\<open>timeout\<close> says whether the service reported its start within five seconds.\<close>

definition IoServices_Start :: "bool \<Rightarrow> 'w service \<Rightarrow> (unit, 'w service) outcome" where
  "IoServices_Start timeout p =
     and_then (IoServicesImpl_Start p)
       (\<lambda>_ p. if timeout then (Inl (RuntimeError ''Io service failed to start''), p) else (Inr (), p))"

text \<open>\<open>Stop\<close> returns when every thread has: what was posted and not begun stays in the queue.\<close>

definition IoServicesImpl_Stop :: "'w service \<Rightarrow> 'w service" where
  "IoServicesImpl_Stop p =
     (if \<not> runHandleValid p then p
      else p\<lparr>shouldRun := False, serviceStopped := True, runHandleValid := False\<rparr>)"

text \<open>The destructor stops, and the public class passes on.\<close>

definition IoServicesImpl_destroy :: "'w service \<Rightarrow> 'w service" where
  "IoServicesImpl_destroy p = IoServicesImpl_Stop p"

definition IoServices_Stop :: "'w service \<Rightarrow> 'w service" where
  "IoServices_Stop p = IoServicesImpl_Stop p"

section \<open>The workers\<close>

definition IoServicesImpl_AddWorker :: "'w service \<Rightarrow> 'w service" where
  "IoServicesImpl_AddWorker p =
     p\<lparr>workerHandles := workerHandles p + 1, freeWorkerCount := freeWorkerCount p + 1\<rparr>"

definition IoServicesImpl_RemoveWorker :: "'w service \<Rightarrow> (unit, 'w service) outcome" where
  "IoServicesImpl_RemoveWorker p =
     (if workerHandles p = 0 then (Inl (Undefined ''back of an empty vector''), p)
      else (Inr (), p\<lparr>workerHandles := workerHandles p - 1\<rparr>))"

definition IoServicesImpl_RunWork :: "'w \<Rightarrow> 'w service \<Rightarrow> 'w service" where
  "IoServicesImpl_RunWork work p =
     (let p1 = (if freeWorkerCount p = 0 then IoServicesImpl_AddWorker p else p)
      in p1\<lparr>posted := posted p1 @ [Some work]\<rparr>)"

definition IoServices_RunWork :: "'w \<Rightarrow> 'w service \<Rightarrow> 'w service" where
  "IoServices_RunWork work p = IoServicesImpl_RunWork work p"

text \<open>
  The wrapper around a piece of work, and the lambda of \<open>Start\<close>, begin by counting a worker down and
  end by counting one up. An exception of the work is given to the application's notifier; an exception
  of the notifier leaves the wrapper.
\<close>

definition work_begins :: "'w service \<Rightarrow> 'w service" where
  "work_begins p =
     (case posted p of
        [] \<Rightarrow> p
      | w # ws \<Rightarrow> p\<lparr>freeWorkerCount := freeWorkerCount p - 1, posted := ws, busy := busy p @ [w]\<rparr>)"

definition work_ends ::
  "(string \<Rightarrow> fault \<Rightarrow> fault option) \<Rightarrow> 'w option \<Rightarrow> fault + unit \<Rightarrow> 'w service \<Rightarrow> (unit, 'w service) outcome" where
  "work_ends notifier w r p =
     (let p1 = p\<lparr>busy := remove1 w (busy p), startedSet := (startedSet p \<or> w = None)\<rparr>;
          p2 = p1\<lparr>freeWorkerCount := freeWorkerCount p1 + 1\<rparr>
      in case r of
           Inr _ \<Rightarrow> (Inr (), p2)
         | Inl f \<Rightarrow> if \<not> catchable f then (Inl f, p1)
                   else (case notifier ''Exception in work: '' f of
                           Some g \<Rightarrow> (Inl g, p1)
                         | None \<Rightarrow> (Inr (), p2)))"

text \<open>
  The threads: calls of \<open>RunWork\<close> by anybody, and work begun and ended by any of them. A fault that is
  no exception ends the process, so the work of a step ends normally or with an exception.
\<close>

inductive pool_step ::
  "(string \<Rightarrow> fault \<Rightarrow> fault option) \<Rightarrow> 'w service \<Rightarrow> 'w service \<Rightarrow> bool" for notifier where
  run_work: "pool_step notifier p (IoServicesImpl_RunWork work p)"
| begins: "posted p \<noteq> [] \<Longrightarrow> length (busy p) < 1 + workerHandles p \<Longrightarrow> pool_step notifier p (work_begins p)"
| ends: "w \<in> set (busy p) \<Longrightarrow> (\<And>f. r = Inl f \<Longrightarrow> catchable f) \<Longrightarrow>
    work_ends notifier w r p = (q, p') \<Longrightarrow> pool_step notifier p p'"

inductive_cases pool_stepE [consumes 1, case_names run_work begins ends]: "pool_step notifier p p'"

definition pool_ok :: "'w service \<Rightarrow> bool" where
  "pool_ok p \<longleftrightarrow> freeWorkerCount p = of_nat (workerHandles p) - of_nat (length (busy p))
     \<and> length (busy p) \<le> 1 + workerHandles p"

lemma pool_step_ok:
  assumes "\<And>m f. notifier m f = None" and "pool_step notifier p p'" and "pool_ok p"
  shows "pool_ok p'"
  using assms(2)
proof (cases rule: pool_stepE)
  case (run_work work)
  with assms(3) show ?thesis
    by (auto simp: pool_ok_def IoServicesImpl_RunWork_def IoServicesImpl_AddWorker_def Let_def)
next
  case begins
  with assms(3) show ?thesis
    by (auto simp: pool_ok_def work_begins_def split: list.split)
next
  case (ends w r q)
  then have "freeWorkerCount p' = freeWorkerCount p + 1" "workerHandles p' = workerHandles p"
    "busy p' = remove1 w (busy p)"
    using assms(1) by (auto simp: work_ends_def Let_def split: sum.splits if_splits)
  moreover obtain n where "length (busy p) = Suc n" using ends(1) by (cases "busy p") auto
  ultimately show ?thesis
    using assms(3) ends(1) by (simp add: pool_ok_def length_remove1)
qed

lemma of_nat_c_int_eq: "m < 2 ^ 32 \<Longrightarrow> n < 2 ^ 32 \<Longrightarrow> (of_nat m :: c_int) = of_nat n \<longleftrightarrow> m = n"
  by (simp add: word_unat_eq_iff unat_of_nat)

lemma run_work_adds:
  assumes "pool_ok p" and "workerHandles p < 2 ^ 32 - 1"
  shows "workerHandles (IoServicesImpl_RunWork w p) = workerHandles p + (if length (busy p) = workerHandles p then 1 else 0)
    \<and> busy (IoServicesImpl_RunWork w p) = busy p \<and> posted (IoServicesImpl_RunWork w p) = posted p @ [Some w]
    \<and> pool_ok (IoServicesImpl_RunWork w p)"
proof -
  have "freeWorkerCount p = 0 \<longleftrightarrow> length (busy p) = workerHandles p"
    using assms of_nat_c_int_eq [of "workerHandles p" "length (busy p)"] by (auto simp: pool_ok_def)
  with assms(1) show ?thesis
    by (auto simp: pool_ok_def IoServicesImpl_RunWork_def IoServicesImpl_AddWorker_def Let_def)
qed

section \<open>The loop\<close>

text \<open>
  \<open>io_service::run\<close> over the queue of ready handlers: it runs them in order until the service is
  stopped or a handler throws, which leaves the rest in the queue. What it has to wait for is no
  part of the model: with an empty queue it is waiting.
\<close>

fun io_run ::
  "('s \<Rightarrow> bool) \<Rightarrow> ('s \<Rightarrow> (unit, 's) outcome) list \<Rightarrow> 's \<Rightarrow>
   (fault + unit) \<times> ('s \<Rightarrow> (unit, 's) outcome) list \<times> 's" where
  "io_run stopped [] s = (Inr (), [], s)"
| "io_run stopped (h # hs) s =
     (if stopped s then (Inr (), h # hs, s)
      else case h s of
             (Inl f, s') \<Rightarrow> (Inl f, hs, s')
           | (Inr _, s') \<Rightarrow> io_run stopped hs s')"

lemma io_run_throws_shorter: "io_run stopped hs s = (Inl f, hs', s') \<Longrightarrow> length hs' < length hs"
  by (induction stopped hs s rule: io_run.induct) (auto split: prod.splits sum.splits if_splits)

datatype loop_end = Returned bool | Waiting | Spinning | Threw fault

function IoServicesImpl_Run ::
  "('s \<Rightarrow> bool) \<Rightarrow> ('s \<Rightarrow> bool) \<Rightarrow> (string \<Rightarrow> fault \<Rightarrow> 's \<Rightarrow> (unit, 's) outcome) \<Rightarrow>
   ('s \<Rightarrow> (unit, 's) outcome) list \<Rightarrow> 's \<Rightarrow> loop_end \<times> ('s \<Rightarrow> (unit, 's) outcome) list \<times> 's" where
  "IoServicesImpl_Run should stopped notify hs s =
     (if \<not> should s then (Returned True, hs, s)
      else case io_run stopped hs s of
             (Inl f, hs', s') \<Rightarrow>
               if \<not> catchable f then (Threw f, hs', s')
               else (case notify ''Exception in IO service: '' f s' of
                       (Inl g, s'') \<Rightarrow> (Threw g, hs', s'')
                     | (Inr _, s'') \<Rightarrow> IoServicesImpl_Run should stopped notify hs' s'')
           | (Inr _, hs', s') \<Rightarrow>
               if \<not> stopped s' then (Waiting, hs', s')
               else if should s' then (Spinning, hs', s') else (Returned True, hs', s'))"
  by pat_completeness auto

termination
  by (relation "measure (\<lambda>(should, stopped, notify, hs, s). length hs)") (auto dest: io_run_throws_shorter [OF sym])

declare IoServicesImpl_Run.simps [simp del]

text \<open>A worker thread runs the same queue; an exception that leaves its function ends the process.\<close>

definition IoServicesImpl_WorkerThread ::
  "('s \<Rightarrow> bool) \<Rightarrow> ('s \<Rightarrow> (unit, 's) outcome) list \<Rightarrow> 's \<Rightarrow>
   (fault + unit) \<times> ('s \<Rightarrow> (unit, 's) outcome) list \<times> 's" where
  "IoServicesImpl_WorkerThread stopped hs s = io_run stopped hs s"

text \<open>One handler with the protection of the loop.\<close>

definition guarded ::
  "(string \<Rightarrow> fault \<Rightarrow> 's \<Rightarrow> (unit, 's) outcome) \<Rightarrow> ('s \<Rightarrow> (unit, 's) outcome) \<Rightarrow> 's \<Rightarrow> 's" where
  "guarded notify h s =
     (case h s of
        (Inr _, s') \<Rightarrow> s'
      | (Inl f, s') \<Rightarrow> snd (notify ''Exception in IO service: '' f s'))"

lemma io_run_cases:
  assumes "\<And>s. \<not> stopped s"
  obtains (all) s' where "io_run stopped hs s = (Inr (), [], s')" and "s' = fold (guarded notify) hs s"
  | (threw) h pre hs' f s0 s' where "io_run stopped hs s = (Inl f, hs', s')" and "hs = pre @ h # hs'"
      and "h s0 = (Inl f, s')" and "s0 = fold (guarded notify) pre s"
  using assms
proof (induction hs arbitrary: s thesis)
  case Nil
  show ?case by (rule Nil.prems(1)) simp_all
next
  case (Cons h hs)
  obtain r t where t: "h s = (r, t)" by fastforce
  show ?case
  proof (cases r)
    case (Inl f)
    show ?thesis
      by (rule Cons.prems(2) [of f hs t "[]" h s]) (use Inl t Cons.prems(3) [of s] in simp_all)
  next
    case (Inr u)
    then have g: "guarded notify h s = t" using t by (simp add: guarded_def)
    have run: "io_run stopped (h # hs) s = io_run stopped hs t"
      using Inr t Cons.prems(3) [of s] by simp
    show ?thesis
    proof (rule Cons.IH [of t])
      fix s'
      assume "io_run stopped hs t = (Inr (), [], s')" "s' = fold (guarded notify) hs t"
      then show thesis using Cons.prems(1) run g by simp
    next
      fix k pre hs' f s0 s'
      assume "io_run stopped hs t = (Inl f, hs', s')" "hs = pre @ k # hs'" "k s0 = (Inl f, s')"
        "s0 = fold (guarded notify) pre t"
      then show thesis using Cons.prems(2) [of f hs' s' "h # pre" k s0] run g by simp
    qed (rule Cons.prems(3))
  qed
qed

lemma run_all:
  assumes should: "\<And>s. should s" and stopped: "\<And>s. \<not> stopped s"
    and notify: "\<And>m f s. fst (notify m f s) = Inr ()"
    and catch: "\<And>h s f. h \<in> set hs \<Longrightarrow> fst (h s) = Inl f \<Longrightarrow> catchable f"
  shows "IoServicesImpl_Run should stopped notify hs s = (Waiting, [], fold (guarded notify) hs s)"
  using catch
proof (induction hs arbitrary: s rule: length_induct)
  case (1 hs)
  show ?case
  proof (cases rule: io_run_cases [of stopped hs s notify, OF stopped])
    case (1 s')
    then show ?thesis
      using should [of s] stopped [of s'] by (simp add: IoServicesImpl_Run.simps [of should stopped notify hs])
  next
    case (2 h pre hs' f s0 s')
    have "catchable f" using "1.prems" [of h s0 f] 2 by simp
    obtain s'' where n: "notify ''Exception in IO service: '' f s' = (Inr (), s'')"
      by (metis notify prod.collapse)
    have "IoServicesImpl_Run should stopped notify hs' s'' = (Waiting, [], fold (guarded notify) hs' s'')"
    proof (rule "1.IH" [rule_format])
      show "length hs' < length hs" using 2 by simp
      show "catchable g" if "k \<in> set hs'" "fst (k s) = Inl g" for k s g
        using "1.prems" [of k s g] that 2 by simp
    qed
    moreover have "fold (guarded notify) hs s = fold (guarded notify) hs' s''"
      using 2 n by (simp add: guarded_def)
    ultimately show ?thesis
      using 2(1) n \<open>catchable f\<close> should [of s] by (simp add: IoServicesImpl_Run.simps [of should stopped notify hs])
  qed
qed

section \<open>Properties\<close>


text \<open>A service whose loop runs one piece of work while another is posted.\<close>

definition loop_busy :: "nat service" where
  "loop_busy = work_begins (snd (IoServicesImpl_Start service_new))"

lemma loop_busy_step: "pool_step (\<lambda>m f. None) (snd (IoServicesImpl_Start service_new)) loop_busy"
  unfolding loop_busy_def by (rule pool_step.begins) (simp_all add: IoServicesImpl_Start_def service_new_def)


text \<open>
  \<open>RunWork\<close> does not make as many workers as the load needs. However many pieces of work are
  posted before one of them begins, at most one worker is added, and one is added only if exactly one
  thread is idle: when every thread is busy, and the counter therefore -1, none is, and the new work
  waits until some thread has finished.
\<close>

lemma worker_burst:
  assumes "pool_ok p" and "workerHandles p + 2 < 2 ^ 32"
  shows "posted (fold IoServicesImpl_RunWork ws p) = posted p @ map Some ws
    \<and> workerHandles (fold IoServicesImpl_RunWork ws p) =
        workerHandles p + (if ws \<noteq> [] \<and> length (busy p) = workerHandles p then 1 else 0)
    \<and> (length (busy p) = 1 + workerHandles p \<longrightarrow>
        \<not> length (busy (fold IoServicesImpl_RunWork ws p)) < 1 + workerHandles (fold IoServicesImpl_RunWork ws p))"
proof (cases ws)
  case (Cons w vs)
  have more: "posted (fold IoServicesImpl_RunWork us q) = posted q @ map Some us
      \<and> workerHandles (fold IoServicesImpl_RunWork us q) = workerHandles q
      \<and> busy (fold IoServicesImpl_RunWork us q) = busy q"
    if "pool_ok q" "workerHandles q < 2 ^ 32 - 1" "length (busy q) \<noteq> workerHandles q" for us and q :: "'a service"
    using that
  proof (induction us arbitrary: q)
    case (Cons u us)
    with run_work_adds [OF Cons.prems(1,2), of u] show ?case by simp
  qed simp
  let ?q = "IoServicesImpl_RunWork w p"
  note add = run_work_adds [OF assms(1), of w]
  have q: "workerHandles ?q = workerHandles p + (if length (busy p) = workerHandles p then 1 else 0)"
    "busy ?q = busy p" "posted ?q = posted p @ [Some w]" "pool_ok ?q" "length (busy ?q) \<noteq> workerHandles ?q"
    using add assms(2) by auto
  have "workerHandles ?q < 2 ^ 32 - 1" using q(1) assms(2) by (auto split: if_splits)
  with more [OF q(4) _ q(5), of vs] q Cons show ?thesis by auto
qed simp

lemma worker_burst_witness:
  "workerHandles (fold IoServicesImpl_RunWork [1, 2, 3] loop_busy) = 0
   \<and> workerHandles (fold IoServicesImpl_RunWork [1, 2, 3] (snd (IoServicesImpl_Start (service_new :: nat service)))) = 1"
proof -
  have "pool_ok loop_busy" "pool_ok (snd (IoServicesImpl_Start (service_new :: nat service)))"
    by (simp_all add: pool_ok_def loop_busy_def work_begins_def IoServicesImpl_Start_def service_new_def)
  from this [THEN worker_burst, of "[1, 2, 3]"] show ?thesis
    by (simp add: loop_busy_def work_begins_def IoServicesImpl_Start_def service_new_def)
qed


text \<open>Three handlers over a log: the middle one throws.\<close>

definition log_handler :: "nat \<Rightarrow> nat list \<Rightarrow> (unit, nat list) outcome" where
  "log_handler n s = (Inr (), s @ [n])"

definition throw_handler :: "nat list \<Rightarrow> (unit, nat list) outcome" where
  "throw_handler s = (Inl (AppException ''no''), s @ [0])"

definition log_notify :: "string \<Rightarrow> fault \<Rightarrow> nat list \<Rightarrow> (unit, nat list) outcome" where
  "log_notify m f s = (Inr (), s @ [99])"


text \<open>One turn of a handler that leaves the service running: the loop goes on behind it.\<close>

lemma run_step:
  assumes "should s" and "\<not> stopped s" and "should (snd (h s))" and "\<not> stopped (snd (h s))"
    and "\<And>f. fst (h s) = Inl f \<Longrightarrow> catchable f" and "\<And>m f s. fst (notify m f s) = Inr ()"
  shows "IoServicesImpl_Run should stopped notify (h # hs) s =
    IoServicesImpl_Run should stopped notify hs (guarded notify h s)"
proof -
  obtain r t where t: "h s = (r, t)" by fastforce
  show ?thesis
  proof (cases r)
    case (Inl f)
    obtain u where "notify ''Exception in IO service: '' f t = (Inr (), u)" by (metis assms(6) prod.collapse)
    with Inl t assms(1,2,5) show ?thesis
      by (simp add: IoServicesImpl_Run.simps [of should stopped notify "h # hs"] guarded_def)
  next
    case (Inr a)
    with t assms(1-4) show ?thesis
      by (simp add: IoServicesImpl_Run.simps [of should stopped notify _ s]
          IoServicesImpl_Run.simps [of should stopped notify _ t] guarded_def)
  qed
qed

text \<open>
  The loop ends once it was stopped: when the service is stopped and the run flag cleared while some
  handler runs, the loop returns true after that handler, whether it returns or throws, and the handlers
  behind it stay in the queue.
\<close>

lemma loop_returns_when_stopped:
  assumes "should s" and "\<not> stopped s"
    and "\<And>k s. k \<in> set pre \<Longrightarrow> should s \<Longrightarrow> \<not> stopped s \<Longrightarrow> should (snd (k s)) \<and> \<not> stopped (snd (k s))"
    and "\<And>s. stopped (snd (h s)) \<and> \<not> should (snd (h s))"
    and "\<And>k s f. k \<in> set (pre @ [h]) \<Longrightarrow> fst (k s) = Inl f \<Longrightarrow> catchable f"
    and "\<And>m f s. fst (notify m f s) = Inr () \<and> should (snd (notify m f s)) = should s \<and> stopped (snd (notify m f s)) = stopped s"
  shows "\<exists>s'. IoServicesImpl_Run should stopped notify (pre @ h # post) s = (Returned True, post, s')"
  using assms(1-3,5)
proof (induction pre arbitrary: s)
  case Nil
  obtain r t where t: "h s = (r, t)" by fastforce
  with assms(4) [of s] have ends: "stopped t" "\<not> should t" by simp_all
  show ?case
  proof (cases r)
    case (Inl f)
    obtain u where u: "notify ''Exception in IO service: '' f t = (Inr (), u)"
      by (metis assms(6) prod.collapse)
    with assms(6) [of "''Exception in IO service: ''" f t] ends have "\<not> should u" by simp
    with Inl t u Nil.prems(1,2) Nil.prems(4) [of h s f] show ?thesis
      by (simp add: IoServicesImpl_Run.simps [of should stopped notify _ s]
          IoServicesImpl_Run.simps [of should stopped notify _ u])
  next
    case (Inr a)
    with t ends Nil.prems(1,2) show ?thesis
      by (cases post) (simp_all add: IoServicesImpl_Run.simps [of should stopped notify _ s])
  qed
next
  case (Cons k pre)
  have k: "should (snd (k s))" "\<not> stopped (snd (k s))" using Cons.prems(1-3) by simp_all
  with assms(6) have g: "should (guarded notify k s)" "\<not> stopped (guarded notify k s)"
    by (auto simp: guarded_def split: prod.splits sum.splits)
  have rest: "IoServicesImpl_Run should stopped notify ((k # pre) @ h # post) s =
      IoServicesImpl_Run should stopped notify (pre @ h # post) (guarded notify k s)"
    unfolding append_Cons
  proof (rule run_step)
    show "catchable f" if "fst (k s) = Inl f" for f using Cons.prems(4) [of k s f] that by simp
  qed (use Cons.prems(1,2) k assms(6) in simp_all)
  have "\<exists>s'. IoServicesImpl_Run should stopped notify (pre @ h # post) (guarded notify k s) = (Returned True, post, s')"
  proof (rule Cons.IH [OF g])
    show "should (snd (j t)) \<and> \<not> stopped (snd (j t))" if "j \<in> set pre" "should t" "\<not> stopped t" for j t
      using Cons.prems(3) [of j t] that by simp
    show "catchable f" if "j \<in> set (pre @ [h])" "fst (j t) = Inl f" for j t f
      using Cons.prems(4) [of j t f] that by auto
  qed
  then show ?case unfolding rest .
qed

text \<open>A state with the two flags, and a handler during which the service is stopped.\<close>

definition stop_handler :: "bool \<times> bool \<Rightarrow> (unit, bool \<times> bool) outcome" where
  "stop_handler s = (Inl (AppException ''late''), (False, True))"

definition quiet_handler :: "bool \<times> bool \<Rightarrow> (unit, bool \<times> bool) outcome" where
  "quiet_handler s = (Inr (), s)"

lemma loop_returns_when_stopped_witness:
  "\<exists>s'. IoServicesImpl_Run fst snd (\<lambda>m f s. (Inr (), s)) [quiet_handler, stop_handler, quiet_handler] (True, False) =
     (Returned True, [quiet_handler], s')"
proof -
  have "\<exists>s'. IoServicesImpl_Run fst snd (\<lambda>m f s. (Inr (), s)) ([quiet_handler] @ stop_handler # [quiet_handler]) (True, False) =
      (Returned True, [quiet_handler], s')"
    by (rule loop_returns_when_stopped) (auto simp: quiet_handler_def stop_handler_def)
  then show ?thesis by simp
qed

text \<open>
  A worker thread has no such protection. The first handler that throws in a worker leaves the
  thread's function with its exception, which ends the process, and the handlers behind it are not
  run; the loop would have run them all.
\<close>

lemma worker_thread_unprotected:
  assumes "\<And>s. \<not> stopped s" and "\<And>h s. h \<in> set pre \<Longrightarrow> fst (h s) = Inr ()" and "\<And>s. fst (h s) = Inl f"
  shows "\<exists>s'. IoServicesImpl_WorkerThread stopped (pre @ h # post) s = (Inl f, post, s')"
  using assms(2)
proof (induction pre arbitrary: s)
  case Nil
  obtain s' where "h s = (Inl f, s')" by (metis assms(3) prod.collapse)
  then show ?case using assms(1) [of s] by (simp add: IoServicesImpl_WorkerThread_def)
next
  case (Cons k pre)
  obtain s' where "k s = (Inr (), s')" by (metis Cons.prems list.set_intros(1) prod.collapse)
  with Cons.IH [of s'] Cons.prems assms(1) [of s] show ?case by (simp add: IoServicesImpl_WorkerThread_def)
qed

lemma worker_thread_unprotected_witness:
  "fst (IoServicesImpl_WorkerThread (\<lambda>_. False) [log_handler 1, throw_handler, log_handler 2] []) =
     Inl (AppException ''no'')"
  using worker_thread_unprotected [of "\<lambda>_. False" "[log_handler 1]" throw_handler "AppException ''no''" "[log_handler 2]" "[]"]
  by (auto simp: log_handler_def throw_handler_def)

text \<open>
  The services object can be started once. After a start and a stop a second start throws, because
  the future of the promise was taken, and leaves the run flag set although nothing runs; stopping then
  has no effect.
\<close>

lemma service_starts_once:
  shows "\<exists>p1 p2. IoServices_Start False service_new = (Inr (), p1) \<and> posted p1 = [None]
    \<and> IoServices_Start timeout (IoServicesImpl_Stop p1) = (Inl (FutureError ''Future already retrieved''), p2)
    \<and> shouldRun p2 \<and> \<not> runHandleValid p2 \<and> IoServicesImpl_Stop p2 = p2"
  by (simp add: IoServices_Start_def IoServicesImpl_Start_def IoServicesImpl_Stop_def service_new_def Let_def)

end
