(* ===== verification/IoClients.thy ===== *)
theory IoClients
  imports StreamApi
begin

text \<open>
  The client side of the services object: \<open>AsyncConnect\<close> and its handlers in
  \<open>IoServices/IoServicesImpl.cpp\<close> (the map of client connections) and \<open>IoServices/IoServices.cpp\<close>
  (the callbacks an application sees), for TCP connections and for UNIX domain connections.
\<close>

section \<open>State\<close>

text \<open>
  Connections are numbered in the order they are made. What a connection calls back is one of the
  lambdas of \<open>IoServices.cpp\<close>: the bound \<open>ConnectHandler\<close>, the \<open>error\<close> lambda of \<open>AsyncConnect\<close>
  with its captured destination, \<open>notifAvailable\<close> and \<open>errorHandler\<close>. There is one stream handle per
  connection, made in \<open>ConnectHandler\<close>: \<open>cl_held\<close> are those the application refers to, \<open>cl_local\<close> the
  one that a running callback locks. \<open>cl_map\<close> is the map of connections, \<open>cl_connecting\<close> those with an
  outstanding connect, \<open>cl_told\<close> what the application was told.
\<close>

datatype 'dest client_cb =
    On_connected
  | On_connect_failed 'dest
  | On_stream_available
  | On_stream_error

datatype client_event =
    Told_connected nat
  | Told_connect_error string
  | Told_available nat c_int
  | Told_stream_error "nat option" string

record ('dest, 'ep) clients =
  cl_conn :: "nat \<Rightarrow> ('ep, 'dest client_cb) tcp_conn"
  cl_next :: nat
  cl_map :: "nat list"
  cl_connecting :: "nat list"
  cl_held :: "nat list"
  cl_local :: "nat option"
  cl_told :: "client_event list"

definition clients_new :: "('dest, 'ep) clients" where
  "clients_new = \<lparr>cl_conn = (\<lambda>_. TcpPeerConnection_new Plain None), cl_next = 0, cl_map = [],
     cl_connecting = [], cl_held = [], cl_local = None, cl_told = []\<rparr>"

definition ReadSomeChunkSize :: c_int where
  "ReadSomeChunkSize = 12"

text \<open>
  The application calls into the library, keeps a handle a callback gives it, and drops one. What it
  does when told something is a script of such calls. \<open>ce_close_throws\<close> is boost's answer to closing
  a socket after the calls it got.
\<close>

datatype 'dest client_api =
    Connect 'dest
  | Write_string nat "byte list" bool
  | Write_bytes nat "byte list"
  | Consume nat c_int
  | Close nat
  | Keep nat
  | Drop nat

record ('dest, 'ep) client_env =
  ce_nd :: bool
  ce_app :: "client_event \<Rightarrow> ('dest, 'ep) clients \<Rightarrow> 'dest client_api app_step list"
  ce_close_throws :: "'ep sock_call list \<Rightarrow> fault option"

definition client_conn :: "nat \<Rightarrow> ('dest, 'ep) clients \<Rightarrow> ('ep, 'dest client_cb) tcp_conn" where
  "client_conn i s = cl_conn s i"

definition put_client :: "nat \<Rightarrow> ('ep, 'dest client_cb) tcp_conn \<Rightarrow> ('dest, 'ep) clients \<Rightarrow> ('dest, 'ep) clients" where
  "put_client i c s = s\<lparr>cl_conn := (cl_conn s)(i := c)\<rparr>"

section \<open>Handles\<close>

text \<open>The weak pointer of a handle reaches the connection while the map owns it.\<close>

definition client_handle :: "nat \<Rightarrow> ('dest, 'ep) clients \<Rightarrow> ('ep, 'dest client_cb) tcp_conn stream_handle" where
  "client_handle i s =
     \<lparr>peerConnection = (if i \<in> set (cl_map s) then Some (client_conn i s) else None), isClientSide = True\<rparr>"

definition put_handle ::
  "nat \<Rightarrow> ('ep, 'dest client_cb) tcp_conn stream_handle \<Rightarrow> ('dest, 'ep) clients \<Rightarrow> ('dest, 'ep) clients" where
  "put_handle i h s = (case peerConnection h of None \<Rightarrow> s | Some c \<Rightarrow> put_client i c s)"

text \<open>A call through a handle, by an application that has it.\<close>

definition use_handle ::
  "nat \<Rightarrow> (('ep, 'dest client_cb) tcp_conn stream_handle \<Rightarrow> ('a, ('ep, 'dest client_cb) tcp_conn stream_handle) outcome) \<Rightarrow>
   ('dest, 'ep) clients \<Rightarrow> (unit, ('dest, 'ep) clients) outcome" where
  "use_handle i f s =
     (if i \<in> set (cl_held s) \<or> cl_local s = Some i
      then case f (client_handle i s) of
             (Inl t, h) \<Rightarrow> (Inl t, put_handle i h s) | (Inr _, h) \<Rightarrow> (Inr (), put_handle i h s)
      else (Inr (), s))"

text \<open>
  The last reference to a handle goes: its destructor runs. An exception in a destructor ends the
  process.
\<close>

type_synonym ('dest, 'ep) destructor =
  "(unit \<Rightarrow> fault option) \<Rightarrow> ('ep, 'dest client_cb) tcp_conn stream_handle \<Rightarrow>
   (unit, ('ep, 'dest client_cb) tcp_conn stream_handle) outcome"

definition destroy_handle ::
  "('dest, 'ep) client_env \<Rightarrow> ('dest, 'ep) destructor \<Rightarrow> nat \<Rightarrow> ('dest, 'ep) clients \<Rightarrow>
   (unit, ('dest, 'ep) clients) outcome" where
  "destroy_handle e destroy i s =
     (case destroy (\<lambda>_. ce_close_throws e (tcp_calls (client_conn i s))) (client_handle i s) of
        (Inl t, h) \<Rightarrow> (Inl (Aborted ''std::terminate''), s) | (Inr _, h) \<Rightarrow> (Inr (), put_handle i h s))"

definition drop_handle ::
  "('dest, 'ep) client_env \<Rightarrow> ('dest, 'ep) destructor \<Rightarrow> nat \<Rightarrow> ('dest, 'ep) clients \<Rightarrow>
   (unit, ('dest, 'ep) clients) outcome" where
  "drop_handle e destroy i s =
     (if i \<notin> set (cl_held s) then (Inr (), s)
      else let s1 = s\<lparr>cl_held := removeAll i (cl_held s)\<rparr>
           in if cl_local s1 = Some i then (Inr (), s1) else destroy_handle e destroy i s1)"

text \<open>A block with a local shared pointer to the handle, which goes out of scope on every way out.\<close>

definition with_local ::
  "('dest, 'ep) client_env \<Rightarrow> ('dest, 'ep) destructor \<Rightarrow> nat \<Rightarrow>
   (('dest, 'ep) clients \<Rightarrow> (unit, ('dest, 'ep) clients) outcome) \<Rightarrow> ('dest, 'ep) clients \<Rightarrow>
   (unit, ('dest, 'ep) clients) outcome" where
  "with_local e destroy i f s =
     (case f (s\<lparr>cl_local := Some i\<rparr>) of
        (r, s1) \<Rightarrow>
          let s2 = s1\<lparr>cl_local := None\<rparr>
          in if i \<in> set (cl_held s2) then (r, s2)
             else case destroy_handle e destroy i s2 of
                    (Inl t, s3) \<Rightarrow> (Inl t, s3) | (Inr _, s3) \<Rightarrow> (r, s3))"

text \<open>The application is told something, and runs its script.\<close>

definition client_told ::
  "('dest, 'ep) client_env \<Rightarrow> ('dest client_api \<Rightarrow> ('dest, 'ep) clients \<Rightarrow> (unit, ('dest, 'ep) clients) outcome) \<Rightarrow>
   client_event \<Rightarrow> ('dest, 'ep) clients \<Rightarrow> (unit, ('dest, 'ep) clients) outcome" where
  "client_told e call ev s =
     (let s1 = s\<lparr>cl_told := cl_told s @ [ev]\<rparr> in run_script call (ce_app e ev s1) s1)"

section \<open>TCP clients\<close>

text \<open>
  \<open>IoServicesImpl\<close>: a connection goes into the map before it is told to connect, which throws for
  text that is no address; the error handler takes it out again.
\<close>

type_synonym tcp_dest = "string \<times> c_int"

type_synonym tcp_clients = "(tcp_dest, end_point) clients"

definition IoServicesImpl_AsyncConnect ::
  "(string \<Rightarrow> fault + ip_address) \<Rightarrow> tcp_dest client_cb option \<Rightarrow> tcp_dest client_cb option \<Rightarrow> string \<Rightarrow> c_int \<Rightarrow>
   tcp_clients \<Rightarrow> (unit, tcp_clients) outcome" where
  "IoServicesImpl_AsyncConnect from_string connectCb errCb ipAddress port s =
     (let i = cl_next s;
          s1 = (put_client i (TcpConnection_new errCb) s)\<lparr>cl_next := i + 1, cl_map := cl_map s @ [i]\<rparr>
      in and_then (on_host (client_conn i) (put_client i)
                     (TcpPeerConnection_AsyncConnect from_string connectCb ipAddress port) s1)
           (\<lambda>_ s2. (Inr (), s2\<lparr>cl_connecting := cl_connecting s2 @ [i]\<rparr>)))"

definition IoServicesImpl_ErrorHandler :: "nat \<Rightarrow> ('dest, 'ep) clients \<Rightarrow> (unit, ('dest, 'ep) clients) outcome" where
  "IoServicesImpl_ErrorHandler i s =
     (if i \<notin> set (cl_map s) then (Inl (RuntimeError ''Connection not found''), s)
      else (Inr (), s\<lparr>cl_map := removeAll i (cl_map s)\<rparr>))"

text \<open>\<open>IoServices\<close>.\<close>

definition IoServices_AsyncConnect ::
  "(string \<Rightarrow> fault + ip_address) \<Rightarrow> tcp_dest \<Rightarrow> tcp_clients \<Rightarrow> (unit, tcp_clients) outcome" where
  "IoServices_AsyncConnect from_string dest s =
     (case dest of (ipAddress, port) \<Rightarrow>
        IoServicesImpl_AsyncConnect from_string (Some On_connected)
          (Some (On_connect_failed (ipAddress, port))) ipAddress port s)"

text \<open>What the application can call, on a TCP handle.\<close>

fun client_do ::
  "(tcp_dest, end_point) client_env \<Rightarrow> (string \<Rightarrow> fault + ip_address) \<Rightarrow> tcp_dest client_api \<Rightarrow> tcp_clients \<Rightarrow>
   (unit, tcp_clients) outcome" where
  "client_do e from_string (Connect dest) s = IoServices_AsyncConnect from_string dest s"
| "client_do e from_string (Write_string i msg nt) s = use_handle i (StreamConnection_AsyncWrite_string msg nt) s"
| "client_do e from_string (Write_bytes i msg) s = use_handle i (StreamConnection_AsyncWrite_bytes msg) s"
| "client_do e from_string (Consume i len) s = use_handle i (StreamConnection_Consume (ce_nd e) len) s"
| "client_do e from_string (Close i) s = use_handle i StreamConnection_Close s"
| "client_do e from_string (Keep i) s =
     (Inr (), if cl_local s = Some i then s\<lparr>cl_held := List.insert i (cl_held s)\<rparr> else s)"
| "client_do e from_string (Drop i) s = drop_handle e StreamConnection_destroy i s"

text \<open>The lambdas.\<close>

definition notifAvailable ::
  "(tcp_dest, end_point) client_env \<Rightarrow> (string \<Rightarrow> fault + ip_address) \<Rightarrow> nat \<Rightarrow> tcp_dest client_cb \<Rightarrow> nat \<Rightarrow>
   tcp_clients \<Rightarrow> (unit, tcp_clients) outcome" where
  "notifAvailable e from_string i cb available s =
     (if i \<in> set (cl_held s)
      then with_local e StreamConnection_destroy i
             (client_told e (client_do e from_string) (Told_available i (int_of_size available))) s
      else (Inr (), s))"

definition stream_errorHandler ::
  "(tcp_dest, end_point) client_env \<Rightarrow> (string \<Rightarrow> fault + ip_address) \<Rightarrow> nat \<Rightarrow> error_code \<Rightarrow>
   tcp_clients \<Rightarrow> (unit, tcp_clients) outcome" where
  "stream_errorHandler e from_string i ec s =
     (let msg = ''Stream connection error: '' @ ec_message ec
      in if i \<in> set (cl_held s)
         then with_local e StreamConnection_destroy i
                (client_told e (client_do e from_string) (Told_stream_error (Some i) msg)) s
         else client_told e (client_do e from_string) (Told_stream_error None msg) s)"

definition IoServices_ConnectHandler ::
  "(tcp_dest, end_point) client_env \<Rightarrow> (string \<Rightarrow> fault + ip_address) \<Rightarrow> nat \<Rightarrow> tcp_dest client_cb \<Rightarrow>
   tcp_clients \<Rightarrow> (unit, tcp_clients) outcome" where
  "IoServices_ConnectHandler e from_string i cb s =
     with_local e StreamConnection_destroy i
       (\<lambda>s. and_then (on_host (client_conn i) (put_client i)
                       (TcpPeerConnection_BeginChainedRead (ce_nd e) (Some On_stream_available)
                          (Some On_stream_error) ReadSomeChunkSize) s)
              (\<lambda>_ s. client_told e (client_do e from_string) (Told_connected i) s)) s"

text \<open>
  The error callback the connection is made with: the application's, then the clean-up. The chained
  read replaces it by \<open>errorHandler\<close>.
\<close>

definition connect_errHandler ::
  "(tcp_dest, end_point) client_env \<Rightarrow> (string \<Rightarrow> fault + ip_address) \<Rightarrow> nat \<Rightarrow> tcp_dest \<Rightarrow> error_code \<Rightarrow>
   tcp_clients \<Rightarrow> (unit, tcp_clients) outcome" where
  "connect_errHandler e from_string i dest ec s =
     and_then (client_told e (client_do e from_string)
                 (Told_connect_error (''Client connection error on: '' @ fst dest @ '':'' @
                    show_c_int (snd dest) @ '' '' @ ec_message ec)) s)
       (\<lambda>_ s. IoServicesImpl_ErrorHandler i s)"

definition client_failed ::
  "(tcp_dest, end_point) client_env \<Rightarrow> (string \<Rightarrow> fault + ip_address) \<Rightarrow> nat \<Rightarrow> tcp_dest client_cb \<Rightarrow> error_code \<Rightarrow>
   tcp_clients \<Rightarrow> (unit, tcp_clients) outcome" where
  "client_failed e from_string i cb ec s =
     (case cb of
        On_connect_failed dest \<Rightarrow> connect_errHandler e from_string i dest ec s
      | On_stream_error \<Rightarrow> stream_errorHandler e from_string i ec s
      | _ \<Rightarrow> (Inl BadFunctionCall, s))"

text \<open>The completions of a connection: a connect, a read and a write.\<close>

definition client_connected ::
  "(tcp_dest, end_point) client_env \<Rightarrow> (string \<Rightarrow> fault + ip_address) \<Rightarrow> nat \<Rightarrow> error_code \<Rightarrow>
   tcp_clients \<Rightarrow> (unit, tcp_clients) outcome" where
  "client_connected e from_string i ec s =
     TcpPeerConnection_ConnectHandler (client_conn i) (put_client i) (client_failed e from_string i)
       (IoServices_ConnectHandler e from_string i) ec s"

definition client_read ::
  "(tcp_dest, end_point) client_env \<Rightarrow> (string \<Rightarrow> fault + ip_address) \<Rightarrow> nat \<Rightarrow> error_code \<Rightarrow> nat \<Rightarrow>
   tcp_clients \<Rightarrow> (unit, tcp_clients) outcome" where
  "client_read e from_string i ec n s =
     TcpPeerConnection_boostHandler (ce_nd e) (client_conn i) (put_client i) (notifAvailable e from_string i)
       (client_failed e from_string i) ec n s"

definition client_wrote :: "nat \<Rightarrow> error_code \<Rightarrow> nat \<Rightarrow> tcp_clients \<Rightarrow> (unit, tcp_clients) outcome" where
  "client_wrote i ec n s = on_host (client_conn i) (put_client i) (tcp_write_completed ec n) s"

section \<open>UNIX domain clients\<close>

text \<open>The same for \<open>TcpDomainConnection\<close>; here the clean-up also closes the connection.\<close>

type_synonym unix_clients = "(string, string) clients"

definition IoServicesImpl_AsyncConnect_domain ::
  "(string \<Rightarrow> fault + string) \<Rightarrow> string client_cb option \<Rightarrow> string client_cb option \<Rightarrow> string \<Rightarrow>
   unix_clients \<Rightarrow> (unit, unix_clients) outcome" where
  "IoServicesImpl_AsyncConnect_domain endpoint connectCb errCb path s =
     (let i = cl_next s;
          s1 = (put_client i (TcpDomainConnection_new errCb) s)\<lparr>cl_next := i + 1, cl_map := cl_map s @ [i]\<rparr>
      in and_then (on_host (client_conn i) (put_client i)
                     (TcpDomainConnection_AsyncConnect endpoint connectCb path) s1)
           (\<lambda>_ s2. (Inr (), s2\<lparr>cl_connecting := cl_connecting s2 @ [i]\<rparr>)))"

definition IoServicesImpl_ErrorHandler_domain :: "nat \<Rightarrow> unix_clients \<Rightarrow> (unit, unix_clients) outcome" where
  "IoServicesImpl_ErrorHandler_domain i s =
     (if i \<notin> set (cl_map s) then (Inl (RuntimeError ''Connection not found''), s)
      else (Inr (), (put_client i (TcpDomainConnection_Close (client_conn i s)) s)
                      \<lparr>cl_map := removeAll i (cl_map s)\<rparr>))"

definition IoServices_AsyncConnect_unix ::
  "(string \<Rightarrow> fault + string) \<Rightarrow> string \<Rightarrow> unix_clients \<Rightarrow> (unit, unix_clients) outcome" where
  "IoServices_AsyncConnect_unix endpoint path s =
     IoServicesImpl_AsyncConnect_domain endpoint (Some On_connected) (Some (On_connect_failed path)) path s"

fun unix_client_do ::
  "(string, string) client_env \<Rightarrow> (string \<Rightarrow> fault + string) \<Rightarrow> string client_api \<Rightarrow> unix_clients \<Rightarrow>
   (unit, unix_clients) outcome" where
  "unix_client_do e endpoint (Connect dest) s = IoServices_AsyncConnect_unix endpoint dest s"
| "unix_client_do e endpoint (Write_string i msg nt) s = use_handle i (UnixStreamConnection_AsyncWrite_string msg nt) s"
| "unix_client_do e endpoint (Write_bytes i msg) s = use_handle i (UnixStreamConnection_AsyncWrite_bytes msg) s"
| "unix_client_do e endpoint (Consume i len) s = use_handle i (UnixStreamConnection_Consume (ce_nd e) len) s"
| "unix_client_do e endpoint (Close i) s = use_handle i UnixStreamConnection_Close s"
| "unix_client_do e endpoint (Keep i) s =
     (Inr (), if cl_local s = Some i then s\<lparr>cl_held := List.insert i (cl_held s)\<rparr> else s)"
| "unix_client_do e endpoint (Drop i) s = drop_handle e UnixStreamConnection_destroy i s"

definition unix_notifAvailable ::
  "(string, string) client_env \<Rightarrow> (string \<Rightarrow> fault + string) \<Rightarrow> nat \<Rightarrow> string client_cb \<Rightarrow> nat \<Rightarrow>
   unix_clients \<Rightarrow> (unit, unix_clients) outcome" where
  "unix_notifAvailable e endpoint i cb available s =
     (if i \<in> set (cl_held s)
      then with_local e UnixStreamConnection_destroy i
             (client_told e (unix_client_do e endpoint) (Told_available i (int_of_size available))) s
      else (Inr (), s))"

definition unix_stream_errorHandler ::
  "(string, string) client_env \<Rightarrow> (string \<Rightarrow> fault + string) \<Rightarrow> nat \<Rightarrow> error_code \<Rightarrow>
   unix_clients \<Rightarrow> (unit, unix_clients) outcome" where
  "unix_stream_errorHandler e endpoint i ec s =
     (let msg = ''Stream connection error: '' @ ec_message ec
      in if i \<in> set (cl_held s)
         then with_local e UnixStreamConnection_destroy i
                (client_told e (unix_client_do e endpoint) (Told_stream_error (Some i) msg)) s
         else client_told e (unix_client_do e endpoint) (Told_stream_error None msg) s)"

definition IoServices_UnixConnectHandler ::
  "(string, string) client_env \<Rightarrow> (string \<Rightarrow> fault + string) \<Rightarrow> nat \<Rightarrow> string client_cb \<Rightarrow>
   unix_clients \<Rightarrow> (unit, unix_clients) outcome" where
  "IoServices_UnixConnectHandler e endpoint i cb s =
     with_local e UnixStreamConnection_destroy i
       (\<lambda>s. and_then (on_host (client_conn i) (put_client i)
                       (TcpDomainConnection_BeginChainedRead (ce_nd e) (Some On_stream_available)
                          (Some On_stream_error) ReadSomeChunkSize) s)
              (\<lambda>_ s. client_told e (unix_client_do e endpoint) (Told_connected i) s)) s"

definition unix_connect_errHandler ::
  "(string, string) client_env \<Rightarrow> (string \<Rightarrow> fault + string) \<Rightarrow> nat \<Rightarrow> string \<Rightarrow> error_code \<Rightarrow>
   unix_clients \<Rightarrow> (unit, unix_clients) outcome" where
  "unix_connect_errHandler e endpoint i path ec s =
     and_then (client_told e (unix_client_do e endpoint)
                 (Told_connect_error (''Client domain connection error on: '' @ path @ '' '' @ ec_message ec)) s)
       (\<lambda>_ s. IoServicesImpl_ErrorHandler_domain i s)"

definition unix_client_failed ::
  "(string, string) client_env \<Rightarrow> (string \<Rightarrow> fault + string) \<Rightarrow> nat \<Rightarrow> string client_cb \<Rightarrow> error_code \<Rightarrow>
   unix_clients \<Rightarrow> (unit, unix_clients) outcome" where
  "unix_client_failed e endpoint i cb ec s =
     (case cb of
        On_connect_failed path \<Rightarrow> unix_connect_errHandler e endpoint i path ec s
      | On_stream_error \<Rightarrow> unix_stream_errorHandler e endpoint i ec s
      | _ \<Rightarrow> (Inl BadFunctionCall, s))"

definition unix_client_connected ::
  "(string, string) client_env \<Rightarrow> (string \<Rightarrow> fault + string) \<Rightarrow> nat \<Rightarrow> error_code \<Rightarrow>
   unix_clients \<Rightarrow> (unit, unix_clients) outcome" where
  "unix_client_connected e endpoint i ec s =
     TcpDomainConnection_ConnectHandler (client_conn i) (unix_client_failed e endpoint i)
       (IoServices_UnixConnectHandler e endpoint i) ec s"

definition unix_client_read ::
  "(string, string) client_env \<Rightarrow> (string \<Rightarrow> fault + string) \<Rightarrow> nat \<Rightarrow> error_code \<Rightarrow> nat \<Rightarrow>
   unix_clients \<Rightarrow> (unit, unix_clients) outcome" where
  "unix_client_read e endpoint i ec n s =
     TcpDomainConnection_boostHandler (ce_nd e) (client_conn i) (put_client i) (unix_notifAvailable e endpoint i)
       (unix_client_failed e endpoint i) ec n s"

definition unix_client_wrote :: "nat \<Rightarrow> error_code \<Rightarrow> nat \<Rightarrow> unix_clients \<Rightarrow> (unit, unix_clients) outcome" where
  "unix_client_wrote i ec n s = on_host (client_conn i) (put_client i) (domain_write_completed ec n) s"

section \<open>Runs\<close>

text \<open>
  The steps of the client side, over the operations of one kind of connection: calls of the
  application from any thread, and the completion of anything outstanding.
\<close>

inductive client_step ::
  "('dest client_api \<Rightarrow> ('dest, 'ep) clients \<Rightarrow> (unit, ('dest, 'ep) clients) outcome) \<Rightarrow>
   (nat \<Rightarrow> error_code \<Rightarrow> ('dest, 'ep) clients \<Rightarrow> (unit, ('dest, 'ep) clients) outcome) \<Rightarrow>
   (nat \<Rightarrow> error_code \<Rightarrow> nat \<Rightarrow> ('dest, 'ep) clients \<Rightarrow> (unit, ('dest, 'ep) clients) outcome) \<Rightarrow>
   (nat \<Rightarrow> error_code \<Rightarrow> nat \<Rightarrow> ('dest, 'ep) clients \<Rightarrow> (unit, ('dest, 'ep) clients) outcome) \<Rightarrow>
   ('dest, 'ep) clients \<Rightarrow> ('dest, 'ep) clients \<Rightarrow> bool"
  for call connected read wrote where
  call: "call a s = (r, s') \<Longrightarrow> client_step call connected read wrote s s'"
| connected: "i \<in> set (cl_connecting s) \<Longrightarrow>
    connected i ec (s\<lparr>cl_connecting := remove1 i (cl_connecting s)\<rparr>) = (r, s') \<Longrightarrow>
    client_step call connected read wrote s s'"
| read: "fits_read bs (tcp_readBuffer (client_conn i s)) \<Longrightarrow>
    read i no_error (length bs)
      (tcp_put_buffer (client_conn i) (put_client i) (circ_fill bs (tcp_readBuffer (client_conn i s))) s) = (r, s') \<Longrightarrow>
    client_step call connected read wrote s s'"
| read_failed: "reads (tcp_readBuffer (client_conn i s)) = slot # slots \<Longrightarrow> n = 0 \<or> ec_set ec \<Longrightarrow>
    read i ec n
      (tcp_put_buffer (client_conn i) (put_client i) ((tcp_readBuffer (client_conn i s))\<lparr>reads := slots\<rparr>) s) = (r, s') \<Longrightarrow>
    client_step call connected read wrote s s'"
| wrote: "wrote i ec n s = (r, s') \<Longrightarrow> client_step call connected read wrote s s'"

inductive_cases client_stepE [consumes 1, case_names call connected read read_failed wrote]:
  "client_step call connected read wrote s s'"

definition tcp_client_step ::
  "(tcp_dest, end_point) client_env \<Rightarrow> (string \<Rightarrow> fault + ip_address) \<Rightarrow> tcp_clients \<Rightarrow> tcp_clients \<Rightarrow> bool" where
  "tcp_client_step e from_string =
     client_step (client_do e from_string) (client_connected e from_string) (client_read e from_string) client_wrote"

definition unix_client_step ::
  "(string, string) client_env \<Rightarrow> (string \<Rightarrow> fault + string) \<Rightarrow> unix_clients \<Rightarrow> unix_clients \<Rightarrow> bool" where
  "unix_client_step e endpoint =
     client_step (unix_client_do e endpoint) (unix_client_connected e endpoint) (unix_client_read e endpoint) unix_client_wrote"

section \<open>What calls keep\<close>

text \<open>
  \<open>clients_ok\<close>: every connection with an outstanding connect is in the map and still has the error
  callback it was made with; every handle is of a connection that is in the map and reads with
  \<open>errorHandler\<close>, and no other connection reads. \<open>cl_on\<close> is what any call keeps besides.
\<close>

definition clients_ok :: "('dest, 'ep) clients \<Rightarrow> bool" where
  "clients_ok s \<longleftrightarrow>
     distinct (cl_map s) \<and> distinct (cl_connecting s)
     \<and> set (cl_connecting s) \<subseteq> set (cl_map s) \<and> (\<forall>i \<in> set (cl_map s). i < cl_next s)
     \<and> (\<forall>i \<in> set (cl_connecting s). \<exists>d. tcp_errorCallback (cl_conn s i) = Some (On_connect_failed d))
     \<and> (\<forall>i. tcp_errorCallback (cl_conn s i) \<noteq> Some On_stream_error \<longrightarrow> reads (tcp_readBuffer (cl_conn s i)) = [])
     \<and> (\<forall>i. tcp_errorCallback (cl_conn s i) = Some On_stream_error \<longrightarrow> i \<in> set (cl_map s))
     \<and> (\<forall>i. i \<in> set (cl_held s) \<or> cl_local s = Some i \<longrightarrow>
          tcp_errorCallback (cl_conn s i) = Some On_stream_error)"

definition cl_on :: "('dest, 'ep) clients \<Rightarrow> ('dest, 'ep) clients \<Rightarrow> bool" where
  "cl_on s s' \<longleftrightarrow> clients_ok s' \<and> set (cl_map s) \<subseteq> set (cl_map s')
     \<and> (\<forall>i \<in> set (cl_map s). i \<in> set (cl_connecting s') \<longleftrightarrow> i \<in> set (cl_connecting s))
     \<and> (\<forall>i \<in> set (cl_map s). tcp_errorCallback (cl_conn s' i) = tcp_errorCallback (cl_conn s i))
     \<and> cl_local s' = cl_local s"

definition cl_rel :: "('dest, 'ep) clients \<Rightarrow> ('dest, 'ep) clients \<Rightarrow> bool" where
  "cl_rel s s' \<longleftrightarrow> (clients_ok s \<longrightarrow> cl_on s s')"

lemma cl_on_ok: "cl_on s s' \<Longrightarrow> clients_ok s'"
  by (simp add: cl_on_def)

lemma cl_on_refl: "clients_ok s \<Longrightarrow> cl_on s s"
  by (simp add: cl_on_def)

lemma cl_on_trans: "cl_on s t \<Longrightarrow> cl_on t u \<Longrightarrow> cl_on s u"
  by (auto simp: cl_on_def)

lemma cl_rel_refl [simp]: "cl_rel s s"
  by (simp add: cl_rel_def cl_on_refl)

lemma cl_rel_trans: "cl_rel s t \<Longrightarrow> cl_rel t u \<Longrightarrow> cl_rel s u"
  by (auto simp: cl_rel_def dest: cl_on_ok intro: cl_on_trans)

lemma cl_rel_put:
  assumes "tcp_errorCallback c = tcp_errorCallback (cl_conn s i)"
    and "reads (tcp_readBuffer c) = reads (tcp_readBuffer (cl_conn s i))"
  shows "cl_rel s (put_client i c s)"
  using assms by (auto simp: cl_rel_def cl_on_def clients_ok_def put_client_def)

text \<open>Nothing a connection does for a handle changes its callbacks or starts a read.\<close>

definition quiet_handle ::
  "(('ep, 'cb) tcp_conn stream_handle \<Rightarrow> ('a, ('ep, 'cb) tcp_conn stream_handle) outcome) \<Rightarrow> bool" where
  "quiet_handle f \<longleftrightarrow> (\<forall>c h. peerConnection (snd (f h)) = Some c \<longrightarrow>
     (\<exists>c0. peerConnection h = Some c0 \<and> tcp_errorCallback c = tcp_errorCallback c0
        \<and> reads (tcp_readBuffer c) = reads (tcp_readBuffer c0)))"

lemma quiet_locked:
  assumes "\<And>c. tcp_errorCallback (snd (f c)) = tcp_errorCallback c
    \<and> reads (tcp_readBuffer (snd (f c))) = reads (tcp_readBuffer c)"
  shows "quiet_handle (locked msg f)"
proof -
  have "tcp_errorCallback c' = tcp_errorCallback c \<and> reads (tcp_readBuffer c') = reads (tcp_readBuffer c)"
    if "f c = (r, c')" for c r c'
    using assms [of c] that by simp
  then show ?thesis
    by (auto simp: quiet_handle_def locked_def split: option.splits prod.splits)
qed

lemma consume_reads: "reads (snd (IoCircularBuffer_Consume nd n b)) = reads b"
  by (simp add: IoCircularBuffer_Consume_def with_context_def cassert_def Let_def)

lemma quiet_tcp:
  "quiet_handle (StreamConnection_AsyncWrite_string msg nt)"
  "quiet_handle (StreamConnection_AsyncWrite_bytes msg)"
  "quiet_handle (StreamConnection_Consume nd len)"
  "quiet_handle StreamConnection_Close"
  "quiet_handle (StreamConnection_destroy sc)"
proof -
  show "quiet_handle (StreamConnection_AsyncWrite_string msg nt)" "quiet_handle (StreamConnection_AsyncWrite_bytes msg)"
    unfolding StreamConnection_AsyncWrite_string_def [abs_def] StreamConnection_AsyncWrite_bytes_def [abs_def]
    by (rule quiet_locked, simp add: tcp_defs Let_def split: transport.split)+
  show "quiet_handle (StreamConnection_Consume nd len)"
    unfolding StreamConnection_Consume_def [abs_def]
    by (rule quiet_locked)
      (simp add: TcpPeerConnection_Consume_def tcp_on_buffer_def on_host_def consume_reads split: prod.split,
        metis consume_reads snd_conv)
  show "quiet_handle StreamConnection_Close"
    by (auto simp: quiet_handle_def StreamConnection_Close_def tcp_defs split: option.splits)
  show "quiet_handle (StreamConnection_destroy sc)"
    by (auto simp: quiet_handle_def StreamConnection_destroy_def tcp_defs split: option.splits)
qed

lemma quiet_domain:
  "quiet_handle (UnixStreamConnection_AsyncWrite_string msg nt)"
  "quiet_handle (UnixStreamConnection_AsyncWrite_bytes msg)"
  "quiet_handle (UnixStreamConnection_Consume nd len)"
  "quiet_handle UnixStreamConnection_Close"
  "quiet_handle (UnixStreamConnection_destroy sc)"
proof -
  show "quiet_handle (UnixStreamConnection_AsyncWrite_string msg nt)" "quiet_handle (UnixStreamConnection_AsyncWrite_bytes msg)"
    unfolding UnixStreamConnection_AsyncWrite_string_def [abs_def] UnixStreamConnection_AsyncWrite_bytes_def [abs_def]
    by (rule quiet_locked, simp add: domain_defs Let_def)+
  show "quiet_handle (UnixStreamConnection_Consume nd len)"
    unfolding UnixStreamConnection_Consume_def [abs_def]
    by (rule quiet_locked)
      (simp add: TcpDomainConnection_Consume_def on_host_def consume_reads split: prod.split,
        metis consume_reads snd_conv)
  show "quiet_handle UnixStreamConnection_Close"
    by (auto simp: quiet_handle_def UnixStreamConnection_Close_def domain_defs split: option.splits)
  show "quiet_handle (UnixStreamConnection_destroy sc)"
    by (auto simp: quiet_handle_def UnixStreamConnection_destroy_def tcp_defs split: option.splits)
qed

lemma cl_rel_handle:
  assumes "quiet_handle f" and "f (client_handle i s) = (r, h)"
  shows "cl_rel s (put_handle i h s)"
proof (cases "peerConnection h")
  case (Some c)
  with assms obtain c0 where "peerConnection (client_handle i s) = Some c0"
    "tcp_errorCallback c = tcp_errorCallback c0" "reads (tcp_readBuffer c) = reads (tcp_readBuffer c0)"
    unfolding quiet_handle_def by (metis snd_conv)
  with Some show ?thesis
    by (simp add: put_handle_def client_handle_def client_conn_def cl_rel_put split: if_splits)
qed (simp add: put_handle_def)

lemma cl_rel_use: "quiet_handle f \<Longrightarrow> cl_rel s (snd (use_handle i f s))"
  by (auto simp: use_handle_def intro: cl_rel_handle split: prod.split sum.split)

lemma cl_rel_destroy:
  assumes "\<And>sc. quiet_handle (destroy sc)"
  shows "cl_rel s (snd (destroy_handle e destroy i s))"
  using assms by (auto simp: destroy_handle_def intro: cl_rel_handle split: prod.split sum.split)

lemma cl_rel_drop:
  assumes "\<And>sc. quiet_handle (destroy sc)"
  shows "cl_rel s (snd (drop_handle e destroy i s))"
proof -
  let ?t = "s\<lparr>cl_held := removeAll i (cl_held s)\<rparr>"
  have "cl_rel s ?t" by (auto simp: cl_rel_def cl_on_def clients_ok_def)
  with cl_rel_trans [OF this cl_rel_destroy [OF assms]] show ?thesis
    by (simp add: drop_handle_def Let_def)
qed

lemma cl_rel_keep: "cl_local s = Some i \<Longrightarrow> cl_rel s (s\<lparr>cl_held := List.insert i (cl_held s)\<rparr>)"
  by (auto simp: cl_rel_def cl_on_def clients_ok_def)

text \<open>A new connection, in the map and, when it could be told to connect, connecting.\<close>

lemma cl_rel_new:
  assumes "tcp_errorCallback c = Some (On_connect_failed d)" and "reads (tcp_readBuffer c) = []"
  shows "cl_rel s (put_client (cl_next s) c (s\<lparr>cl_next := cl_next s + 1, cl_map := cl_map s @ [cl_next s]\<rparr>))"
    and "cl_rel s ((put_client (cl_next s) c (s\<lparr>cl_next := cl_next s + 1, cl_map := cl_map s @ [cl_next s]\<rparr>))
            \<lparr>cl_connecting := cl_connecting s @ [cl_next s]\<rparr>)"
  using assms by (auto simp: cl_rel_def cl_on_def clients_ok_def put_client_def subset_iff)

section \<open>What handlers keep\<close>

lemma cl_rel_told:
  assumes "\<And>a s. cl_rel s (snd (call a s))"
  shows "cl_rel s (snd (client_told e call ev s))"
proof -
  let ?t = "s\<lparr>cl_told := cl_told s @ [ev]\<rparr>"
  have "cl_rel s ?t" by (auto simp: cl_rel_def cl_on_def clients_ok_def)
  moreover have "cl_rel ?t (snd (run_script call (ce_app e ev ?t) ?t))"
    by (rule run_script_rel [where R = cl_rel]) (auto intro: cl_rel_trans assms)
  ultimately show ?thesis by (auto simp: client_told_def Let_def intro: cl_rel_trans)
qed

lemma clients_ok_unlocal: "clients_ok s \<Longrightarrow> clients_ok (s\<lparr>cl_local := None\<rparr>)"
  by (auto simp: clients_ok_def)

lemma with_local_out:
  assumes "\<And>sc. quiet_handle (destroy sc)" and "f (s\<lparr>cl_local := Some i\<rparr>) = (r, t)" and "clients_ok t"
  shows "cl_on (t\<lparr>cl_local := None\<rparr>) (snd (with_local e destroy i f s))"
proof -
  let ?u = "t\<lparr>cl_local := None\<rparr>"
  have u: "clients_ok ?u" using assms(3) by (rule clients_ok_unlocal)
  moreover have "cl_rel ?u (snd (destroy_handle e destroy i ?u))"
    by (rule cl_rel_destroy) (rule assms(1))
  ultimately have d: "cl_on ?u (snd (destroy_handle e destroy i ?u))" by (simp add: cl_rel_def)
  show ?thesis
  proof (cases "i \<in> set (cl_held t)")
    case True
    with u show ?thesis by (simp add: with_local_def assms(2) cl_on_refl)
  next
    case False
    obtain q v where "destroy_handle e destroy i ?u = (q, v)" by fastforce
    with False d show ?thesis
      by (cases q) (simp_all add: with_local_def assms(2))
  qed
qed

lemma cl_on_with_local:
  assumes "\<And>sc. quiet_handle (destroy sc)" and "\<And>s. cl_rel s (snd (f s))"
    and "clients_ok s" and "cl_local s = None" and "i \<in> set (cl_held s)"
  shows "cl_on s (snd (with_local e destroy i f s))"
proof -
  obtain r t where t: "f (s\<lparr>cl_local := Some i\<rparr>) = (r, t)" by fastforce
  have "clients_ok (s\<lparr>cl_local := Some i\<rparr>)" using assms(3,5) by (auto simp: clients_ok_def)
  with assms(2) [of "s\<lparr>cl_local := Some i\<rparr>"] t have on: "cl_on (s\<lparr>cl_local := Some i\<rparr>) t"
    by (simp add: cl_rel_def)
  then have "cl_on (t\<lparr>cl_local := None\<rparr>) (snd (with_local e destroy i f s))"
    by (intro with_local_out [where f = f, OF assms(1) t]) (rule cl_on_ok)
  with on assms(4) show ?thesis by (auto simp: cl_on_def)
qed

text \<open>A connection whose connect has completed: \<open>cl_over\<close> allows it to leave the map.\<close>

definition cl_over :: "nat \<Rightarrow> ('dest, 'ep) clients \<Rightarrow> ('dest, 'ep) clients \<Rightarrow> bool" where
  "cl_over i s s' \<longleftrightarrow> clients_ok s' \<and> set (cl_map s) - {i} \<subseteq> set (cl_map s') \<and> cl_local s' = cl_local s
     \<and> (\<forall>j \<in> set (cl_map s). j \<in> set (cl_connecting s') \<longleftrightarrow> j \<in> set (cl_connecting s) \<and> j \<noteq> i)"

definition not_connecting :: "nat \<Rightarrow> ('dest, 'ep) clients \<Rightarrow> ('dest, 'ep) clients" where
  "not_connecting i s = s\<lparr>cl_connecting := remove1 i (cl_connecting s)\<rparr>"

lemma not_connecting_ok: "clients_ok s \<Longrightarrow> clients_ok (not_connecting i s)"
  by (auto simp: clients_ok_def not_connecting_def)

lemma cl_over_on: "clients_ok s \<Longrightarrow> cl_on (not_connecting i s) s' \<Longrightarrow> cl_over i s s'"
  by (auto simp: cl_over_def cl_on_def not_connecting_def clients_ok_def)

text \<open>Once the failure was reported the connection is found in the map and taken out.\<close>

lemma cl_over_failed:
  assumes ok: "clients_ok s" and i: "i \<in> set (cl_connecting s)" and on: "cl_on (not_connecting i s) t"
    and c: "tcp_errorCallback (c (cl_conn t i)) = tcp_errorCallback (cl_conn t i)"
      "reads (tcp_readBuffer (c (cl_conn t i))) = reads (tcp_readBuffer (cl_conn t i))"
  shows "i \<in> set (cl_map t)"
    and "cl_over i s ((put_client i (c (cl_conn t i)) t)\<lparr>cl_map := removeAll i (cl_map t)\<rparr>)"
proof -
  from ok i have m: "i \<in> set (cl_map s)" and e: "tcp_errorCallback (cl_conn s i) \<noteq> Some On_stream_error"
    by (auto simp: clients_ok_def)
  with on show "i \<in> set (cl_map t)" by (auto simp: cl_on_def not_connecting_def)
  from on m ok have "i \<notin> set (cl_connecting t)" by (auto simp: cl_on_def not_connecting_def clients_ok_def)
  moreover from on m e have "tcp_errorCallback (cl_conn t i) \<noteq> Some On_stream_error"
    by (simp add: cl_on_def not_connecting_def)
  ultimately have n: "i \<notin> set (cl_connecting t)" "tcp_errorCallback (cl_conn t i) \<noteq> Some On_stream_error" by simp_all
  have "clients_ok ((put_client i (c (cl_conn t i)) t)\<lparr>cl_map := removeAll i (cl_map t)\<rparr>)"
    using c n cl_on_ok [OF on] unfolding clients_ok_def
    by (intro conjI) (auto simp: put_client_def distinct_removeAll)
  moreover have "distinct (cl_connecting s)" using ok by (simp add: clients_ok_def)
  ultimately show "cl_over i s ((put_client i (c (cl_conn t i)) t)\<lparr>cl_map := removeAll i (cl_map t)\<rparr>)"
    using on unfolding cl_over_def cl_on_def
    by (intro conjI) (auto simp: not_connecting_def put_client_def)
qed

text \<open>
  A successful connect: the local handle, the chained read that replaces the error callback, and the
  application's callback.
\<close>

definition begin_read_as :: "('d, 'ep) clients \<Rightarrow> nat \<Rightarrow> ('d, 'ep) clients \<Rightarrow> bool" where
  "begin_read_as s i s' \<longleftrightarrow> (\<exists>c. s' = put_client i c s \<and> tcp_errorCallback c = Some On_stream_error)"

lemma cl_over_connected:
  assumes destroy: "\<And>sc. quiet_handle (destroy sc)"
    and ok: "clients_ok s" and none: "cl_local s = None" and i: "i \<in> set (cl_connecting s)"
    and first: "\<And>s. begin_read_as s i (snd (first s))" and next_step: "\<And>s. cl_rel s (snd (k s))"
  shows "cl_over i s (snd (with_local e destroy i (\<lambda>s. and_then (first s) (\<lambda>_ s. k s)) (not_connecting i s)))"
proof -
  let ?f = "\<lambda>s. and_then (first s) (\<lambda>_ s. k s)" and ?s = "(not_connecting i s)\<lparr>cl_local := Some i\<rparr>"
  obtain r t where t: "?f ?s = (r, t)" by fastforce
  obtain q u where u: "first ?s = (q, u)" by fastforce
  with first [of ?s] obtain c where c: "u = put_client i c ?s" "tcp_errorCallback c = Some On_stream_error"
    by (auto simp: begin_read_as_def)
  from ok i have m: "i \<in> set (cl_map s)" by (auto simp: clients_ok_def)
  with ok c have uok: "clients_ok u"
    by (auto simp: clients_ok_def not_connecting_def put_client_def)
  have "cl_on u t"
    using t u next_step [of u] uok by (cases q) (auto simp: cl_rel_def cl_on_refl)
  define w where "w = snd (with_local e destroy i ?f (not_connecting i s))"
  have "cl_on (t\<lparr>cl_local := None\<rparr>) w"
    unfolding w_def using \<open>cl_on u t\<close> by (intro with_local_out [where f = ?f, OF destroy t]) (rule cl_on_ok)
  with \<open>cl_on u t\<close> have w: "clients_ok w" "set (cl_map u) \<subseteq> set (cl_map w)" "cl_local w = None"
    "\<forall>j \<in> set (cl_map u). j \<in> set (cl_connecting w) \<longleftrightarrow> j \<in> set (cl_connecting u)"
    unfolding cl_on_def by (blast, force, simp, force)
  have "cl_map u = cl_map s" "cl_connecting u = remove1 i (cl_connecting s)"
    by (simp_all add: c not_connecting_def put_client_def)
  moreover have "distinct (cl_connecting s)" using ok by (simp add: clients_ok_def)
  ultimately have "cl_over i s w" using w none by (auto simp: cl_over_def)
  then show ?thesis by (simp add: w_def)
qed

section \<open>The registry\<close>

text \<open>
  The contract between the two kinds of connections and what is proved of the registry: calls and
  completed writes keep what \<open>cl_on\<close> says, so do completed reads of a connection that reads with
  \<open>errorHandler\<close>, and a completed connect is over.
\<close>

locale client_registry =
  fixes call :: "'dest client_api \<Rightarrow> ('dest, 'ep) clients \<Rightarrow> (unit, ('dest, 'ep) clients) outcome"
    and connected :: "nat \<Rightarrow> error_code \<Rightarrow> ('dest, 'ep) clients \<Rightarrow> (unit, ('dest, 'ep) clients) outcome"
    and read :: "nat \<Rightarrow> error_code \<Rightarrow> nat \<Rightarrow> ('dest, 'ep) clients \<Rightarrow> (unit, ('dest, 'ep) clients) outcome"
    and wrote :: "nat \<Rightarrow> error_code \<Rightarrow> nat \<Rightarrow> ('dest, 'ep) clients \<Rightarrow> (unit, ('dest, 'ep) clients) outcome"
  assumes call_keeps: "cl_rel s (snd (call a s))"
    and connected_over: "clients_ok s \<Longrightarrow> cl_local s = None \<Longrightarrow> i \<in> set (cl_connecting s) \<Longrightarrow>
      cl_over i s (snd (connected i ec (not_connecting i s)))"
    and read_keeps: "clients_ok s \<Longrightarrow> cl_local s = None \<Longrightarrow>
      tcp_errorCallback (cl_conn s i) = Some On_stream_error \<Longrightarrow> cl_on s (snd (read i ec n s))"
    and wrote_keeps: "cl_rel s (snd (wrote i ec n s))"
begin

lemma read_step:
  assumes "clients_ok s" and "cl_local s = None" and "reads (tcp_readBuffer (client_conn i s)) \<noteq> []"
  shows "cl_on s (snd (read i ec n (tcp_put_buffer (client_conn i) (put_client i) b s)))"
proof -
  from assms(1,3) have e: "tcp_errorCallback (cl_conn s i) = Some On_stream_error"
    by (auto simp: clients_ok_def client_conn_def)
  let ?t = "tcp_put_buffer (client_conn i) (put_client i) b s"
  have "cl_on s ?t"
    using assms(1) e by (auto simp: cl_on_def clients_ok_def tcp_put_buffer_def put_client_def client_conn_def)
  moreover have "cl_on ?t (snd (read i ec n ?t))"
    using cl_on_ok [OF calculation] assms(2) e
    by (intro read_keeps) (simp_all add: tcp_put_buffer_def put_client_def client_conn_def)
  ultimately show ?thesis by (rule cl_on_trans)
qed

lemma step_over:
  assumes "client_step call connected read wrote s s'" and "clients_ok s" and "cl_local s = None"
  shows "cl_on s s' \<or> (\<exists>i \<in> set (cl_connecting s). cl_over i s s')"
  using assms(1)
proof (cases rule: client_stepE)
  case (call a r)
  with call_keeps [of s a] assms(2) show ?thesis by (simp add: cl_rel_def)
next
  case (connected i ec r)
  with connected_over [OF assms(2,3), of i ec] show ?thesis by (auto simp: not_connecting_def)
next
  case (read bs i r)
  with read_step [OF assms(2,3), of i no_error "length bs" "circ_fill bs (tcp_readBuffer (client_conn i s))"]
  show ?thesis by (simp add: fits_read_def)
next
  case (read_failed i slot slots n ec r)
  with read_step [OF assms(2,3), of i ec n "(tcp_readBuffer (client_conn i s))\<lparr>reads := slots\<rparr>"]
  show ?thesis by simp
next
  case (wrote i ec n r)
  with wrote_keeps [of s i ec n] assms(2) show ?thesis by (simp add: cl_rel_def)
qed

lemma step_keeps:
  assumes "client_step call connected read wrote s s'" and "clients_ok s" and "cl_local s = None"
  shows "clients_ok s' \<and> cl_local s' = None"
    and "i \<in> set (cl_map s) \<Longrightarrow> i \<notin> set (cl_connecting s) \<Longrightarrow> i \<in> set (cl_map s') \<and> i \<notin> set (cl_connecting s')"
  using step_over [OF assms] assms(2,3) by (auto simp: cl_on_def cl_over_def)

lemma run_ok:
  assumes "(client_step call connected read wrote)\<^sup>*\<^sup>* s s'" and "clients_ok s" and "cl_local s = None"
  shows "clients_ok s' \<and> cl_local s' = None"
  using assms by (induction rule: rtranclp_induct) (auto dest: step_keeps(1))

lemma run_owned:
  assumes "(client_step call connected read wrote)\<^sup>*\<^sup>* s s'" and "clients_ok s" and "cl_local s = None"
    and "i \<in> set (cl_map s)" and "i \<notin> set (cl_connecting s)"
  shows "i \<in> set (cl_map s') \<and> i \<notin> set (cl_connecting s')"
  using assms(1)
proof (induction rule: rtranclp_induct)
  case base
  with assms(4,5) show ?case by simp
next
  case (step t u)
  from run_ok [OF step.hyps(1) assms(2,3)] have t: "clients_ok t" "cl_local t = None" by simp_all
  from step_keeps(2) [OF step.hyps(2) t] step.IH show ?case by blast
qed

end

lemma clients_new_ok: "clients_ok clients_new \<and> cl_local clients_new = None"
  by (simp add: clients_new_def clients_ok_def TcpPeerConnection_new_def IoCircularBuffer_move_assign_def
      IoCircularBuffer_new_def IoCircularBuffer_default_def)

subsection \<open>TCP\<close>

lemma tcp_new_facts:
  "tcp_errorCallback (TcpConnection_new cb) = cb" "reads (tcp_readBuffer (TcpConnection_new cb)) = []"
  "tcp_errorCallback (TcpDomainConnection_new cb) = cb" "reads (tcp_readBuffer (TcpDomainConnection_new cb)) = []"
  by (simp_all add: TcpConnection_new_def TcpPeerConnection_new_def TcpDomainConnection_new_def
      IoCircularBuffer_move_assign_def IoCircularBuffer_new_def IoCircularBuffer_default_def)

lemma cl_rel_connect: "cl_rel s (snd (IoServices_AsyncConnect from_string dest s))"
proof -
  obtain ip port where d: "dest = (ip, port)" by fastforce
  let ?c = "TcpConnection_new (Some (On_connect_failed (ip, port))) :: (end_point, tcp_dest client_cb) tcp_conn"
  show ?thesis
  proof (cases "tcp_resolve from_string ip port")
    case (Inl f)
    with cl_rel_new(1) [of ?c "(ip, port)" s] show ?thesis
      by (simp add: d IoServices_AsyncConnect_def IoServicesImpl_AsyncConnect_def on_host_def Let_def
          TcpPeerConnection_AsyncConnect_def tcp_connect_to_def client_conn_def put_client_def tcp_new_facts)
  next
    case (Inr ep)
    let ?d = "tcp_call (Async_connect ep) (?c\<lparr>tcp_connectCallback := Some On_connected, tcp_peerEndPoint := Some ep\<rparr>)"
    from Inr cl_rel_new(2) [of ?d "(ip, port)" s] show ?thesis
      by (simp add: d IoServices_AsyncConnect_def IoServicesImpl_AsyncConnect_def on_host_def Let_def
          TcpPeerConnection_AsyncConnect_def tcp_connect_to_def client_conn_def put_client_def tcp_new_facts
          tcp_call_def)
  qed
qed

lemma cl_rel_client_do: "cl_rel s (snd (client_do e from_string a s))"
  by (cases a) (simp_all add: cl_rel_connect cl_rel_use cl_rel_drop quiet_tcp cl_rel_keep)

lemmas cl_rel_client_told = cl_rel_told [where call = "client_do e from_string" for e from_string, OF cl_rel_client_do]

lemma tcp_begin_read_as:
  "begin_read_as s i (snd (on_host (client_conn i) (put_client i)
     (TcpPeerConnection_BeginChainedRead nd (Some a) (Some On_stream_error) chunk) s))"
  by (auto simp: begin_read_as_def on_host_def TcpPeerConnection_BeginChainedRead_def tcp_on_buffer_def
      split: prod.split)

lemma notifAvailable_on:
  assumes "clients_ok s" and "cl_local s = None"
  shows "cl_on s (snd (notifAvailable e from_string i cb n s))"
  using assms cl_on_with_local [where destroy = StreamConnection_destroy, OF quiet_tcp(5) cl_rel_client_told assms]
  by (simp add: notifAvailable_def cl_on_refl)

lemma stream_errorHandler_on:
  assumes "clients_ok s" and "cl_local s = None"
  shows "cl_on s (snd (stream_errorHandler e from_string i ec s))"
  using assms cl_on_with_local [where destroy = StreamConnection_destroy, OF quiet_tcp(5) cl_rel_client_told assms]
    cl_rel_client_told
  by (simp add: stream_errorHandler_def Let_def) (simp add: cl_rel_def)

text \<open>A failed connect: the application is told, and the connection is found and taken out.\<close>

lemma connect_failed_outcome:
  assumes "clients_ok s" and "i \<in> set (cl_connecting s)"
  shows "connect_errHandler e from_string i (ip, port) ec (not_connecting i s) =
      and_then (client_told e (client_do e from_string)
          (Told_connect_error (''Client connection error on: '' @ ip @ '':'' @ show_c_int port @ '' '' @ ec_message ec))
          (not_connecting i s))
        (\<lambda>_ t. (Inr (), t\<lparr>cl_map := removeAll i (cl_map t)\<rparr>))"
    and "cl_over i s (snd (connect_errHandler e from_string i (ip, port) ec (not_connecting i s)))"
proof -
  let ?ev = "Told_connect_error (''Client connection error on: '' @ ip @ '':'' @ show_c_int port @ '' '' @ ec_message ec)"
  obtain r t where t: "client_told e (client_do e from_string) ?ev (not_connecting i s) = (r, t)" by fastforce
  have on: "cl_on (not_connecting i s) t"
    using cl_rel_client_told [of "not_connecting i s" e e from_string ?ev] not_connecting_ok [OF assms(1)] t
    by (simp add: cl_rel_def)
  note f = cl_over_failed [where c = "\<lambda>c. c", OF assms on refl refl]
  then have "cl_over i s (t\<lparr>cl_map := removeAll i (cl_map t)\<rparr>)" by (simp add: put_client_def)
  moreover have "cl_over i s t" using assms(1) on by (rule cl_over_on)
  moreover have c: "connect_errHandler e from_string i (ip, port) ec (not_connecting i s) =
      and_then (r, t) (\<lambda>_. IoServicesImpl_ErrorHandler i)"
    unfolding t [symmetric] by (simp add: connect_errHandler_def)
  ultimately show "cl_over i s (snd (connect_errHandler e from_string i (ip, port) ec (not_connecting i s)))"
    using f(1) by (cases r) (simp_all add: IoServicesImpl_ErrorHandler_def)
  show "connect_errHandler e from_string i (ip, port) ec (not_connecting i s) =
      and_then (client_told e (client_do e from_string) ?ev (not_connecting i s))
        (\<lambda>_ t. (Inr (), t\<lparr>cl_map := removeAll i (cl_map t)\<rparr>))"
    unfolding t c using f(1) by (cases r) (simp_all add: IoServicesImpl_ErrorHandler_def)
qed

lemma client_connected_over:
  assumes "clients_ok s" and "cl_local s = None" and "i \<in> set (cl_connecting s)"
  shows "cl_over i s (snd (client_connected e from_string i ec (not_connecting i s)))"
proof (cases "ec_set ec")
  case True
  from assms(1,3) obtain ip port where "tcp_errorCallback (cl_conn s i) = Some (On_connect_failed (ip, port))"
    by (fastforce simp: clients_ok_def)
  with True connect_failed_outcome(2) [OF assms(1,3)] show ?thesis
    by (simp add: client_connected_def TcpPeerConnection_ConnectHandler_def tcp_report_def client_conn_def
        client_failed_def not_connecting_def)
next
  case False
  note ok = not_connecting_ok [OF assms(1), of i]
  have "cl_over i s (not_connecting i s)"
    using assms(1) cl_on_refl [OF ok] by (rule cl_over_on)
  moreover have "cl_over i s (put_client i (tcp_call Async_handshake (tcp_call Set_verify_peer
      (client_conn i (not_connecting i s)))) (not_connecting i s))"
    using assms(1) cl_rel_put [of _ "not_connecting i s" i] ok
    by (intro cl_over_on) (simp_all add: cl_rel_def client_conn_def tcp_call_def)
  moreover have "cl_over i s (snd (IoServices_ConnectHandler e from_string i cb (not_connecting i s)))" for cb
    unfolding IoServices_ConnectHandler_def
    by (rule cl_over_connected [where k = "client_told e (client_do e from_string) (Told_connected i)",
          OF quiet_tcp(5) assms tcp_begin_read_as cl_rel_client_told])
  ultimately show ?thesis
    using False by (simp add: client_connected_def TcpPeerConnection_ConnectHandler_def
        TcpConnection_UpperLayerHandleConnect_def TcpSslConnection_UpperLayerHandleConnect_def
        tcp_notify_connected_def split: transport.split option.split)
qed

interpretation client_host: tcp_host "client_conn i" "put_client i" for i
  by unfold_locales (auto simp: client_conn_def put_client_def)

text \<open>
  A completed read of a connection that reads with \<open>errorHandler\<close>, for either kind of connection:
  \<open>app\<close> is the read callback and \<open>err\<close> the dispatch on the error callback.
\<close>

lemma read_handler_on:
  fixes s :: "('dest, 'ep) clients"
  assumes app: "\<And>cb n s. clients_ok s \<Longrightarrow> cl_local s = None \<Longrightarrow> cl_on s (snd (app cb n s))"
    and err: "\<And>ec s. clients_ok s \<Longrightarrow> cl_local s = None \<Longrightarrow> cl_on s (snd (err On_stream_error ec s))"
    and s: "clients_ok s" "cl_local s = None" "tcp_errorCallback (cl_conn s i) = Some On_stream_error"
  shows "cl_on s (snd (TcpPeerConnection_boostHandler nd (client_conn i) (put_client i) app err ec n s))"
proof -
  define R where "R = (\<lambda>(s :: ('dest, 'ep) clients) t. clients_ok s \<and> cl_local s = None \<and>
    tcp_errorCallback (cl_conn s i) = Some On_stream_error \<longrightarrow> cl_on s t)"
  have put: "R s (tcp_put_buffer (client_conn i) (put_client i) b s)" for b s
    unfolding R_def tcp_put_buffer_def cl_on_def clients_ok_def
    by (intro impI conjI) (auto simp: put_client_def client_conn_def)
  have trans: "R u w" if "R u v" "R v w" for u v w
  proof (unfold R_def, intro impI)
    assume u: "clients_ok u \<and> cl_local u = None \<and> tcp_errorCallback (cl_conn u i) = Some On_stream_error"
    with that(1) have v: "cl_on u v" by (simp add: R_def)
    moreover from u have "i \<in> set (cl_map u)" by (simp add: clients_ok_def)
    with u v have "cl_local v = None \<and> tcp_errorCallback (cl_conn v i) = Some On_stream_error"
      by (simp add: cl_on_def)
    with that(2) cl_on_ok [OF v] have "cl_on v w" by (simp add: R_def)
    ultimately show "cl_on u w" by (rule cl_on_trans)
  qed
  show ?thesis
  proof (cases "n = 0 \<or> ec_set ec")
    case True
    let ?t = "put_client i ((client_conn i s)\<lparr>tcp_readBuffer := (tcp_readBuffer (client_conn i s))\<lparr>shouldRead := False\<rparr>\<rparr>) s"
    from put [of s "(tcp_readBuffer (client_conn i s))\<lparr>shouldRead := False\<rparr>"] s have t: "cl_on s ?t"
      by (simp add: R_def tcp_put_buffer_def)
    with s(2) have "cl_on ?t (snd (err On_stream_error ec ?t))"
      by (intro err) (simp_all add: cl_on_def)
    with t have "cl_on s (snd (err On_stream_error ec ?t))" by (rule cl_on_trans)
    with s(3) show ?thesis
      unfolding client_host.boost_handler_failed [OF True] Let_def by (simp add: client_conn_def)
  next
    case False
    have "R s (snd (IoCircularBuffer_ReadSomeHandler nd (tcp_get_buffer (client_conn i))
        (tcp_put_buffer (client_conn i) (put_client i)) app n s))"
      by (rule client_host.reader.handler_rel [where R = R, OF trans put]) (auto simp: R_def intro: app)
    with False s show ?thesis by (simp add: R_def TcpPeerConnection_boostHandler_def)
  qed
qed

lemma wrote_quiet:
  "tcp_errorCallback (snd (tcp_write_completed ec n c)) = tcp_errorCallback c"
  "reads (tcp_readBuffer (snd (tcp_write_completed ec n c))) = reads (tcp_readBuffer c)"
  by (simp_all add: tcp_defs Let_def split: list.split transport.split)

lemma on_conn_rel:
  assumes "tcp_errorCallback (snd (f (cl_conn s i))) = tcp_errorCallback (cl_conn s i)"
    and "reads (tcp_readBuffer (snd (f (cl_conn s i)))) = reads (tcp_readBuffer (cl_conn s i))"
  shows "cl_rel s (snd (on_host (client_conn i) (put_client i) f s))"
  using assms cl_rel_put [of "snd (f (cl_conn s i))" s i]
  by (simp add: on_host_def client_conn_def case_prod_beta)

interpretation tcp_clients: client_registry "client_do e from_string" "client_connected e from_string"
    "client_read e from_string" client_wrote for e from_string
proof unfold_locales
  fix s a i ec n
  show "cl_rel s (snd (client_do e from_string a s))" by (rule cl_rel_client_do)
  show "clients_ok s \<Longrightarrow> cl_local s = None \<Longrightarrow> i \<in> set (cl_connecting s) \<Longrightarrow>
      cl_over i s (snd (client_connected e from_string i ec (not_connecting i s)))"
    by (rule client_connected_over)
  show "cl_on s (snd (client_read e from_string i ec n s))" if "clients_ok s" "cl_local s = None"
    "tcp_errorCallback (cl_conn s i) = Some On_stream_error"
    unfolding client_read_def
    by (rule read_handler_on [OF _ _ that]) (simp_all add: notifAvailable_on client_failed_def stream_errorHandler_on)
  show "cl_rel s (snd (client_wrote i ec n s))"
    unfolding client_wrote_def by (rule on_conn_rel) (rule wrote_quiet)+
qed

subsection \<open>UNIX domain\<close>

lemma clients_order:
  "s\<lparr>cl_next := n, cl_map := m, cl_conn := c\<rparr> = s\<lparr>cl_conn := c, cl_next := n, cl_map := m\<rparr>"
  by (cases s) simp

lemma cl_rel_unix_connect: "cl_rel s (snd (IoServices_AsyncConnect_unix endpoint path s))"
proof -
  let ?c = "TcpDomainConnection_new (Some (On_connect_failed path)) :: (string, string client_cb) tcp_conn"
  show ?thesis
  proof (cases "endpoint path")
    case (Inl f)
    with cl_rel_new(1) [of ?c path s] show ?thesis
      by (simp add: IoServices_AsyncConnect_unix_def IoServicesImpl_AsyncConnect_domain_def on_host_def Let_def
          TcpDomainConnection_AsyncConnect_def client_conn_def put_client_def tcp_new_facts clients_order)
  next
    case (Inr ep)
    let ?d = "?c\<lparr>tcp_connectCallback := Some On_connected, tcp_peerEndPoint := Some ep,
      tcp_calls := tcp_calls ?c @ [Async_connect ep]\<rparr>"
    from Inr cl_rel_new(2) [of ?d path s] show ?thesis
      by (simp add: IoServices_AsyncConnect_unix_def IoServicesImpl_AsyncConnect_domain_def on_host_def Let_def
          TcpDomainConnection_AsyncConnect_def client_conn_def put_client_def tcp_new_facts)
  qed
qed

lemma cl_rel_unix_do: "cl_rel s (snd (unix_client_do e endpoint a s))"
  by (cases a) (simp_all add: cl_rel_unix_connect cl_rel_use cl_rel_drop quiet_domain cl_rel_keep)

lemmas cl_rel_unix_told = cl_rel_told [where call = "unix_client_do e endpoint" for e endpoint, OF cl_rel_unix_do]

lemma domain_begin_read_as:
  "begin_read_as s i (snd (on_host (client_conn i) (put_client i)
     (TcpDomainConnection_BeginChainedRead nd (Some a) (Some On_stream_error) chunk) s))"
  by (auto simp: begin_read_as_def on_host_def TcpDomainConnection_BeginChainedRead_def split: prod.split)

lemma unix_notifAvailable_on:
  assumes "clients_ok s" and "cl_local s = None"
  shows "cl_on s (snd (unix_notifAvailable e endpoint i cb n s))"
  using assms cl_on_with_local [where destroy = UnixStreamConnection_destroy, OF quiet_domain(5) cl_rel_unix_told assms]
  by (simp add: unix_notifAvailable_def cl_on_refl)

lemma unix_stream_errorHandler_on:
  assumes "clients_ok s" and "cl_local s = None"
  shows "cl_on s (snd (unix_stream_errorHandler e endpoint i ec s))"
  using assms cl_on_with_local [where destroy = UnixStreamConnection_destroy, OF quiet_domain(5) cl_rel_unix_told assms]
    cl_rel_unix_told
  by (simp add: unix_stream_errorHandler_def Let_def) (simp add: cl_rel_def)

lemma unix_connect_failed_over:
  assumes "clients_ok s" and "i \<in> set (cl_connecting s)"
  shows "cl_over i s (snd (unix_connect_errHandler e endpoint i path ec (not_connecting i s)))"
proof -
  let ?ev = "Told_connect_error (''Client domain connection error on: '' @ path @ '' '' @ ec_message ec)"
  obtain r t where t: "client_told e (unix_client_do e endpoint) ?ev (not_connecting i s) = (r, t)" by fastforce
  have on: "cl_on (not_connecting i s) t"
    using cl_rel_unix_told [of "not_connecting i s" e e endpoint ?ev] not_connecting_ok [OF assms(1)] t
    by (simp add: cl_rel_def)
  note f = cl_over_failed [where c = TcpDomainConnection_Close, OF assms on]
  then have "cl_over i s (snd (IoServicesImpl_ErrorHandler_domain i t))"
    by (simp add: IoServicesImpl_ErrorHandler_domain_def TcpDomainConnection_Close_def client_conn_def)
  moreover have "cl_over i s t" using assms(1) on by (rule cl_over_on)
  moreover have "unix_connect_errHandler e endpoint i path ec (not_connecting i s) =
      and_then (r, t) (\<lambda>_. IoServicesImpl_ErrorHandler_domain i)"
    unfolding t [symmetric] by (simp add: unix_connect_errHandler_def)
  ultimately show ?thesis by (cases r) simp_all
qed

lemma unix_client_connected_over:
  assumes "clients_ok s" and "cl_local s = None" and "i \<in> set (cl_connecting s)"
  shows "cl_over i s (snd (unix_client_connected e endpoint i ec (not_connecting i s)))"
proof (cases "ec_set ec")
  case True
  from assms(1,3) obtain path where "tcp_errorCallback (cl_conn s i) = Some (On_connect_failed path)"
    by (fastforce simp: clients_ok_def)
  with True unix_connect_failed_over [OF assms(1,3)] show ?thesis
    by (simp add: unix_client_connected_def TcpDomainConnection_ConnectHandler_def client_conn_def
        unix_client_failed_def not_connecting_def)
next
  case False
  have "cl_over i s (not_connecting i s)"
    using assms(1) cl_on_refl [OF not_connecting_ok [OF assms(1), of i]] by (rule cl_over_on)
  moreover have "cl_over i s (snd (IoServices_UnixConnectHandler e endpoint i cb (not_connecting i s)))" for cb
    unfolding IoServices_UnixConnectHandler_def
    by (rule cl_over_connected [where k = "client_told e (unix_client_do e endpoint) (Told_connected i)",
          OF quiet_domain(5) assms domain_begin_read_as cl_rel_unix_told])
  ultimately show ?thesis
    using False by (simp add: unix_client_connected_def TcpDomainConnection_ConnectHandler_def split: option.split)
qed

lemma domain_wrote_quiet:
  "tcp_errorCallback (snd (domain_write_completed ec n c)) = tcp_errorCallback c"
  "reads (tcp_readBuffer (snd (domain_write_completed ec n c))) = reads (tcp_readBuffer c)"
  by (simp_all add: domain_defs Let_def split: list.split)

interpretation unix_clients: client_registry "unix_client_do e endpoint" "unix_client_connected e endpoint"
    "unix_client_read e endpoint" unix_client_wrote for e endpoint
proof unfold_locales
  fix s a i ec n
  show "cl_rel s (snd (unix_client_do e endpoint a s))" by (rule cl_rel_unix_do)
  show "clients_ok s \<Longrightarrow> cl_local s = None \<Longrightarrow> i \<in> set (cl_connecting s) \<Longrightarrow>
      cl_over i s (snd (unix_client_connected e endpoint i ec (not_connecting i s)))"
    by (rule unix_client_connected_over)
  show "cl_on s (snd (unix_client_read e endpoint i ec n s))" if "clients_ok s" "cl_local s = None"
    "tcp_errorCallback (cl_conn s i) = Some On_stream_error"
    unfolding unix_client_read_def domain_read_eq
    by (rule read_handler_on [OF _ _ that])
      (simp_all add: unix_notifAvailable_on unix_client_failed_def unix_stream_errorHandler_on)
  show "cl_rel s (snd (unix_client_wrote i ec n s))"
    unfolding unix_client_wrote_def by (rule on_conn_rel) (rule domain_wrote_quiet)+
qed

section \<open>Properties\<close>

lemma tcp_clients_ok:
  assumes "(tcp_client_step e from_string)\<^sup>*\<^sup>* clients_new s"
  shows "clients_ok s" and "cl_local s = None"
  by (simp_all add: tcp_clients.run_ok [OF assms [unfolded tcp_client_step_def]] clients_new_ok)

text \<open>
  C26: However connects, reads and writes complete and whatever the application does in its callbacks,
  every connection with an outstanding connect or an outstanding read is in the map of client
  connections, once, and no handle the application holds has expired.
\<close>

theorem client_map_sound:
  assumes "(tcp_client_step e from_string)\<^sup>*\<^sup>* clients_new s"
  shows "distinct (cl_map s) \<and> set (cl_connecting s) \<subseteq> set (cl_map s)
    \<and> (\<forall>i. reads (tcp_readBuffer (client_conn i s)) \<noteq> [] \<longrightarrow> i \<in> set (cl_map s))
    \<and> (\<forall>i \<in> set (cl_held s). \<not> StreamConnection_Expired (client_handle i s))"
proof -
  note ok = tcp_clients_ok(1) [OF assms]
  then have "reads (tcp_readBuffer (cl_conn s i)) \<noteq> [] \<Longrightarrow> i \<in> set (cl_map s)" for i
    unfolding clients_ok_def by blast
  with ok show ?thesis
    by (auto simp: clients_ok_def client_conn_def StreamConnection_Expired_def client_handle_def)
qed

text \<open>An application that keeps every handle it is given, and addresses of which only the loopback one parses.\<close>

definition keeping_env :: "(tcp_dest, end_point) client_env" where
  "keeping_env = \<lparr>ce_nd = False,
     ce_app = (\<lambda>ev s. case ev of Told_connected i \<Rightarrow> [Do (Keep i)] | _ \<Rightarrow> []), ce_close_throws = (\<lambda>_. None)\<rparr>"

definition loopback_only :: "string \<Rightarrow> fault + ip_address" where
  "loopback_only a = (if a = ''127.0.0.1'' then Inr (V4 2130706433) else Inl (SystemError 22))"

definition one_connecting :: tcp_clients where
  "one_connecting = snd (client_do keeping_env loopback_only (Connect (''127.0.0.1'', 23)) clients_new)"

definition one_connected :: tcp_clients where
  "one_connected = snd (client_connected keeping_env loopback_only 0 no_error (not_connecting 0 one_connecting))"

definition one_failed :: tcp_clients where
  "one_failed = snd (client_do keeping_env loopback_only (Connect (''localhost'', 23)) clients_new)"

lemmas client_eval = IoServices_AsyncConnect_def IoServicesImpl_AsyncConnect_def on_host_def Let_def
  TcpPeerConnection_AsyncConnect_def tcp_resolve_def tcp_connect_to_def client_conn_def put_client_def
  clients_new_def loopback_only_def tcp_new_facts

lemma one_connecting_facts:
  "cl_map one_connecting = [0]" "cl_connecting one_connecting = [0]" "cl_held one_connecting = []"
  "tcp_class (cl_conn one_connecting 0) = Plain"
  "tcp_errorCallback (cl_conn one_connecting 0) = Some (On_connect_failed (''127.0.0.1'', 23))"
  "tcp_connectCallback (cl_conn one_connecting 0) = Some On_connected"
  "tcp_readBuffer (cl_conn one_connecting 0) = IoCircularBuffer_move_assign IoCircularBuffer_default IoCircularBuffer_new"
  by (simp_all add: one_connecting_def client_eval tcp_call_def TcpConnection_new_def TcpPeerConnection_new_def)

lemma one_connecting_reach: "(tcp_client_step keeping_env loopback_only)\<^sup>*\<^sup>* clients_new one_connecting"
  by (rule r_into_rtranclp) (auto simp: tcp_client_step_def one_connecting_def
      intro!: client_step.call [where a = "Connect (''127.0.0.1'', 23)"] prod.collapse [symmetric])

lemma one_failed_reach: "(tcp_client_step keeping_env loopback_only)\<^sup>*\<^sup>* clients_new one_failed"
  by (rule r_into_rtranclp) (auto simp: tcp_client_step_def one_failed_def
      intro!: client_step.call [where a = "Connect (''localhost'', 23)"] prod.collapse [symmetric])

lemma one_connected_reach: "(tcp_client_step keeping_env loopback_only)\<^sup>*\<^sup>* clients_new one_connected"
proof (rule rtranclp.rtrancl_into_rtrancl [OF one_connecting_reach])
  show "tcp_client_step keeping_env loopback_only one_connecting one_connected"
    unfolding tcp_client_step_def one_connected_def not_connecting_def
    by (rule client_step.connected [where i = 0 and ec = no_error])
      (auto simp: one_connecting_facts intro!: prod.collapse [symmetric])
qed

lemma begin_client_fresh:
  obtains b :: "'dest client_cb circ" where "IoCircularBuffer_BeginChainedRead False (Some On_stream_available) ReadSomeChunkSize True
      IoCircularBuffer_new = (Inr (), b)"
    and "reads b = [(0, 12)]"
  by (simp add: circ_eval ReadSomeChunkSize_def)

lemma one_connected_facts:
  "cl_held one_connected = [0]" "cl_map one_connected = [0]" "cl_connecting one_connected = []"
  "reads (tcp_readBuffer (cl_conn one_connected 0)) = [(0, 12)]"
proof -
  obtain b :: "tcp_dest client_cb circ" where
    b: "IoCircularBuffer_BeginChainedRead False (Some On_stream_available) ReadSomeChunkSize True
      IoCircularBuffer_new = (Inr (), b)"
    "reads b = [(0, 12)]"
    using begin_client_fresh by blast
  let ?c = "(cl_conn one_connecting 0)\<lparr>tcp_errorCallback := Some On_stream_error, tcp_readBuffer := b\<rparr>"
  have "on_host (client_conn 0) (put_client 0)
      (TcpPeerConnection_BeginChainedRead False (Some On_stream_available) (Some On_stream_error) ReadSomeChunkSize)
      ((not_connecting 0 one_connecting)\<lparr>cl_local := Some 0\<rparr>) =
      (Inr (), put_client 0 ?c ((not_connecting 0 one_connecting)\<lparr>cl_local := Some 0\<rparr>))"
    by (simp add: on_host_def TcpPeerConnection_BeginChainedRead_def tcp_on_buffer_def client_conn_def
        not_connecting_def one_connecting_facts b)
  then have c: "snd (IoServices_ConnectHandler keeping_env loopback_only 0 On_connected (not_connecting 0 one_connecting)) =
      (put_client 0 ?c (not_connecting 0 one_connecting))
        \<lparr>cl_told := cl_told one_connecting @ [Told_connected 0], cl_held := [0], cl_local := None\<rparr>"
    by (simp add: IoServices_ConnectHandler_def with_local_def client_told_def keeping_env_def
        put_client_def not_connecting_def one_connecting_facts Let_def)
  have "one_connected = snd (IoServices_ConnectHandler keeping_env loopback_only 0 On_connected (not_connecting 0 one_connecting))"
    by (simp add: one_connected_def client_connected_def TcpPeerConnection_ConnectHandler_def client_conn_def
        TcpConnection_UpperLayerHandleConnect_def tcp_notify_connected_def not_connecting_def one_connecting_facts)
  note e = this [unfolded c]
  show "cl_held one_connected = [0]" "cl_map one_connected = [0]" "cl_connecting one_connected = []"
    "reads (tcp_readBuffer (cl_conn one_connected 0)) = [(0, 12)]"
    by (simp_all add: e put_client_def not_connecting_def one_connecting_facts b(2))
qed

theorem client_map_sound_witness:
  "reads (tcp_readBuffer (client_conn 0 one_connected)) = [(0, 12)] \<and> 0 \<in> set (cl_map one_connected)
    \<and> 0 \<in> set (cl_held one_connected) \<and> \<not> StreamConnection_Expired (client_handle 0 one_connected)"
  using client_map_sound [OF one_connected_reach] by (simp add: one_connected_facts client_conn_def)

text \<open>
  C25: A failed connect is reported and forgotten: the application is told the destination and the
  message of the error, and when its callback returns the connection leaves the map. The exception
  \<open>Connection not found\<close> is never thrown.
\<close>

theorem client_connect_failed:
  assumes "(tcp_client_step e from_string)\<^sup>*\<^sup>* clients_new s" and "i \<in> set (cl_connecting s)" and "ec_set ec"
  shows "\<exists>ip port. tcp_errorCallback (client_conn i s) = Some (On_connect_failed (ip, port))
    \<and> client_connected e from_string i ec (not_connecting i s) =
        and_then (client_told e (client_do e from_string)
            (Told_connect_error (''Client connection error on: '' @ ip @ '':'' @ show_c_int port @ '' '' @ ec_message ec))
            (not_connecting i s))
          (\<lambda>_ t. (Inr (), t\<lparr>cl_map := removeAll i (cl_map t)\<rparr>))"
proof -
  note ok = tcp_clients_ok(1) [OF assms(1)]
  from ok assms(2) obtain ip port where "tcp_errorCallback (cl_conn s i) = Some (On_connect_failed (ip, port))"
    by (fastforce simp: clients_ok_def)
  with assms(3) connect_failed_outcome(1) [OF ok assms(2), of e from_string ip port ec] show ?thesis
    by (intro exI [of _ ip] exI [of _ port])
      (simp add: client_connected_def TcpPeerConnection_ConnectHandler_def tcp_report_def client_conn_def
        client_failed_def not_connecting_def)
qed

theorem client_connect_failed_witness:
  "\<exists>t. client_connected keeping_env loopback_only 0 \<lparr>ec_value = 111, ec_message = ''refused''\<rparr>
         (not_connecting 0 one_connecting) = (Inr (), t)
     \<and> cl_map t = []
     \<and> cl_told t = cl_told one_connecting
         @ [Told_connect_error (''Client connection error on: 127.0.0.1:'' @ show_c_int 23 @ '' refused'')]"
  using client_connect_failed [OF one_connecting_reach, of 0 "\<lparr>ec_value = 111, ec_message = ''refused''\<rparr>"]
  by (auto simp: one_connecting_facts client_conn_def ec_set_def client_told_def keeping_env_def not_connecting_def)

text \<open>
  C24: A client connection that is not waiting for its connect to complete stays in the map for good:
  nothing that happens to it, no read error, no close and no dropped handle, ever takes it out.
\<close>

theorem client_never_released:
  assumes "(tcp_client_step e from_string)\<^sup>*\<^sup>* clients_new s" and "i \<in> set (cl_map s)" and "i \<notin> set (cl_connecting s)"
    and "(tcp_client_step e from_string)\<^sup>*\<^sup>* s s'"
  shows "i \<in> set (cl_map s')"
  using tcp_clients.run_owned [OF assms(4) [unfolded tcp_client_step_def] tcp_clients_ok [OF assms(1)] assms(2,3)]
  by simp

lemma unix_client_never_released:
  assumes "(unix_client_step e endpoint)\<^sup>*\<^sup>* clients_new s" and "i \<in> set (cl_map s)" and "i \<notin> set (cl_connecting s)"
    and "(unix_client_step e endpoint)\<^sup>*\<^sup>* s s'"
  shows "i \<in> set (cl_map s')"
proof -
  note run = assms(1,4) [unfolded unix_client_step_def]
  have "clients_ok s" "cl_local s = None"
    by (simp_all add: unix_clients.run_ok [OF run(1)] clients_new_ok)
  then show ?thesis using unix_clients.run_owned [OF run(2) _ _ assms(2,3)] by simp
qed

theorem client_never_released_witness:
  "0 \<in> set (cl_map (snd (client_do keeping_env loopback_only (Drop 0) one_connected)))"
proof (rule client_never_released [OF one_connected_reach])
  show "(tcp_client_step keeping_env loopback_only)\<^sup>*\<^sup>* one_connected
      (snd (client_do keeping_env loopback_only (Drop 0) one_connected))"
    by (rule r_into_rtranclp) (auto simp: tcp_client_step_def
      intro!: client_step.call [where a = "Drop 0"] prod.collapse [symmetric])
qed (simp_all add: one_connected_facts)

end
