(* ===== verification/UdpListen.thy ===== *)
theory UdpListen
  imports CircularBuffer BufferWrappers WriteQueue
begin

text \<open>
  A datagram socket with its queue and its receive buffer (\<open>IoServices/UdpListener\<close>): sending to
  an address or to the connected peer, connecting, and receiving with or without the sender's
  address.
\<close>

section \<open>State\<close>

text \<open>
  What the listener asks of its boost socket is recorded in the order of the calls. Whether the
  socket is open after some calls, and whether a synchronous call throws, is boost's: \<open>udp_boost\<close>
  holds these two answers as functions of the earlier calls.
\<close>

datatype udp_call =
    Udp_bind end_point
  | Udp_open
  | Udp_join ip_address
  | Udp_broadcast
  | Udp_connect end_point
  | Udp_send "byte list"
  | Udp_send_to "byte list" end_point
  | Udp_receive "nat \<times> nat"
  | Udp_receive_from "nat \<times> nat"
  | Udp_close

record udp_boost =
  socket_is_open :: "udp_call list \<Rightarrow> bool"
  socket_throws :: "udp_call list \<Rightarrow> udp_call \<Rightarrow> fault option"

text \<open>
  The members. \<open>udp_pending\<close> holds the message bound to the handler of each outstanding send,
  \<open>udp_receives\<close> the kind of each outstanding receive: with the sender's address (true) or not.
\<close>

record 'cb udp_listener =
  udp_outQueue :: "udp_buffer list"
  udp_errorCallback :: "'cb option"
  udp_connectCallback :: "'cb option"
  udp_asyncConnected :: bool
  udp_asyncReceivedFrom :: bool
  udp_readBuffer :: "'cb circ"
  udp_peerEndPoint :: "end_point option"
  udp_calls :: "udp_call list"
  udp_pending :: "udp_buffer list"
  udp_receives :: "bool list"

definition udp_call :: "udp_call \<Rightarrow> 'cb udp_listener \<Rightarrow> 'cb udp_listener" where
  "udp_call a u = u\<lparr>udp_calls := udp_calls u @ [a]\<rparr>"

definition udp_try :: "udp_boost \<Rightarrow> udp_call \<Rightarrow> 'cb udp_listener \<Rightarrow> (unit, 'cb udp_listener) outcome" where
  "udp_try bst a u =
     (case socket_throws bst (udp_calls u) a of Some f \<Rightarrow> (Inl f, u) | None \<Rightarrow> (Inr (), udp_call a u))"

text \<open>The constructors: unbound, or bound to an end point, which can throw.\<close>

definition UdpListener_new :: "'cb udp_listener" where
  "UdpListener_new =
     \<lparr>udp_outQueue = [], udp_errorCallback = None, udp_connectCallback = None,
      udp_asyncConnected = False, udp_asyncReceivedFrom = False,
      udp_readBuffer = IoCircularBuffer_move_assign IoCircularBuffer_default IoCircularBuffer_new,
      udp_peerEndPoint = None, udp_calls = [], udp_pending = [], udp_receives = []\<rparr>"

definition UdpListener_new_address ::
  "udp_boost \<Rightarrow> ip_address \<Rightarrow> c_int \<Rightarrow> (unit, 'cb udp_listener) outcome" where
  "UdpListener_new_address bst address port =
     udp_try bst (Udp_bind (address, ushort_of_int port)) UdpListener_new"

definition UdpListener_new_port :: "udp_boost \<Rightarrow> c_int \<Rightarrow> (unit, 'cb udp_listener) outcome" where
  "UdpListener_new_port bst port = udp_try bst (Udp_bind (V4 0, ushort_of_int port)) UdpListener_new"

section \<open>Sending\<close>

definition UdpListener_LaunchWrite :: "udp_boost \<Rightarrow> 'cb udp_listener \<Rightarrow> (unit, 'cb udp_listener) outcome" where
  "UdpListener_LaunchWrite bst u =
     (case udp_outQueue u of
        [] \<Rightarrow> (Inl (Undefined ''front of an empty deque''), u)
      | m # _ \<Rightarrow>
          (case UdpBufferWrapper_DestEp m of
             Some dest \<Rightarrow>
               and_then (if \<not> socket_is_open bst (udp_calls u) then udp_try bst Udp_open u else (Inr (), u))
                 (\<lambda>_ u. case IoEndPoint_ToBoost dest of
                    Inl f \<Rightarrow> (Inl f, u)
                  | Inr boostEp \<Rightarrow>
                      (Inr (), (udp_call (Udp_send_to (UdpBufferWrapper_ToBoost m) boostEp) u)
                         \<lparr>udp_pending := udp_pending u @ [m]\<rparr>))
           | None \<Rightarrow>
               (Inr (), (udp_call (Udp_send (UdpBufferWrapper_ToBoost m)) u)
                  \<lparr>udp_pending := udp_pending u @ [m]\<rparr>)))"

definition UdpListener_QueueOrWriteBuffer ::
  "udp_boost \<Rightarrow> udp_buffer \<Rightarrow> 'cb udp_listener \<Rightarrow> (unit, 'cb udp_listener) outcome" where
  "UdpListener_QueueOrWriteBuffer bst m u =
     (let u1 = u\<lparr>udp_outQueue := udp_outQueue u @ [m]\<rparr>
      in if length (udp_outQueue u1) > 1 then (Inr (), u1) else UdpListener_LaunchWrite bst u1)"

definition UdpListener_AsyncWrite_string ::
  "udp_boost \<Rightarrow> byte list \<Rightarrow> bool \<Rightarrow> 'cb udp_listener \<Rightarrow> (unit, 'cb udp_listener) outcome" where
  "UdpListener_AsyncWrite_string bst msg nullTerminate u =
     UdpListener_QueueOrWriteBuffer bst (UdpBufferWrapper_move_string msg nullTerminate) u"

definition UdpListener_AsyncWrite_bytes ::
  "udp_boost \<Rightarrow> byte list \<Rightarrow> 'cb udp_listener \<Rightarrow> (unit, 'cb udp_listener) outcome" where
  "UdpListener_AsyncWrite_bytes bst msg u =
     UdpListener_QueueOrWriteBuffer bst (UdpBufferWrapper_bytes msg) u"

text \<open>\<open>make_ep\<close> is the end point constructor from text, \<open>IoEndPoint_string\<close> with boost's functions.\<close>

definition UdpListener_AsyncSendTo_string ::
  "udp_boost \<Rightarrow> (string \<Rightarrow> c_int \<Rightarrow> fault + IoEndPoint) \<Rightarrow> byte list \<Rightarrow> string \<Rightarrow> c_int \<Rightarrow> bool \<Rightarrow>
   'cb udp_listener \<Rightarrow> (unit, 'cb udp_listener) outcome" where
  "UdpListener_AsyncSendTo_string bst make_ep msg destIp port nullTerminate u =
     (case UdpBufferWrapper_string_to make_ep msg destIp port nullTerminate of
        Inl f \<Rightarrow> (Inl f, u)
      | Inr m \<Rightarrow> UdpListener_QueueOrWriteBuffer bst m u)"

definition UdpListener_AsyncSendTo_bytes ::
  "udp_boost \<Rightarrow> byte list \<Rightarrow> IoEndPoint \<Rightarrow> 'cb udp_listener \<Rightarrow> (unit, 'cb udp_listener) outcome" where
  "UdpListener_AsyncSendTo_bytes bst msg dest u =
     (case UdpBufferWrapper_bytes_to msg dest of
        Inl f \<Rightarrow> (Inl f, u)
      | Inr m \<Rightarrow> UdpListener_QueueOrWriteBuffer bst m u)"

definition UdpListener_WriteHandler ::
  "udp_boost \<Rightarrow> udp_buffer \<Rightarrow> error_code \<Rightarrow> nat \<Rightarrow> 'cb udp_listener \<Rightarrow> (unit, 'cb udp_listener) outcome" where
  "UdpListener_WriteHandler bst bufWrapper ec written u =
     (if written \<noteq> UdpBufferWrapper_BoostSize bufWrapper then (Inr (), udp_call Udp_close u)
      else case udp_outQueue u of
             [] \<Rightarrow> (Inl (Undefined ''pop_front of an empty deque''), u)
           | _ # q \<Rightarrow>
               let u1 = u\<lparr>udp_outQueue := q\<rparr>
               in if length q = 0 then (Inr (), u1) else UdpListener_LaunchWrite bst u1)"

definition udp_write_completed ::
  "udp_boost \<Rightarrow> error_code \<Rightarrow> nat \<Rightarrow> 'cb udp_listener \<Rightarrow> (unit, 'cb udp_listener) outcome" where
  "udp_write_completed bst ec written u =
     (case udp_pending u of
        [] \<Rightarrow> (Inr (), u)
      | m # ms \<Rightarrow> UdpListener_WriteHandler bst m ec written (u\<lparr>udp_pending := ms\<rparr>))"

section \<open>Socket options and shutdown\<close>

definition UdpListener_JoinMulticastGroup ::
  "udp_boost \<Rightarrow> ip_address \<Rightarrow> 'cb udp_listener \<Rightarrow> (unit, 'cb udp_listener) outcome" where
  "UdpListener_JoinMulticastGroup bst multicastAddr u = udp_try bst (Udp_join multicastAddr) u"

definition UdpListener_EnableBroadcast :: "udp_boost \<Rightarrow> 'cb udp_listener \<Rightarrow> (unit, 'cb udp_listener) outcome" where
  "UdpListener_EnableBroadcast bst u =
     and_then (if \<not> socket_is_open bst (udp_calls u) then udp_try bst Udp_open u else (Inr (), u))
       (\<lambda>_ u. udp_try bst Udp_broadcast u)"

definition UdpListener_StopListening :: "'cb udp_listener \<Rightarrow> 'cb udp_listener" where
  "UdpListener_StopListening u = udp_call Udp_close u"

section \<open>Receiving\<close>

text \<open>
  The function given to the receive buffer (\<open>SetupCircularBufferCallbacks\<close>) starts the receive
  on the socket: of the connected peer, or from anybody, which sets a flag. The buffer records that
  it was called; its effect on the listener is applied when the operation on the buffer returns.
\<close>

definition UdpListener_readSome :: "'cb udp_listener \<Rightarrow> 'cb udp_listener" where
  "UdpListener_readSome u =
     (if length (udp_receives u) < length (reads (udp_readBuffer u))
      then let slot = last (reads (udp_readBuffer u))
           in if udp_asyncConnected u
              then (udp_call (Udp_receive slot) u)\<lparr>udp_receives := udp_receives u @ [False]\<rparr>
              else (udp_call (Udp_receive_from slot) u)
                     \<lparr>udp_receives := udp_receives u @ [True], udp_asyncReceivedFrom := True\<rparr>
      else u)"

definition udp_on_buffer ::
  "('cb circ \<Rightarrow> ('a, 'cb circ) outcome) \<Rightarrow> 'cb udp_listener \<Rightarrow> ('a, 'cb udp_listener) outcome" where
  "udp_on_buffer f u =
     (case on_host udp_readBuffer (\<lambda>b u. u\<lparr>udp_readBuffer := b\<rparr>) f u of (r, u) \<Rightarrow> (r, UdpListener_readSome u))"

definition UdpListener_SetupChainedRead ::
  "bool \<Rightarrow> 'cb option \<Rightarrow> 'cb option \<Rightarrow> c_int \<Rightarrow> bool \<Rightarrow> 'cb udp_listener \<Rightarrow>
   (unit, 'cb udp_listener) outcome" where
  "UdpListener_SetupChainedRead nd available errCb datagramSize immediate u =
     udp_on_buffer (IoCircularBuffer_BeginChainedRead nd available datagramSize immediate)
       (u\<lparr>udp_errorCallback := errCb\<rparr>)"

definition UdpListener_LaunchRead :: "bool \<Rightarrow> 'cb udp_listener \<Rightarrow> (unit, 'cb udp_listener) outcome" where
  "UdpListener_LaunchRead nd u = udp_on_buffer (IoCircularBuffer_BeginReadSome nd) u"

definition UdpListener_Data :: "bool \<Rightarrow> 'cb udp_listener \<Rightarrow> (byte option list, 'cb udp_listener) outcome" where
  "UdpListener_Data nd u = udp_on_buffer (IoCircularBuffer_Get nd) u"

definition UdpListener_Size :: "bool \<Rightarrow> 'cb udp_listener \<Rightarrow> (nat, 'cb udp_listener) outcome" where
  "UdpListener_Size nd u = udp_on_buffer (IoCircularBuffer_Size nd) u"

definition UdpListener_Consume :: "bool \<Rightarrow> nat \<Rightarrow> 'cb udp_listener \<Rightarrow> (unit, 'cb udp_listener) outcome" where
  "UdpListener_Consume nd len u = udp_on_buffer (IoCircularBuffer_Consume nd len) u"

definition UdpListener_CopyTo ::
  "bool \<Rightarrow> byte option list \<Rightarrow> c_int \<Rightarrow> 'cb udp_listener \<Rightarrow> (byte option list, 'cb udp_listener) outcome" where
  "UdpListener_CopyTo nd dest len u = udp_on_buffer (IoCircularBuffer_CopyTo nd dest len) u"

definition udp_get_buffer :: "('s \<Rightarrow> 'cb udp_listener) \<Rightarrow> 's \<Rightarrow> 'cb circ" where
  "udp_get_buffer get s = udp_readBuffer (get s)"

definition udp_put_buffer ::
  "('s \<Rightarrow> 'cb udp_listener) \<Rightarrow> ('cb udp_listener \<Rightarrow> 's \<Rightarrow> 's) \<Rightarrow> 'cb circ \<Rightarrow> 's \<Rightarrow> 's" where
  "udp_put_buffer get put b s = put ((get s)\<lparr>udp_readBuffer := b\<rparr>) s"

definition udp_report ::
  "('s \<Rightarrow> 'cb udp_listener) \<Rightarrow> ('cb \<Rightarrow> error_code \<Rightarrow> 's \<Rightarrow> (unit, 's) outcome) \<Rightarrow>
   error_code \<Rightarrow> 's \<Rightarrow> (unit, 's) outcome" where
  "udp_report get err ec s =
     (case udp_errorCallback (get s) of None \<Rightarrow> (Inl BadFunctionCall, s) | Some cb \<Rightarrow> err cb ec s)"

text \<open>The completion handler of a receive.\<close>

definition UdpListener_boostHandler ::
  "bool \<Rightarrow> ('s \<Rightarrow> 'cb udp_listener) \<Rightarrow> ('cb udp_listener \<Rightarrow> 's \<Rightarrow> 's) \<Rightarrow>
   ('cb \<Rightarrow> nat \<Rightarrow> 's \<Rightarrow> (unit, 's) outcome) \<Rightarrow> ('cb \<Rightarrow> error_code \<Rightarrow> 's \<Rightarrow> (unit, 's) outcome) \<Rightarrow>
   error_code \<Rightarrow> nat \<Rightarrow> 's \<Rightarrow> (unit, 's) outcome" where
  "UdpListener_boostHandler nd get put app err ec bytes_transferred s =
     (if bytes_transferred = 0 \<or> ec_set ec
      then udp_report get err ec
             (udp_put_buffer get put (IoCircularBuffer_EndReadSome (udp_get_buffer get s)) s)
      else case IoCircularBuffer_ReadSomeHandler nd (udp_get_buffer get) (udp_put_buffer get put) app
                  bytes_transferred s of
             (r, s) \<Rightarrow> (r, put (UdpListener_readSome (get s)) s))"

section \<open>Connecting\<close>

definition UdpListener_AsyncConnect ::
  "bool \<Rightarrow> ip_address \<Rightarrow> c_int \<Rightarrow> 'cb option \<Rightarrow> 'cb udp_listener \<Rightarrow> (unit, 'cb udp_listener) outcome" where
  "UdpListener_AsyncConnect nd destIp port connectHandler u =
     cassert nd (udp_errorCallback u \<noteq> None) ''_errorCallback != nullptr'' u
       (Inr (), udp_call (Udp_connect (destIp, ushort_of_int port))
                  (u\<lparr>udp_connectCallback := connectHandler\<rparr>))"

text \<open>
  The chained read is begun by another thread (\<open>std::async\<close>) that the handler waits for; an
  exception of that thread is rethrown by \<open>get\<close>.
\<close>

definition UdpListener_ConnectHandler ::
  "bool \<Rightarrow> ('s \<Rightarrow> 'cb udp_listener) \<Rightarrow> ('cb udp_listener \<Rightarrow> 's \<Rightarrow> 's) \<Rightarrow>
   ('cb \<Rightarrow> error_code \<Rightarrow> 's \<Rightarrow> (unit, 's) outcome) \<Rightarrow> ('cb \<Rightarrow> 's \<Rightarrow> (unit, 's) outcome) \<Rightarrow>
   ip_address \<Rightarrow> c_int \<Rightarrow> error_code \<Rightarrow> 's \<Rightarrow> (unit, 's) outcome" where
  "UdpListener_ConnectHandler nd get put err con destIp port ec s =
     (if ec_set ec then udp_report get err ec s
      else
        let s1 = put ((get s)\<lparr>udp_asyncConnected := True,
                              udp_peerEndPoint := Some (destIp, ushort_of_int port)\<rparr>) s
        in and_then (on_host get put (udp_on_buffer (IoCircularBuffer_BeginReadSome nd)) s1)
             (\<lambda>_ s. case udp_connectCallback (get s) of
                None \<Rightarrow> (Inl BadFunctionCall, s) | Some cb \<Rightarrow> con cb s))"

definition UdpListener_HasAsyncConnected :: "'cb udp_listener \<Rightarrow> bool" where
  "UdpListener_HasAsyncConnected u = udp_asyncConnected u"

definition UdpListener_HasAsyncReceivedFrom :: "'cb udp_listener \<Rightarrow> bool" where
  "UdpListener_HasAsyncReceivedFrom u = udp_asyncReceivedFrom u"

section \<open>Runs\<close>

text \<open>
  The calls made on a listener. \<open>LaunchRead\<close> is only made once the chained read is set up: the
  services object sets it up when it makes the listener.
\<close>

datatype 'cb udp_api =
    Udp_api_write_string "byte list" bool
  | Udp_api_write_bytes "byte list"
  | Udp_api_send_string "byte list" string c_int bool
  | Udp_api_send_bytes "byte list" IoEndPoint
  | Udp_api_setup 'cb 'cb bool
  | Udp_api_launch_read
  | Udp_api_connect ip_address c_int 'cb
  | Udp_api_join ip_address
  | Udp_api_broadcast
  | Udp_api_consume nat
  | Udp_api_stop

text \<open>What a run depends on: the build, boost's socket and end points, and the datagram size.\<close>

record udp_env =
  udp_nd :: bool
  udp_bst :: udp_boost
  udp_make_ep :: "string \<Rightarrow> c_int \<Rightarrow> fault + IoEndPoint"
  udp_datagram :: c_int

fun udp_do :: "udp_env \<Rightarrow> 'cb udp_api \<Rightarrow> 'cb udp_listener \<Rightarrow> (unit, 'cb udp_listener) outcome" where
  "udp_do e (Udp_api_write_string msg nt) u = UdpListener_AsyncWrite_string (udp_bst e) msg nt u"
| "udp_do e (Udp_api_write_bytes msg) u = UdpListener_AsyncWrite_bytes (udp_bst e) msg u"
| "udp_do e (Udp_api_send_string msg ip port nt) u =
     UdpListener_AsyncSendTo_string (udp_bst e) (udp_make_ep e) msg ip port nt u"
| "udp_do e (Udp_api_send_bytes msg dest) u = UdpListener_AsyncSendTo_bytes (udp_bst e) msg dest u"
| "udp_do e (Udp_api_setup cb err immediate) u =
     UdpListener_SetupChainedRead (udp_nd e) (Some cb) (Some err) (udp_datagram e) immediate u"
| "udp_do e Udp_api_launch_read u =
     (if notifyAvailable (udp_readBuffer u) = None then (Inr (), u) else UdpListener_LaunchRead (udp_nd e) u)"
| "udp_do e (Udp_api_connect ip port cb) u = UdpListener_AsyncConnect (udp_nd e) ip port (Some cb) u"
| "udp_do e (Udp_api_join ip) u = UdpListener_JoinMulticastGroup (udp_bst e) ip u"
| "udp_do e Udp_api_broadcast u = UdpListener_EnableBroadcast (udp_bst e) u"
| "udp_do e (Udp_api_consume n) u = UdpListener_Consume (udp_nd e) n u"
| "udp_do e Udp_api_stop u = (Inr (), UdpListener_StopListening u)"

text \<open>The message a call puts into the queue, whether or not it could be launched.\<close>

fun udp_accepts :: "udp_env \<Rightarrow> 'cb udp_api \<Rightarrow> udp_buffer list" where
  "udp_accepts e (Udp_api_write_string msg nt) = [UdpBufferWrapper_move_string msg nt]"
| "udp_accepts e (Udp_api_write_bytes msg) = [UdpBufferWrapper_bytes msg]"
| "udp_accepts e (Udp_api_send_string msg ip port nt) =
     (case UdpBufferWrapper_string_to (udp_make_ep e) msg ip port nt of Inl f \<Rightarrow> [] | Inr m \<Rightarrow> [m])"
| "udp_accepts e (Udp_api_send_bytes msg dest) =
     (case UdpBufferWrapper_bytes_to msg dest of Inl f \<Rightarrow> [] | Inr m \<Rightarrow> [m])"
| "udp_accepts e _ = []"

record 'cb udp_world =
  listener :: "'cb udp_listener"
  udp_accepted :: "udp_buffer list"
  udp_sent :: "udp_buffer list"
  udp_received :: "byte list list"

definition put_listener :: "'cb udp_listener \<Rightarrow> 'cb udp_world \<Rightarrow> 'cb udp_world" where
  "put_listener u w = w\<lparr>listener := u\<rparr>"

definition udp_api_call :: "udp_env \<Rightarrow> 'cb udp_api \<Rightarrow> 'cb udp_world \<Rightarrow> (unit, 'cb udp_world) outcome" where
  "udp_api_call e a w =
     (case udp_do e a (listener w) of
        (r, u) \<Rightarrow> (r, w\<lparr>listener := u, udp_accepted := udp_accepted w @ udp_accepts e a\<rparr>))"

datatype udp_event = Datagram nat | Udp_failed error_code | Udp_connected

type_synonym 'cb udp_app = "'cb \<Rightarrow> udp_event \<Rightarrow> 'cb udp_world \<Rightarrow> 'cb udp_api app_step list"

definition udp_callback ::
  "udp_env \<Rightarrow> 'cb udp_app \<Rightarrow> udp_event \<Rightarrow> 'cb \<Rightarrow> 'cb udp_world \<Rightarrow> (unit, 'cb udp_world) outcome" where
  "udp_callback e app ev cb w = run_script (udp_api_call e) (app cb ev w) w"

definition udp_available ::
  "udp_env \<Rightarrow> 'cb udp_app \<Rightarrow> 'cb \<Rightarrow> nat \<Rightarrow> 'cb udp_world \<Rightarrow> (unit, 'cb udp_world) outcome" where
  "udp_available e app cb n = udp_callback e app (Datagram n) cb"

definition udp_error ::
  "udp_env \<Rightarrow> 'cb udp_app \<Rightarrow> 'cb \<Rightarrow> error_code \<Rightarrow> 'cb udp_world \<Rightarrow> (unit, 'cb udp_world) outcome" where
  "udp_error e app cb ec = udp_callback e app (Udp_failed ec) cb"

text \<open>
  A completed receive put its bytes into its slot, and the sender's address into the listener if it
  was asked for.
\<close>

definition udp_arrival :: "byte list \<Rightarrow> end_point \<Rightarrow> 'cb udp_listener \<Rightarrow> 'cb udp_listener" where
  "udp_arrival bs from u =
     u\<lparr>udp_readBuffer := circ_fill bs (udp_readBuffer u),
       udp_peerEndPoint := (if udp_receives u \<noteq> [] \<and> hd (udp_receives u) then Some from
                            else udp_peerEndPoint u),
       udp_receives := tl (udp_receives u)\<rparr>"

definition udp_lost :: "'cb udp_listener \<Rightarrow> 'cb udp_listener" where
  "udp_lost u = u\<lparr>udp_readBuffer := (udp_readBuffer u)\<lparr>reads := tl (reads (udp_readBuffer u))\<rparr>,
                  udp_receives := tl (udp_receives u)\<rparr>"

inductive udp_step :: "udp_env \<Rightarrow> 'cb udp_app \<Rightarrow> 'cb udp_world \<Rightarrow> 'cb udp_world \<Rightarrow> bool"
  for e app where
  call: "udp_api_call e a w = (r, w') \<Longrightarrow> udp_step e app w w'"
| wrote: "udp_pending (listener w) = m # ms \<Longrightarrow> udp_write_completed (udp_bst e) ec n (listener w) = (r, u) \<Longrightarrow>
    udp_step e app w
      (w\<lparr>listener := u, udp_sent := udp_sent w @ (if n = UdpBufferWrapper_BoostSize m then [m] else [])\<rparr>)"
| received: "fits_read bs (udp_readBuffer (listener w)) \<Longrightarrow>
    UdpListener_boostHandler (udp_nd e) listener put_listener (udp_available e app) (udp_error e app)
      no_error (length bs)
      (w\<lparr>listener := udp_arrival bs from (listener w), udp_received := udp_received w @ [bs]\<rparr>) = (r, w') \<Longrightarrow>
    udp_step e app w w'"
| failed: "reads (udp_readBuffer (listener w)) \<noteq> [] \<Longrightarrow> n = 0 \<or> ec_set ec \<Longrightarrow>
    UdpListener_boostHandler (udp_nd e) listener put_listener (udp_available e app) (udp_error e app) ec n
      (w\<lparr>listener := udp_lost (listener w)\<rparr>) = (r, w') \<Longrightarrow>
    udp_step e app w w'"
| connected: "notifyAvailable (udp_readBuffer (listener w)) \<noteq> None \<or> ec_set ec \<Longrightarrow>
    UdpListener_ConnectHandler (udp_nd e) listener put_listener (udp_error e app)
      (udp_callback e app Udp_connected) destIp port ec w = (r, w') \<Longrightarrow>
    udp_step e app w w'"

definition udp_world_of :: "'cb udp_listener \<Rightarrow> 'cb udp_world" where
  "udp_world_of u = \<lparr>listener = u, udp_accepted = [], udp_sent = [], udp_received = []\<rparr>"

text \<open>A run starts from any of the three constructors.\<close>

definition udp_reach :: "udp_env \<Rightarrow> 'cb udp_app \<Rightarrow> 'cb udp_world \<Rightarrow> bool" where
  "udp_reach e app w \<longleftrightarrow>
     (\<exists>u. (u = UdpListener_new \<or> (\<exists>ip port. UdpListener_new_address (udp_bst e) ip port = (Inr (), u))
             \<or> (\<exists>port. UdpListener_new_port (udp_bst e) port = (Inr (), u)))
          \<and> (udp_step e app)\<^sup>*\<^sup>* (udp_world_of u) w)"

section \<open>The sending side\<close>

text \<open>What the socket was given to send: bytes, with the destination or for the connected peer.\<close>

definition udp_handed :: "'cb udp_listener \<Rightarrow> (byte list \<times> end_point option) list" where
  "udp_handed u = concat (map (\<lambda>a. case a of Udp_send bs \<Rightarrow> [(bs, None)]
     | Udp_send_to bs ep \<Rightarrow> [(bs, Some ep)] | _ \<Rightarrow> []) (udp_calls u))"

definition udp_wire :: "udp_buffer \<Rightarrow> byte list \<times> end_point option" where
  "udp_wire m = (UdpBufferWrapper_ToBoost m,
     case UdpBufferWrapper_DestEp m of
       Some dest \<Rightarrow> (case IoEndPoint_ToBoost dest of Inr ep \<Rightarrow> Some ep | Inl f \<Rightarrow> None)
     | None \<Rightarrow> None)"

definition udp_enqueue :: "udp_boost \<Rightarrow> udp_buffer \<Rightarrow> 'cb udp_listener \<Rightarrow> 'cb udp_listener" where
  "udp_enqueue bst m u = snd (UdpListener_QueueOrWriteBuffer bst m u)"

definition udp_complete :: "udp_boost \<Rightarrow> nat \<Rightarrow> 'cb udp_listener \<Rightarrow> 'cb udp_listener" where
  "udp_complete bst n u = snd (udp_write_completed bst no_error n u)"

named_theorems udp_defs

lemmas udp_send_defs [udp_defs] =
  UdpListener_QueueOrWriteBuffer_def UdpListener_LaunchWrite_def UdpListener_WriteHandler_def
  udp_write_completed_def udp_enqueue_def udp_complete_def udp_call_def udp_try_def

lemma udp_handed_call [simp]:
  "udp_handed (udp_call a u) = udp_handed u @
     (case a of Udp_send bs \<Rightarrow> [(bs, None)] | Udp_send_to bs ep \<Rightarrow> [(bs, Some ep)] | _ \<Rightarrow> [])"
  by (simp add: udp_handed_def udp_call_def split: udp_call.split)

text \<open>A launch leaves the queue; it hands the front message over, or fails and hands nothing over.\<close>

lemma udp_launch:
  assumes "udp_outQueue u = m # q"
  shows "udp_outQueue (snd (UdpListener_LaunchWrite bst u)) = m # q"
    and "udp_pending (snd (UdpListener_LaunchWrite bst u)) = udp_pending u
           \<and> udp_handed (snd (UdpListener_LaunchWrite bst u)) = udp_handed u
         \<or> udp_pending (snd (UdpListener_LaunchWrite bst u)) = udp_pending u @ [m]
           \<and> udp_handed (snd (UdpListener_LaunchWrite bst u)) = udp_handed u @ [udp_wire m]"
  using assms
  by (simp_all add: UdpListener_LaunchWrite_def udp_call_def udp_try_def udp_handed_def udp_wire_def
      and_then_def split: option.split sum.split)

interpretation udp_queue: write_queue "udp_outQueue :: 'cb udp_listener \<Rightarrow> _" udp_pending udp_handed udp_wire
    "udp_enqueue bst" "udp_complete bst" UdpBufferWrapper_BoostSize for bst
proof unfold_locales
  fix m n fs q and s :: "'cb udp_listener"
  let ?u = "s\<lparr>udp_outQueue := udp_outQueue s @ [m]\<rparr>"
  have same: "udp_handed ?u = udp_handed s" by (simp add: udp_handed_def)
  show "udp_outQueue (udp_enqueue bst m s) = udp_outQueue s @ [m]"
    using udp_launch(1) [of ?u m "[]" bst]
    by (cases "udp_outQueue s") (simp_all add: udp_enqueue_def UdpListener_QueueOrWriteBuffer_def Let_def)
  show "udp_outQueue s \<noteq> [] \<Longrightarrow> udp_pending (udp_enqueue bst m s) = udp_pending s
      \<and> udp_handed (udp_enqueue bst m s) = udp_handed s"
    by (cases "udp_outQueue s")
      (simp_all add: udp_enqueue_def UdpListener_QueueOrWriteBuffer_def Let_def udp_handed_def)
  show "udp_outQueue s = [] \<Longrightarrow>
      udp_pending (udp_enqueue bst m s) = udp_pending s \<and> udp_handed (udp_enqueue bst m s) = udp_handed s
      \<or> udp_pending (udp_enqueue bst m s) = udp_pending s @ [m]
        \<and> udp_handed (udp_enqueue bst m s) = udp_handed s @ [udp_wire m]"
    using udp_launch(2) [of ?u m "[]" bst] same
    by (simp add: udp_enqueue_def UdpListener_QueueOrWriteBuffer_def Let_def)
  assume f: "udp_pending s = m # fs"
  let ?v = "s\<lparr>udp_pending := fs, udp_outQueue := q\<rparr>"
  have same': "udp_handed ?v = udp_handed s" by (simp add: udp_handed_def)
  show "n \<noteq> UdpBufferWrapper_BoostSize m \<Longrightarrow> udp_outQueue (udp_complete bst n s) = udp_outQueue s
      \<and> udp_pending (udp_complete bst n s) = fs \<and> udp_handed (udp_complete bst n s) = udp_handed s"
    using f by (simp add: udp_complete_def udp_write_completed_def UdpListener_WriteHandler_def)
      (simp add: udp_call_def udp_handed_def)
  assume q: "udp_outQueue s = m # q"
  have eq: "udp_complete bst (UdpBufferWrapper_BoostSize m) s =
      (if q = [] then ?v else snd (UdpListener_LaunchWrite bst ?v))"
    using f q by (simp add: udp_complete_def udp_write_completed_def UdpListener_WriteHandler_def Let_def)
  show "udp_outQueue (udp_complete bst (UdpBufferWrapper_BoostSize m) s) = q"
    using udp_launch(1) [of ?v "hd q" "tl q" bst] by (cases q) (simp_all add: eq)
  show "udp_pending (udp_complete bst (UdpBufferWrapper_BoostSize m) s) = fs
        \<and> udp_handed (udp_complete bst (UdpBufferWrapper_BoostSize m) s) = udp_handed s
      \<or> udp_pending (udp_complete bst (UdpBufferWrapper_BoostSize m) s) = fs @ take 1 q
        \<and> udp_handed (udp_complete bst (UdpBufferWrapper_BoostSize m) s) =
            udp_handed s @ map udp_wire (take 1 q)"
    using udp_launch(2) [of ?v "hd q" "tl q" bst] same' by (cases q) (simp_all add: eq)
qed

section \<open>A listener inside a larger state\<close>

locale udp_host = host get put
  for get :: "'s \<Rightarrow> 'cb udp_listener" and put :: "'cb udp_listener \<Rightarrow> 's \<Rightarrow> 's"

sublocale udp_host < reader: reading_host "udp_get_buffer get" "udp_put_buffer get put"
  by unfold_locales (simp_all add: udp_get_buffer_def udp_put_buffer_def host_laws)

context udp_host
begin

lemma boost_handler_rel:
  assumes trans: "\<And>s t u. R s t \<Longrightarrow> R t u \<Longrightarrow> R s u"
    and put: "\<And>b s. R s (udp_put_buffer get put b s)"
    and read: "\<And>s. R s (put (UdpListener_readSome (get s)) s)"
    and app: "\<And>cb n s. R s (snd (app cb n s))" and err: "\<And>cb ec s. R s (snd (err cb ec s))"
  shows "R s (snd (UdpListener_boostHandler nd get put app err ec n s))"
proof (cases "n = 0 \<or> ec_set ec")
  case True
  define t where "t = udp_put_buffer get put (IoCircularBuffer_EndReadSome (udp_get_buffer get s)) s"
  have "R s t" by (simp add: t_def put)
  moreover have "R s (snd (err cb ec t))" for cb by (rule trans [OF \<open>R s t\<close> err])
  ultimately show ?thesis
    using True by (simp add: UdpListener_boostHandler_def t_def [symmetric] udp_report_def split: option.split)
next
  case False
  obtain r t where t: "IoCircularBuffer_ReadSomeHandler nd (udp_get_buffer get) (udp_put_buffer get put) app n s = (r, t)"
    by fastforce
  have "R s (snd (IoCircularBuffer_ReadSomeHandler nd (udp_get_buffer get) (udp_put_buffer get put) app n s))"
    by (rule reader.handler_rel [where R = R]) (fact trans put app)+
  then have "R s t" by (simp add: t)
  from trans [OF this read [of t]] False t show ?thesis by (simp add: UdpListener_boostHandler_def)
qed

end

lemma listener_put: "listener (put_listener u w) = u" "put_listener u (put_listener v w) = put_listener u w"
    "put_listener (listener w) w = w"
  by (simp_all add: put_listener_def)

interpretation udp_world: udp_host listener put_listener
  by unfold_locales (simp_all add: listener_put)

text \<open>
  The interface of a relation between worlds that every call of the application keeps: every
  callback and every handler keeps it.
\<close>

locale udp_relation =
  fixes e :: udp_env and app :: "'cb udp_app" and R :: "'cb udp_world \<Rightarrow> 'cb udp_world \<Rightarrow> bool"
  assumes R_refl: "R w w" and R_trans: "R t u \<Longrightarrow> R u v \<Longrightarrow> R t v"
    and R_api: "R w (snd (udp_api_call e a w))"
begin

lemma callback: "R w (snd (udp_callback e app ev cb w))"
  unfolding udp_callback_def by (rule run_script_rel [where R = R]) (blast intro: R_refl R_trans R_api)+

lemma report: "R w (snd (udp_report listener (udp_error e app) ec w))"
  by (simp add: udp_report_def udp_error_def R_refl callback split: option.split)

lemma connect_handler:
  assumes "\<And>w u. u = (listener w)\<lparr>udp_asyncConnected := True, udp_peerEndPoint := Some (ip, ushort_of_int port)\<rparr> \<Longrightarrow>
      R w (put_listener u w)"
    and "\<And>w. notifyAvailable (udp_readBuffer (listener w)) \<noteq> None \<Longrightarrow>
      R w (snd (on_host listener put_listener (udp_on_buffer (IoCircularBuffer_BeginReadSome (udp_nd e))) w))"
    and "notifyAvailable (udp_readBuffer (listener w)) \<noteq> None \<or> ec_set ec"
  shows "R w (snd (UdpListener_ConnectHandler (udp_nd e) listener put_listener (udp_error e app)
    (udp_callback e app Udp_connected) ip port ec w))"
proof (cases "ec_set ec")
  case True
  then show ?thesis by (simp add: UdpListener_ConnectHandler_def report)
next
  case False
  let ?w = "put_listener ((listener w)\<lparr>udp_asyncConnected := True,
    udp_peerEndPoint := Some (ip, ushort_of_int port)\<rparr>) w"
  obtain r t where t: "on_host listener put_listener (udp_on_buffer (IoCircularBuffer_BeginReadSome (udp_nd e))) ?w = (r, t)"
    by fastforce
  have "R w ?w" by (rule assms(1)) simp
  moreover have "R ?w t" using assms(2) [of ?w] assms(3) t False by (simp add: put_listener_def)
  moreover have "R t (snd (case udp_connectCallback (listener t) of None \<Rightarrow> (Inl BadFunctionCall, t)
      | Some cb \<Rightarrow> udp_callback e app Udp_connected cb t))"
    by (simp add: R_refl callback split: option.split)
  ultimately have "R w t" "R w (snd (case udp_connectCallback (listener t) of None \<Rightarrow> (Inl BadFunctionCall, t)
      | Some cb \<Rightarrow> udp_callback e app Udp_connected cb t))"
    using R_trans by blast+
  then show ?thesis
    using False t by (cases r) (simp_all add: UdpListener_ConnectHandler_def Let_def)
qed

lemma read_handler:
  assumes "\<And>b w. R w (udp_put_buffer listener put_listener b w)"
    and "\<And>w. R w (put_listener (UdpListener_readSome (listener w)) w)"
  shows "R w (snd (UdpListener_boostHandler (udp_nd e) listener put_listener
     (udp_available e app) (udp_error e app) ec n w))"
  by (rule udp_world.boost_handler_rel [where R = R])
    (auto intro: R_trans assms simp: udp_available_def udp_error_def callback)

end

section \<open>Steps and the queue\<close>

definition udp_sends :: "udp_env \<Rightarrow> 'cb udp_world \<Rightarrow> bool" where
  "udp_sends e w \<longleftrightarrow> wq_run udp_outQueue udp_pending udp_handed (udp_enqueue (udp_bst e))
     (udp_complete (udp_bst e)) UdpBufferWrapper_BoostSize (udp_accepted w) (udp_sent w) (listener w)"

definition udp_stalled :: "'cb udp_listener \<Rightarrow> bool" where
  "udp_stalled u \<longleftrightarrow> udp_outQueue u \<noteq> [] \<and> udp_pending u = []"

definition udp_sends_on :: "udp_env \<Rightarrow> 'cb udp_world \<Rightarrow> 'cb udp_world \<Rightarrow> bool" where
  "udp_sends_on e w w' \<longleftrightarrow> (udp_sends e w \<longrightarrow> udp_sends e w') \<and> udp_sent w' = udp_sent w
     \<and> (udp_stalled (listener w) \<longrightarrow>
          udp_stalled (listener w') \<and> udp_handed (listener w') = udp_handed (listener w))"

lemma udp_sends_on_trans: "udp_sends_on e t u \<Longrightarrow> udp_sends_on e u v \<Longrightarrow> udp_sends_on e t v"
  by (simp add: udp_sends_on_def)

definition udp_same_sending :: "'cb udp_listener \<Rightarrow> 'cb udp_listener \<Rightarrow> bool" where
  "udp_same_sending u u' \<longleftrightarrow> udp_outQueue u' = udp_outQueue u \<and> udp_pending u' = udp_pending u
     \<and> udp_handed u' = udp_handed u"

lemma udp_sends_on_other:
  assumes "udp_same_sending (listener w) (listener w')"
    and "udp_accepted w' = udp_accepted w" and "udp_sent w' = udp_sent w"
  shows "udp_sends_on e w w'"
  using assms
  by (auto simp: udp_sends_on_def udp_sends_def udp_stalled_def udp_same_sending_def intro: wq_run.other)

lemma udp_sends_on_enqueue:
  "udp_sends_on e w (w\<lparr>listener := udp_enqueue (udp_bst e) m (listener w), udp_accepted := udp_accepted w @ [m]\<rparr>)"
  using udp_queue.stalled_enqueue [of "listener w" "udp_bst e" m] udp_queue.enqueue_busy [of "listener w" "udp_bst e" m]
  by (auto simp: udp_sends_on_def udp_sends_def udp_stalled_def stalled_def wq_run.enq)

lemma udp_readSome_sending: "udp_same_sending u (UdpListener_readSome u)"
  by (simp add: UdpListener_readSome_def udp_same_sending_def Let_def)
    (simp add: udp_call_def udp_handed_def)

lemma udp_on_buffer_sending: "udp_same_sending u (snd (udp_on_buffer f u))"
proof -
  obtain r b where b: "f (udp_readBuffer u) = (r, b)" by fastforce
  have "snd (udp_on_buffer f u) = UdpListener_readSome (u\<lparr>udp_readBuffer := b\<rparr>)"
    by (simp add: udp_on_buffer_def on_host_def b)
  then show ?thesis
    using udp_readSome_sending [of "u\<lparr>udp_readBuffer := b\<rparr>"] by (simp add: udp_same_sending_def udp_handed_def)
qed

lemma udp_write_api: "udp_sends_on e w
    (w\<lparr>listener := snd (UdpListener_QueueOrWriteBuffer (udp_bst e) m (listener w)), udp_accepted := udp_accepted w @ [m]\<rparr>)"
  using udp_sends_on_enqueue [of e w m] by (simp add: udp_enqueue_def)

lemma udp_same_sending_refl [simp]: "udp_same_sending u u"
  by (simp add: udp_same_sending_def)

lemma udp_try_sending:
  "a \<in> {Udp_join ip, Udp_broadcast, Udp_open} \<Longrightarrow> udp_same_sending u (snd (udp_try bst a u))"
  by (auto simp: udp_try_def udp_same_sending_def udp_call_def udp_handed_def split: option.split)

lemma udp_do_sending:
  assumes "\<nexists>msg nt. a = Udp_api_write_string msg nt" "\<nexists>msg. a = Udp_api_write_bytes msg"
    "\<nexists>msg ip port nt. a = Udp_api_send_string msg ip port nt" "\<nexists>msg dest. a = Udp_api_send_bytes msg dest"
  shows "udp_same_sending u (snd (udp_do e a u)) \<and> udp_accepts e a = []"
proof (cases a)
  case (Udp_api_setup cb err immediate)
  have "udp_same_sending u (snd (udp_on_buffer f (u\<lparr>udp_errorCallback := x\<rparr>)))"
    for f :: "'a circ \<Rightarrow> (unit, 'a circ) outcome" and x
    using udp_on_buffer_sending [of "u\<lparr>udp_errorCallback := x\<rparr>" f]
    by (simp add: udp_same_sending_def udp_handed_def)
  with Udp_api_setup show ?thesis by (simp add: UdpListener_SetupChainedRead_def)
next
  case Udp_api_broadcast
  obtain r v where v: "udp_try (udp_bst e) Udp_open u = (r, v)" by fastforce
  then have "udp_same_sending u v" using udp_try_sending [of Udp_open _ u "udp_bst e"] by simp
  moreover have "udp_same_sending v (snd (udp_try (udp_bst e) Udp_broadcast v))"
    by (rule udp_try_sending) simp
  ultimately show ?thesis
    using Udp_api_broadcast v udp_try_sending [of Udp_broadcast _ u "udp_bst e"]
    by (cases r) (auto simp: UdpListener_EnableBroadcast_def udp_same_sending_def)
next
  case (Udp_api_join ip)
  then show ?thesis using udp_try_sending [of "Udp_join ip" ip u "udp_bst e"]
    by (simp add: UdpListener_JoinMulticastGroup_def)
next
  case Udp_api_launch_read
  then show ?thesis by (simp add: UdpListener_LaunchRead_def udp_on_buffer_sending)
next
  case (Udp_api_consume n)
  then show ?thesis by (simp add: UdpListener_Consume_def udp_on_buffer_sending)
qed (use assms in \<open>simp_all add: UdpListener_AsyncConnect_def UdpListener_StopListening_def cassert_def
      udp_same_sending_def udp_call_def udp_handed_def\<close>)

lemma udp_api_call_snd: "snd (udp_api_call e a w) =
    w\<lparr>listener := snd (udp_do e a (listener w)), udp_accepted := udp_accepted w @ udp_accepts e a\<rparr>"
  by (simp add: udp_api_call_def split: prod.split)

lemma udp_api_sends: "udp_sends_on e w (snd (udp_api_call e a w))"
proof (cases a)
  case (Udp_api_send_string msg ip port nt)
  then show ?thesis
    using udp_write_api [of e w] udp_sends_on_other [of w w e]
    by (cases "UdpBufferWrapper_string_to (udp_make_ep e) msg ip port nt")
      (simp_all add: udp_api_call_snd UdpListener_AsyncSendTo_string_def)
next
  case (Udp_api_send_bytes msg dest)
  then show ?thesis
    using udp_write_api [of e w] udp_sends_on_other [of w w e]
    by (cases "UdpBufferWrapper_bytes_to msg dest") (simp_all add: udp_api_call_snd UdpListener_AsyncSendTo_bytes_def)
next
  case (Udp_api_write_string msg nt)
  then show ?thesis using udp_write_api [of e w]
    by (simp add: udp_api_call_snd UdpListener_AsyncWrite_string_def)
next
  case (Udp_api_write_bytes msg)
  then show ?thesis using udp_write_api [of e w]
    by (simp add: udp_api_call_snd UdpListener_AsyncWrite_bytes_def)
qed (rule udp_sends_on_other; simp only: udp_api_call_snd;
    use udp_do_sending [of a "listener w" e] in simp)+

interpretation udp_sending: udp_relation e app "udp_sends_on e" for e app
  by unfold_locales (auto intro: udp_sends_on_trans udp_api_sends udp_sends_on_other)

lemma udp_put_sends: "udp_sends_on e w (udp_put_buffer listener put_listener b w)"
  by (rule udp_sends_on_other)
    (simp_all add: udp_put_buffer_def put_listener_def udp_same_sending_def udp_handed_def)

lemma udp_readSome_sends: "udp_sends_on e w (put_listener (UdpListener_readSome (listener w)) w)"
  by (rule udp_sends_on_other) (simp_all add: put_listener_def udp_readSome_sending)

lemma udp_write_completed_snd: "snd (udp_write_completed bst ec n u) = udp_complete bst n u"
  by (simp add: udp_complete_def udp_write_completed_def UdpListener_WriteHandler_def split: list.split)

lemma udp_step_sends_on:
  assumes "udp_step e app w w'"
  obtains (other) "udp_sends_on e w w'"
  | (wrote) m ms n where "udp_pending (listener w) = m # ms"
      and "w' = w\<lparr>listener := udp_complete (udp_bst e) n (listener w),
        udp_sent := udp_sent w @ (if n = UdpBufferWrapper_BoostSize m then [m] else [])\<rparr>"
  using assms
proof (cases rule: udp_step.cases)
  case (call a r)
  with udp_api_sends [of e w a] other show thesis by simp
next
  case (wrote m ms ec n r u)
  with udp_write_completed_snd [of "udp_bst e" ec n "listener w"] that(2) show thesis by simp
next
  case (received bs "from" r)
  let ?u = "w\<lparr>listener := udp_arrival bs from (listener w), udp_received := udp_received w @ [bs]\<rparr>"
  have "udp_sends_on e w ?u"
    by (rule udp_sends_on_other) (simp_all add: udp_arrival_def udp_same_sending_def udp_handed_def)
  moreover have "udp_sends_on e ?u w'"
    using udp_sending.read_handler [OF udp_put_sends udp_readSome_sends, where e = e and app = app
        and ec = no_error and n = "length bs" and w = ?u] received(2) by simp
  ultimately show thesis by (intro other) (rule udp_sends_on_trans)
next
  case (failed n ec r)
  let ?u = "w\<lparr>listener := udp_lost (listener w)\<rparr>"
  have "udp_sends_on e w ?u"
    by (rule udp_sends_on_other) (simp_all add: udp_lost_def udp_same_sending_def udp_handed_def)
  moreover have "udp_sends_on e ?u w'"
    using udp_sending.read_handler [OF udp_put_sends udp_readSome_sends, where e = e and app = app
        and ec = ec and n = n and w = ?u] failed(3) by simp
  ultimately show thesis by (intro other) (rule udp_sends_on_trans)
next
  case (connected ec destIp port r)
  have "udp_sends_on e w (snd (UdpListener_ConnectHandler (udp_nd e) listener put_listener (udp_error e app)
      (udp_callback e app Udp_connected) destIp port ec w))"
  proof (rule udp_sending.connect_handler [OF _ _ connected(1)])
    show "udp_sends_on e v (snd (on_host listener put_listener (udp_on_buffer (IoCircularBuffer_BeginReadSome (udp_nd e))) v))" for v
      by (rule udp_sends_on_other)
        (simp_all add: on_host_def put_listener_def udp_on_buffer_sending split: prod.split,
          metis snd_conv udp_on_buffer_sending)
  qed (rule udp_sends_on_other; simp add: put_listener_def udp_same_sending_def udp_handed_def)
  with connected(2) other show thesis by simp
qed

lemma udp_wrote_sends:
  assumes "udp_sends e w" and "udp_pending (listener w) = m # ms"
  shows "udp_sends e (w\<lparr>listener := udp_complete (udp_bst e) n (listener w),
    udp_sent := udp_sent w @ (if n = UdpBufferWrapper_BoostSize m then [m] else [])\<rparr>)"
  using assms wq_run.full wq_run.short by (auto simp: udp_sends_def)

lemma udp_step_sends: "udp_step e app w w' \<Longrightarrow> udp_sends e w \<Longrightarrow> udp_sends e w'"
  by (erule udp_step_sends_on) (auto simp: udp_sends_on_def udp_wrote_sends)

lemma udp_step_stalled:
  assumes "udp_step e app w w'" and "udp_stalled (listener w)"
  shows "udp_stalled (listener w') \<and> udp_handed (listener w') = udp_handed (listener w) \<and> udp_sent w' = udp_sent w"
  using assms by (elim udp_step_sends_on) (auto simp: udp_sends_on_def udp_stalled_def)

lemma udp_steps_stalled:
  assumes "(udp_step e app)\<^sup>*\<^sup>* w w'" and "udp_stalled (listener w)"
  shows "udp_stalled (listener w') \<and> udp_handed (listener w') = udp_handed (listener w) \<and> udp_sent w' = udp_sent w"
  using assms(1)
proof (induction rule: rtranclp_induct)
  case (step v w')
  with udp_step_stalled show ?case by metis
qed (use assms(2) in simp)

text \<open>What the three constructors have in common.\<close>

definition udp_fresh :: "'cb udp_listener \<Rightarrow> bool" where
  "udp_fresh u \<longleftrightarrow> (\<exists>as. u = UdpListener_new\<lparr>udp_calls := as\<rparr> \<and> (as = [] \<or> (\<exists>ep. as = [Udp_bind ep])))"

lemma udp_reach_fresh:
  assumes "udp_reach e app w"
  obtains u where "udp_fresh u" and "(udp_step e app)\<^sup>*\<^sup>* (udp_world_of u) w"
proof -
  have "udp_fresh u" if "udp_try bst (Udp_bind ep) UdpListener_new = (Inr (), u)" for u :: "'a udp_listener" and bst ep
    using that by (auto simp: udp_try_def udp_fresh_def udp_call_def UdpListener_new_def split: option.splits)
  moreover have "udp_fresh UdpListener_new"
    by (simp add: udp_fresh_def) (simp add: UdpListener_new_def)
  ultimately show thesis
    using assms that unfolding udp_reach_def UdpListener_new_address_def UdpListener_new_port_def by blast
qed

lemma udp_reach_induct:
  assumes "udp_reach e app w" and "\<And>u. udp_fresh u \<Longrightarrow> P (udp_world_of u)"
    and "\<And>v w. udp_step e app v w \<Longrightarrow> P v \<Longrightarrow> P w"
  shows "P w"
proof -
  obtain u where u: "udp_fresh u" "(udp_step e app)\<^sup>*\<^sup>* (udp_world_of u) w"
    using assms(1) by (rule udp_reach_fresh)
  from u(2) show ?thesis
    by (induction rule: rtranclp_induct) (use assms(2,3) u(1) in blast)+
qed

lemma udp_reach_sends: "udp_reach e app w \<Longrightarrow> udp_sends e w"
proof (erule udp_reach_induct)
  show "udp_fresh u \<Longrightarrow> udp_sends e (udp_world_of u)" for u :: "'a udp_listener"
    by (auto simp: udp_sends_def udp_world_of_def udp_fresh_def UdpListener_new_def udp_handed_def
        intro!: wq_run.start)
qed (rule udp_step_sends)

section \<open>The receiving side\<close>

text \<open>
  \<open>udp_calls_ok\<close>: every receive was given a slot of a whole datagram, and the flag says whether
  one asked for the sender. \<open>udp_wf\<close> is the invariant of a listener, in which the socket's
  receives and those of the buffer correspond; \<open>udp_before\<close> may still lack the call of the last.
\<close>

definition udp_slots :: "'cb udp_listener \<Rightarrow> (bool \<times> nat \<times> nat) list" where
  "udp_slots u = concat (map (\<lambda>a. case a of Udp_receive s \<Rightarrow> [(False, s)]
     | Udp_receive_from s \<Rightarrow> [(True, s)] | _ \<Rightarrow> []) (udp_calls u))"

definition udp_calls_ok :: "udp_env \<Rightarrow> 'cb udp_listener \<Rightarrow> bool" where
  "udp_calls_ok e u \<longleftrightarrow> (\<forall>x \<in> set (udp_slots u). snd (snd x) = size_of_int (udp_datagram e))
     \<and> (udp_asyncReceivedFrom u \<longleftrightarrow> True \<in> fst ` set (udp_slots u))"

definition udp_chunk_ok :: "udp_env \<Rightarrow> 'cb udp_listener \<Rightarrow> bool" where
  "udp_chunk_ok e u \<longleftrightarrow> (notifyAvailable (udp_readBuffer u) \<noteq> None \<longrightarrow>
     chunkSize (udp_readBuffer u) = udp_datagram e)"

definition udp_before :: "udp_env \<Rightarrow> 'cb udp_listener \<Rightarrow> bool" where
  "udp_before e u \<longleftrightarrow> circ_inv (udp_readBuffer u) \<and> udp_chunk_ok e u \<and> udp_calls_ok e u
     \<and> length (udp_receives u) \<le> length (reads (udp_readBuffer u))"

definition udp_wf :: "udp_env \<Rightarrow> 'cb udp_listener \<Rightarrow> bool" where
  "udp_wf e u \<longleftrightarrow> circ_inv (udp_readBuffer u) \<and> udp_chunk_ok e u \<and> udp_calls_ok e u
     \<and> length (udp_receives u) = length (reads (udp_readBuffer u))"

lemma udp_readSome_wf:
  assumes "udp_before e u"
  shows "udp_wf e (UdpListener_readSome u) \<and> udp_readBuffer (UdpListener_readSome u) = udp_readBuffer u"
proof (cases "length (udp_receives u) < length (reads (udp_readBuffer u))")
  case True
  with assms have r: "udp_receives u = []" "reads (udp_readBuffer u) = [circ_slot (udp_readBuffer u)]"
    "notifyAvailable (udp_readBuffer u) \<noteq> None"
    by (auto simp: udp_before_def circ_inv_def)
  with assms have "snd (circ_slot (udp_readBuffer u)) = size_of_int (udp_datagram e)"
    by (simp add: udp_before_def udp_chunk_ok_def circ_slot_def)
  with True r assms show ?thesis
    by (simp add: UdpListener_readSome_def udp_wf_def udp_before_def udp_call_def udp_chunk_ok_def
        udp_calls_ok_def udp_slots_def Let_def)
next
  case False
  with assms show ?thesis by (auto simp: UdpListener_readSome_def udp_wf_def udp_before_def)
qed

text \<open>An operation on the buffer outside of a callback.\<close>

lemma udp_on_buffer_wf:
  assumes "udp_wf e u"
    and "circ_inv (snd (f (udp_readBuffer u)))"
    and "length (reads (udp_readBuffer u)) \<le> length (reads (snd (f (udp_readBuffer u))))"
    and "notifyAvailable (snd (f (udp_readBuffer u))) \<noteq> None \<Longrightarrow>
      chunkSize (snd (f (udp_readBuffer u))) = udp_datagram e"
  shows "udp_wf e (snd (udp_on_buffer f u))
    \<and> udp_readBuffer (snd (udp_on_buffer f u)) = snd (f (udp_readBuffer u))"
proof -
  let ?v = "u\<lparr>udp_readBuffer := snd (f (udp_readBuffer u))\<rparr>"
  have "udp_before e ?v"
    using assms by (simp add: udp_wf_def udp_before_def udp_chunk_ok_def udp_calls_ok_def udp_slots_def)
  from udp_readSome_wf [OF this] show ?thesis
    by (simp add: udp_on_buffer_def on_host_def case_prod_beta)
qed

lemma udp_begin_read_wf:
  assumes "udp_wf e u" and "notifyAvailable (udp_readBuffer u) \<noteq> None"
  shows "udp_wf e (snd (udp_on_buffer (IoCircularBuffer_BeginReadSome nd) u))
    \<and> vec_data (buffer (udp_readBuffer (snd (udp_on_buffer (IoCircularBuffer_BeginReadSome nd) u)))) =
        vec_data (buffer (udp_readBuffer u))"
proof -
  have inv: "circ_inv (udp_readBuffer u)" using assms(1) by (simp add: udp_wf_def)
  obtain r b where b: "IoCircularBuffer_BeginReadSome nd (udp_readBuffer u) = (r, b)" by fastforce
  note k = begin_read_keeps [OF inv assms(2) b]
  have "reads (udp_readBuffer u) = [] \<or> b = udp_readBuffer u"
    using inv b by (auto simp: circ_inv_def IoCircularBuffer_BeginReadSome_def)
  with udp_on_buffer_wf [OF assms(1), of "IoCircularBuffer_BeginReadSome nd"] k b assms
  show ?thesis by (auto simp: udp_wf_def udp_chunk_ok_def)
qed

lemma udp_setup_wf:
  assumes "udp_wf e u" and "0 < sint (udp_datagram e)"
  shows "udp_wf e (snd (udp_on_buffer (IoCircularBuffer_BeginChainedRead nd (Some cb) (udp_datagram e) imm) u))
    \<and> vec_data (buffer (udp_readBuffer
         (snd (udp_on_buffer (IoCircularBuffer_BeginChainedRead nd (Some cb) (udp_datagram e) imm) u)))) =
        vec_data (buffer (udp_readBuffer u))"
proof -
  let ?f = "IoCircularBuffer_BeginChainedRead nd (Some cb) (udp_datagram e) imm"
  have inv: "circ_inv (udp_readBuffer u)" using assms(1) by (simp add: udp_wf_def)
  obtain r b where b: "?f (udp_readBuffer u) = (r, b)" by fastforce
  note k = begin_chained_keeps [OF inv assms(2) b]
  have "reads (udp_readBuffer u) = [] \<or> notifyAvailable (udp_readBuffer u) \<noteq> None"
    using inv by (auto simp: circ_inv_def)
  with udp_on_buffer_wf [OF assms(1), of ?f] k b assms
  show ?thesis by (auto simp: udp_wf_def udp_chunk_ok_def)
qed

lemma udp_consume_wf:
  assumes "udp_wf e u"
  shows "udp_wf e (snd (udp_on_buffer (IoCircularBuffer_Consume nd n) u))
    \<and> udp_readBuffer (snd (udp_on_buffer (IoCircularBuffer_Consume nd n) u)) = udp_readBuffer u"
proof -
  have "snd (IoCircularBuffer_Consume nd n (udp_readBuffer u)) = udp_readBuffer u"
    using assms by (intro Consume_out) (simp add: udp_wf_def circ_inv_def)
  with udp_on_buffer_wf [OF assms, of "IoCircularBuffer_Consume nd n"] assms
  show ?thesis by (simp add: udp_wf_def udp_chunk_ok_def)
qed

text \<open>The part of a listener the receiving side is about, and operations that leave it alone.\<close>

definition udp_same_receiving :: "'cb udp_listener \<Rightarrow> 'cb udp_listener \<Rightarrow> bool" where
  "udp_same_receiving u u' \<longleftrightarrow> udp_readBuffer u' = udp_readBuffer u \<and> udp_receives u' = udp_receives u
     \<and> udp_asyncReceivedFrom u' = udp_asyncReceivedFrom u \<and> udp_slots u' = udp_slots u"

lemma udp_same_receiving_refl [simp]: "udp_same_receiving u u"
  by (simp add: udp_same_receiving_def)

lemma udp_same_receiving_trans: "udp_same_receiving u v \<Longrightarrow> udp_same_receiving v w \<Longrightarrow> udp_same_receiving u w"
  by (simp add: udp_same_receiving_def)

definition udp_quiet_call :: "udp_call \<Rightarrow> bool" where
  "udp_quiet_call a \<longleftrightarrow> (case a of Udp_receive s \<Rightarrow> False | Udp_receive_from s \<Rightarrow> False | _ \<Rightarrow> True)"

lemma udp_call_receiving: "udp_quiet_call a \<Longrightarrow> udp_same_receiving u (udp_call a u)"
  by (simp add: udp_same_receiving_def udp_call_def udp_slots_def udp_quiet_call_def split: udp_call.splits)

lemma udp_try_receiving: "udp_quiet_call a \<Longrightarrow> udp_same_receiving u (snd (udp_try bst a u))"
  by (simp add: udp_try_def udp_call_receiving split: option.split)

lemma udp_fields_receiving [simp]:
  "udp_same_receiving u (u\<lparr>udp_outQueue := q\<rparr>)" "udp_same_receiving u (u\<lparr>udp_pending := p\<rparr>)"
  by (simp_all add: udp_same_receiving_def udp_slots_def)

lemma udp_launch_receiving: "udp_same_receiving u (snd (UdpListener_LaunchWrite bst u))"
  by (simp add: UdpListener_LaunchWrite_def udp_same_receiving_def udp_try_def udp_call_def and_then_def
      udp_slots_def split: list.split option.split sum.split)

lemma udp_launch_receiving_after:
  "udp_same_receiving u (snd (UdpListener_LaunchWrite bst (u\<lparr>udp_outQueue := q\<rparr>)))"
  by (rule udp_same_receiving_trans [OF udp_fields_receiving(1) udp_launch_receiving])

lemma udp_enqueue_receiving: "udp_same_receiving u (snd (UdpListener_QueueOrWriteBuffer bst m u))"
  by (simp add: UdpListener_QueueOrWriteBuffer_def Let_def udp_launch_receiving_after)

lemma udp_complete_receiving: "udp_same_receiving u (udp_complete bst n u)"
proof (cases "udp_pending u")
  case (Cons m ms)
  let ?u = "u\<lparr>udp_pending := ms\<rparr>"
  have "udp_same_receiving ?u (snd (UdpListener_WriteHandler bst m no_error n ?u))"
    by (simp add: UdpListener_WriteHandler_def Let_def udp_call_receiving udp_quiet_call_def
        udp_launch_receiving_after split: list.split)
  with udp_same_receiving_trans [OF udp_fields_receiving(2)] Cons show ?thesis
    by (auto simp: udp_complete_def udp_write_completed_def)
qed (simp add: udp_complete_def udp_write_completed_def)

text \<open>Every call: an operation on the buffer, or one that leaves the receiving side alone.\<close>

lemma udp_do_receiving:
  obtains (none) "udp_same_receiving u (snd (udp_do e a u))"
  | (consume) n where "snd (udp_do e a u) = snd (udp_on_buffer (IoCircularBuffer_Consume (udp_nd e) n) u)"
  | (begin_read) "snd (udp_do e a u) = snd (udp_on_buffer (IoCircularBuffer_BeginReadSome (udp_nd e)) u)"
      and "notifyAvailable (udp_readBuffer u) \<noteq> None"
  | (chained) cb err imm where "snd (udp_do e a u) =
      snd (udp_on_buffer (IoCircularBuffer_BeginChainedRead (udp_nd e) (Some cb) (udp_datagram e) imm)
        (u\<lparr>udp_errorCallback := Some err\<rparr>))"
proof (cases a)
  case (Udp_api_setup cb err immediate)
  with chained show thesis by (simp add: UdpListener_SetupChainedRead_def)
next
  case (Udp_api_consume n)
  with consume show thesis by (simp add: UdpListener_Consume_def)
next
  case Udp_api_launch_read
  with begin_read none show thesis
    by (cases "notifyAvailable (udp_readBuffer u) = None") (auto simp: UdpListener_LaunchRead_def)
next
  case Udp_api_broadcast
  have "udp_same_receiving u (snd (UdpListener_EnableBroadcast (udp_bst e) u))"
    by (simp add: UdpListener_EnableBroadcast_def udp_same_receiving_def udp_try_def udp_call_def
        udp_slots_def and_then_def split: option.split)
  with Udp_api_broadcast none show thesis by simp
next
  case (Udp_api_connect ip port cb)
  have "udp_same_receiving u (snd (UdpListener_AsyncConnect (udp_nd e) ip port (Some cb) u))"
    by (simp add: UdpListener_AsyncConnect_def cassert_def udp_same_receiving_def udp_call_def udp_slots_def)
  with Udp_api_connect none show thesis by simp
qed (rule none; simp add: UdpListener_AsyncWrite_string_def UdpListener_AsyncWrite_bytes_def
      UdpListener_AsyncSendTo_string_def UdpListener_AsyncSendTo_bytes_def udp_enqueue_receiving
      UdpListener_JoinMulticastGroup_def udp_try_receiving udp_quiet_call_def UdpListener_StopListening_def
      udp_call_receiving split: sum.split)+

lemma udp_same_calls_ok: "udp_same_receiving u u' \<Longrightarrow> udp_calls_ok e u \<Longrightarrow> udp_calls_ok e u'"
  by (simp add: udp_same_receiving_def udp_calls_ok_def)

lemma udp_same_wf: "udp_same_receiving u u' \<Longrightarrow> udp_wf e u \<Longrightarrow> udp_wf e u'"
  using udp_same_calls_ok [of u u' e] by (simp add: udp_wf_def udp_chunk_ok_def udp_same_receiving_def)

text \<open>Calls outside of a read handler keep the invariant and the data.\<close>

definition udp_outside :: "udp_env \<Rightarrow> 'cb udp_world \<Rightarrow> 'cb udp_world \<Rightarrow> bool" where
  "udp_outside e w w' \<longleftrightarrow> udp_received w' = udp_received w
     \<and> (0 < sint (udp_datagram e) \<and> udp_wf e (listener w) \<longrightarrow> udp_wf e (listener w')
          \<and> vec_data (buffer (udp_readBuffer (listener w'))) = vec_data (buffer (udp_readBuffer (listener w))))"

lemma udp_outside_trans: "udp_outside e t u \<Longrightarrow> udp_outside e u v \<Longrightarrow> udp_outside e t v"
  by (simp add: udp_outside_def)

lemma udp_outside_refl [simp]: "udp_outside e w w"
  by (simp add: udp_outside_def)

lemma udp_do_wf:
  assumes "udp_wf e u" and "0 < sint (udp_datagram e)"
  shows "udp_wf e (snd (udp_do e a u))
    \<and> vec_data (buffer (udp_readBuffer (snd (udp_do e a u)))) = vec_data (buffer (udp_readBuffer u))"
proof (cases rule: udp_do_receiving [of u e a])
  case none
  with assms udp_same_wf show ?thesis by (auto simp: udp_same_receiving_def)
next
  case (consume n)
  with udp_consume_wf [OF assms(1)] show ?thesis by simp
next
  case begin_read
  with udp_begin_read_wf [OF assms(1)] show ?thesis by simp
next
  case (chained cb err imm)
  have "udp_wf e (u\<lparr>udp_errorCallback := Some err\<rparr>)"
    using assms(1) by (simp add: udp_wf_def udp_chunk_ok_def udp_calls_ok_def udp_slots_def)
  from udp_setup_wf [OF this assms(2)] chained show ?thesis by simp
qed

lemma udp_api_outside: "udp_outside e w (snd (udp_api_call e a w))"
  using udp_do_wf by (auto simp: udp_outside_def udp_api_call_snd)

interpretation udp_outer: udp_relation e app "udp_outside e" for e app
  by unfold_locales (auto intro: udp_outside_trans udp_api_outside)

text \<open>Calls from inside of a read handler: they take bytes, and no receive can start.\<close>

definition udp_ctx :: "udp_env \<Rightarrow> 'cb udp_listener \<Rightarrow> bool" where
  "udp_ctx e u \<longleftrightarrow> circ_ctx (udp_readBuffer u) \<and> udp_receives u = [] \<and> udp_calls_ok e u \<and> udp_chunk_ok e u"

definition udp_in_context :: "udp_env \<Rightarrow> 'cb udp_world \<Rightarrow> 'cb udp_world \<Rightarrow> bool" where
  "udp_in_context e w w' \<longleftrightarrow> udp_received w' = udp_received w
     \<and> (circ_ctx (udp_readBuffer (listener w)) \<longrightarrow>
          circ_ctx (udp_readBuffer (listener w'))
          \<and> (ctx_step (udp_nd e))\<^sup>*\<^sup>* (udp_readBuffer (listener w)) (udp_readBuffer (listener w')))
     \<and> (udp_ctx e (listener w) \<longrightarrow> udp_ctx e (listener w'))"

lemma udp_in_context_trans: "udp_in_context e t u \<Longrightarrow> udp_in_context e u v \<Longrightarrow> udp_in_context e t v"
  by (auto simp: udp_in_context_def)

lemma udp_in_context_refl [simp]: "udp_in_context e w w"
  by (simp add: udp_in_context_def)

lemma udp_on_buffer_ctx:
  assumes "ctx_step nd (udp_readBuffer u) b" and "snd (f (udp_readBuffer u)) = b" and "circ_ctx (udp_readBuffer u)"
  shows "udp_readBuffer (snd (udp_on_buffer f u)) = b \<and> circ_ctx b
    \<and> (udp_ctx e u \<longrightarrow> udp_ctx e (snd (udp_on_buffer f u)))"
proof -
  have b: "circ_ctx b" "ctx_mono (udp_readBuffer u) b"
    using ctx_step_keeps [OF assms(1,3)] by simp_all
  have "snd (udp_on_buffer f u) = UdpListener_readSome (u\<lparr>udp_readBuffer := b\<rparr>)"
    using assms(2) by (simp add: udp_on_buffer_def on_host_def case_prod_beta)
  also have "\<dots> = u\<lparr>udp_readBuffer := b\<rparr>"
    using b(1) by (simp add: UdpListener_readSome_def circ_ctx_def)
  finally show ?thesis
    using b by (simp add: udp_ctx_def udp_chunk_ok_def udp_calls_ok_def udp_slots_def ctx_mono_def)
qed

lemma udp_do_ctx:
  assumes "circ_ctx (udp_readBuffer u)"
  shows "circ_ctx (udp_readBuffer (snd (udp_do e a u)))
    \<and> (ctx_step (udp_nd e))\<^sup>*\<^sup>* (udp_readBuffer u) (udp_readBuffer (snd (udp_do e a u)))
    \<and> (udp_ctx e u \<longrightarrow> udp_ctx e (snd (udp_do e a u)))"
proof (cases rule: udp_do_receiving [of u e a])
  case none
  with assms udp_same_calls_ok [OF none, of e] show ?thesis
    by (simp add: udp_same_receiving_def udp_ctx_def udp_chunk_ok_def)
next
  case (consume n)
  let ?b = "snd (IoCircularBuffer_Consume (udp_nd e) n (udp_readBuffer u))"
  have st: "ctx_step (udp_nd e) (udp_readBuffer u) ?b" by (metis ctx_step.consume prod.collapse)
  from udp_on_buffer_ctx [where f = "IoCircularBuffer_Consume (udp_nd e) n", OF st refl assms, of e] consume st show ?thesis by auto
next
  case begin_read
  let ?b = "snd (IoCircularBuffer_BeginReadSome (udp_nd e) (udp_readBuffer u))"
  have st: "ctx_step (udp_nd e) (udp_readBuffer u) ?b" by (metis ctx_step.begin_read prod.collapse)
  from udp_on_buffer_ctx [where f = "IoCircularBuffer_BeginReadSome (udp_nd e)", OF st refl assms, of e] begin_read st show ?thesis by auto
next
  case (chained cb err imm)
  let ?v = "u\<lparr>udp_errorCallback := Some err\<rparr>"
  have "snd (udp_do e a u) = UdpListener_readSome ?v"
    using chained assms
    by (simp add: udp_on_buffer_def on_host_def IoCircularBuffer_BeginChainedRead_def circ_ctx_def case_prod_beta)
  also have "\<dots> = ?v"
    using assms by (simp add: UdpListener_readSome_def circ_ctx_def)
  finally show ?thesis
    using assms by (simp add: udp_ctx_def udp_chunk_ok_def udp_calls_ok_def udp_slots_def)
qed

lemma udp_api_in_context: "udp_in_context e w (snd (udp_api_call e a w))"
  using udp_do_ctx [of "listener w" e a] by (simp add: udp_in_context_def udp_api_call_snd udp_ctx_def)

interpretation udp_contextual: udp_relation e app "udp_in_context e" for e app
  by unfold_locales (auto intro: udp_in_context_trans udp_api_in_context)

lemma udp_app_in_context: "app_in_context (udp_nd e) (udp_get_buffer listener) (udp_available e app)"
proof -
  have "udp_in_context e w w'" if "udp_available e app cb n w = (r, w')" for cb n w r w'
    using udp_contextual.callback [where e = e and app = app and ev = "Datagram n" and cb = cb and w = w] that
    by (simp add: udp_available_def)
  then show ?thesis
    unfolding app_in_context_def udp_in_context_def udp_get_buffer_def by blast
qed

definition udp_receiving :: "udp_env \<Rightarrow> 'cb udp_world \<Rightarrow> bool" where
  "udp_receiving e w \<longleftrightarrow> udp_wf e (listener w) \<and> (\<exists>k \<le> length (concat (udp_received w)).
     vec_data (buffer (udp_readBuffer (listener w))) = map Some (drop k (concat (udp_received w))))"

lemma udp_outside_receiving:
  "udp_outside e w w' \<Longrightarrow> 0 < sint (udp_datagram e) \<Longrightarrow> udp_receiving e w \<Longrightarrow> udp_receiving e w'"
  by (auto simp: udp_outside_def udp_receiving_def)

lemma udp_received_keeps:
  assumes w: "udp_receiving e w" and fits: "fits_read bs (udp_readBuffer (listener w))"
    and run: "UdpListener_boostHandler (udp_nd e) listener put_listener (udp_available e app) (udp_error e app)
      no_error (length bs)
      (w\<lparr>listener := udp_arrival bs from (listener w), udp_received := udp_received w @ [bs]\<rparr>) = (r, w')"
  shows "udp_receiving e w'"
proof -
  let ?l = "(udp_arrival bs from (listener w))\<lparr>udp_readBuffer := udp_readBuffer (listener w)\<rparr>"
  let ?u = "w\<lparr>listener := ?l, udp_received := udp_received w @ [bs]\<rparr>"
  have inv: "circ_inv (udp_get_buffer listener ?u)" and fits': "fits_read bs (udp_get_buffer listener ?u)"
    using w fits by (simp_all add: udp_receiving_def udp_wf_def udp_get_buffer_def)
  from w obtain j where j: "j \<le> length (concat (udp_received w))"
    "vec_data (buffer (udp_get_buffer listener ?u)) = map Some (drop j (concat (udp_received w)))"
    by (auto simp: udp_receiving_def udp_get_buffer_def)
  have "length (udp_receives (listener w)) \<le> 1"
    using w by (auto simp: udp_receiving_def udp_wf_def circ_inv_def)
  then have none: "udp_receives ?l = []"
    by (cases "udp_receives (listener w)") (simp_all add: udp_arrival_def)
  have start: "w\<lparr>listener := udp_arrival bs from (listener w), udp_received := udp_received w @ [bs]\<rparr> =
      udp_put_buffer listener put_listener (circ_fill bs (udp_get_buffer listener ?u)) ?u"
    by (simp add: udp_put_buffer_def put_listener_def udp_arrival_def udp_get_buffer_def)
  have "bs \<noteq> []" using fits by (simp add: fits_read_def)
  with run obtain t where t: "IoCircularBuffer_ReadSomeHandler (udp_nd e) (udp_get_buffer listener)
      (udp_put_buffer listener put_listener) (udp_available e app) (length bs)
      (udp_put_buffer listener put_listener (circ_fill bs (udp_get_buffer listener ?u)) ?u) = (r, t)"
    and w': "w' = put_listener (UdpListener_readSome (listener t)) t"
    by (auto simp: UdpListener_boostHandler_def start split: prod.splits)
  from inv fits' udp_app_in_context t obtain k where k: "circ_inv (udp_get_buffer listener t)"
    "vec_data (buffer (udp_get_buffer listener t)) =
       drop k (vec_data (buffer (udp_get_buffer listener ?u)) @ map Some bs)"
    by (rule udp_world.reader.handler_cases)
  from inv fits' t obtain cb q v b where v: "udp_available e app cb
      (vsize (buffer (udp_get_buffer listener ?u)) + length bs)
      (udp_put_buffer listener put_listener (circ_enter bs (udp_get_buffer listener ?u)) ?u) = (q, v)"
    and tb: "t = udp_put_buffer listener put_listener b v"
    by (rule udp_world.reader.handler_frame)
  let ?en = "udp_put_buffer listener put_listener (circ_enter bs (udp_get_buffer listener ?u)) ?u"
  note ent = circ_enter_facts [OF inv fits']
  have "udp_ctx e (listener ?en)"
    using w none ent(1,5,6)
    by (simp add: udp_ctx_def udp_put_buffer_def put_listener_def udp_receiving_def udp_wf_def
        udp_calls_ok_def udp_chunk_ok_def udp_slots_def udp_arrival_def udp_get_buffer_def)
  moreover have "udp_in_context e ?en v"
    using udp_contextual.callback [where e = e and app = app and cb = cb and w = ?en] v
    by (simp add: udp_available_def) (metis snd_conv)
  ultimately have cv: "udp_ctx e (listener v)" "udp_received v = udp_received w @ [bs]"
    by (auto simp: udp_in_context_def udp_put_buffer_def put_listener_def)
  have nc: "notifyAvailable b = notifyAvailable (udp_get_buffer listener ?u)
      \<and> chunkSize b = chunkSize (udp_get_buffer listener ?u)"
    using inv fits' udp_app_in_context t
    by (rule udp_world.reader.handler_cases) (simp add: tb udp_get_buffer_def udp_put_buffer_def put_listener_def)
  have "udp_before e (listener t)"
    using cv k(1) nc w
    by (simp add: tb udp_before_def udp_ctx_def udp_put_buffer_def put_listener_def udp_get_buffer_def
        udp_chunk_ok_def udp_calls_ok_def udp_slots_def udp_receiving_def udp_wf_def)
  from udp_readSome_wf [OF this] have "udp_wf e (listener w')"
    "udp_readBuffer (listener w') = udp_get_buffer listener t"
    by (simp_all add: w' put_listener_def udp_get_buffer_def)
  moreover have "udp_received w' = udp_received w @ [bs]"
    using cv(2) by (simp add: w' tb put_listener_def udp_put_buffer_def)
  moreover from j obtain i where "i \<le> length (concat (udp_received w) @ bs)"
    "drop k (vec_data (buffer (udp_get_buffer listener ?u)) @ map Some bs) =
       map Some (drop i (concat (udp_received w) @ bs))"
    by (rule suffix_extend)
  ultimately show ?thesis using k(2) by (auto simp: udp_receiving_def)
qed

lemma udp_failed_keeps:
  assumes w: "udp_receiving e w" and chunk: "0 < sint (udp_datagram e)"
    and "reads (udp_readBuffer (listener w)) \<noteq> []" and fail: "n = 0 \<or> ec_set ec"
    and run: "UdpListener_boostHandler (udp_nd e) listener put_listener (udp_available e app) (udp_error e app) ec n
      (w\<lparr>listener := udp_lost (listener w)\<rparr>) = (r, w')"
  shows "udp_receiving e w'"
proof -
  let ?b = "IoCircularBuffer_EndReadSome ((udp_readBuffer (listener w))\<lparr>reads := tl (reads (udp_readBuffer (listener w)))\<rparr>)"
  let ?v = "w\<lparr>listener := (udp_lost (listener w))\<lparr>udp_readBuffer := ?b\<rparr>\<rparr>"
  have "udp_wf e (listener ?v)"
    using w failed_keeps [of "udp_readBuffer (listener w)"]
    by (auto simp: udp_receiving_def udp_wf_def udp_lost_def udp_chunk_ok_def udp_calls_ok_def
        udp_slots_def IoCircularBuffer_EndReadSome_def)
  then have v: "udp_receiving e ?v"
    using w by (simp add: udp_receiving_def IoCircularBuffer_EndReadSome_def)
  have "w' = snd (udp_report listener (udp_error e app) ec ?v)"
    using run fail
    by (auto simp: UdpListener_boostHandler_def udp_put_buffer_def udp_get_buffer_def put_listener_def udp_lost_def)
  then have "udp_outside e ?v w'" using udp_outer.report by metis
  then show ?thesis using chunk v by (rule udp_outside_receiving)
qed

lemma udp_step_receiving:
  assumes "udp_step e app w w'" and chunk: "0 < sint (udp_datagram e)" and w: "udp_receiving e w"
  shows "udp_receiving e w'"
  using assms(1)
proof (cases rule: udp_step.cases)
  case (call a r)
  with udp_api_outside [of e w a] show ?thesis using udp_outside_receiving [OF _ chunk w] by simp
next
  case (wrote m ms ec n r u)
  have "udp_same_receiving (listener w) u"
    using wrote(3) udp_write_completed_snd [of "udp_bst e" ec n "listener w"] udp_complete_receiving by (metis snd_conv)
  with udp_same_wf [OF this, of e] w show ?thesis
    by (simp add: wrote(1) udp_receiving_def udp_same_receiving_def)
next
  case (received bs "from" r)
  show ?thesis by (rule udp_received_keeps [OF w received])
next
  case (failed n ec r)
  show ?thesis by (rule udp_failed_keeps [OF w chunk failed])
next
  case (connected ec destIp port r)
  have "udp_outside e w (snd (UdpListener_ConnectHandler (udp_nd e) listener put_listener (udp_error e app)
      (udp_callback e app Udp_connected) destIp port ec w))"
  proof (rule udp_outer.connect_handler [OF _ _ connected(1)])
    show "udp_outside e v (snd (on_host listener put_listener (udp_on_buffer (IoCircularBuffer_BeginReadSome (udp_nd e))) v))"
      if "notifyAvailable (udp_readBuffer (listener v)) \<noteq> None" for v
      using udp_begin_read_wf [OF _ that, of e "udp_nd e"]
      by (auto simp: udp_outside_def on_host_def put_listener_def case_prod_beta)
  qed (simp add: udp_outside_def put_listener_def udp_wf_def udp_chunk_ok_def udp_calls_ok_def udp_slots_def)
  with connected(2) udp_outside_receiving [OF _ chunk w] show ?thesis by simp
qed

lemma udp_reach_receiving:
  assumes "udp_reach e app w" and "0 < sint (udp_datagram e)"
  shows "udp_receiving e w"
  using assms(1)
proof (rule udp_reach_induct)
  show "udp_receiving e (udp_world_of u)" if "udp_fresh u" for u :: "'a udp_listener"
  proof -
    from that have "udp_readBuffer u = IoCircularBuffer_new" "udp_receives u = []"
      "\<not> udp_asyncReceivedFrom u" "udp_slots u = []"
      by (auto simp: udp_fresh_def UdpListener_new_def udp_slots_def)
    moreover have "notifyAvailable (IoCircularBuffer_new :: 'a circ) = None" "reads (IoCircularBuffer_new :: 'a circ) = []"
      by (simp_all add: IoCircularBuffer_new_def IoCircularBuffer_default_def)
    ultimately show ?thesis
      using circ_inv_new new_data
      by (simp add: udp_receiving_def udp_wf_def udp_world_of_def udp_chunk_ok_def udp_calls_ok_def)
  qed
  show "udp_step e app v x \<Longrightarrow> udp_receiving e v \<Longrightarrow> udp_receiving e x" for v x
    by (rule udp_step_receiving [OF _ assms(2)])
qed

section \<open>Properties\<close>

text \<open>
  C14: Datagrams are accepted in order and sent once each: whatever is called and however the socket
  answers, the accepted messages are the sent ones followed by the queue, at most one send is
  outstanding, it is of the front message, and what the socket was given to send are the bytes and
  destinations of a prefix of the accepted messages.
\<close>

theorem udp_send_order:
  assumes "udp_reach e app w"
  shows "udp_accepted w = udp_sent w @ udp_outQueue (listener w)
    \<and> (udp_pending (listener w) = [] \<or>
       udp_pending (listener w) = [hd (udp_outQueue (listener w))] \<and> udp_outQueue (listener w) \<noteq> [])
    \<and> udp_handed (listener w) = map udp_wire (take (length (udp_handed (listener w))) (udp_accepted w))
    \<and> length (udp_handed (listener w)) \<le> length (udp_sent w) + 1"
  using udp_reach_sends [OF assms] udp_queue.fifo udp_queue.one_in_flight udp_queue.handed_prefix
  unfolding udp_sends_def by metis

text \<open>A socket that is open once it was opened, and one that can never be opened.\<close>

definition good_socket :: udp_boost where
  "good_socket = \<lparr>socket_is_open = (\<lambda>as. Udp_open \<in> set as), socket_throws = (\<lambda>as a. None)\<rparr>"

definition no_socket :: udp_boost where
  "no_socket = \<lparr>socket_is_open = (\<lambda>as. False),
     socket_throws = (\<lambda>as a. if a = Udp_open then Some (SystemError 24) else None)\<rparr>"

definition udp_env_of :: "udp_boost \<Rightarrow> udp_env" where
  "udp_env_of bst = \<lparr>udp_nd = False, udp_bst = bst,
     udp_make_ep = (\<lambda>ip port. Inr (IoEndPoint_boost (V4 0, ushort_of_int port) False False)), udp_datagram = 4\<rparr>"

definition udp_silent :: "nat udp_app" where
  "udp_silent cb ev w = []"

definition udp_after :: "udp_env \<Rightarrow> nat udp_api list \<Rightarrow> nat udp_world" where
  "udp_after e as = fold (\<lambda>a w. snd (udp_api_call e a w)) as (udp_world_of UdpListener_new)"

lemma udp_fold_steps:
  "(udp_step e udp_silent)\<^sup>*\<^sup>* w (fold (\<lambda>a w. snd (udp_api_call e a w)) as w)"
proof (induction as arbitrary: w)
  case (Cons a as)
  have "udp_step e udp_silent w (snd (udp_api_call e a w))"
    by (rule udp_step.call [OF surjective_pairing])
  with Cons [of "snd (udp_api_call e a w)"] show ?case
    by (simp add: converse_rtranclp_into_rtranclp)
qed simp

lemma udp_after_reach: "udp_reach e udp_silent (udp_after e as)"
  unfolding udp_reach_def udp_after_def using udp_fold_steps by blast

lemmas udp_eval = udp_after_def udp_api_call_def udp_world_of_def UdpListener_new_def
  UdpListener_AsyncSendTo_bytes_def UdpListener_AsyncWrite_bytes_def udp_send_defs udp_handed_def
  udp_env_of_def no_socket_def good_socket_def udp_buffer_defs end_point_defs io_buffer_defs Let_def
  UdpListener_SetupChainedRead_def UdpListener_LaunchRead_def udp_on_buffer_def on_host_def
  UdpListener_readSome_def

definition ex_dest :: IoEndPoint where
  "ex_dest = IoEndPoint_boost (V4 1, 5000) False False"

theorem udp_send_order_witness:
  "let w = udp_after (udp_env_of good_socket) [Udp_api_send_bytes [1] ex_dest, Udp_api_send_bytes [2] ex_dest]
   in length (udp_accepted w) = 2 \<and> udp_handed (listener w) = [([1], Some (V4 1, 5000))]
     \<and> udp_handed (listener w) = map udp_wire (take 1 (udp_accepted w))"
proof -
  let ?w = "udp_after (udp_env_of good_socket) [Udp_api_send_bytes [1] ex_dest, Udp_api_send_bytes [2] ex_dest]"
  have "length (udp_accepted ?w) = 2" "udp_handed (listener ?w) = [([1], Some (V4 1, 5000))]"
    by (simp_all add: ex_dest_def udp_eval)
  with udp_send_order [OF udp_after_reach [of "udp_env_of good_socket"
        "[Udp_api_send_bytes [1] ex_dest, Udp_api_send_bytes [2] ex_dest]"]]
  show ?thesis by (simp add: Let_def)
qed

text \<open>
  If the socket cannot be opened for the first message with a destination, \<open>AsyncSendTo\<close>
  throws, but the message stays in the queue with no send outstanding: every later message is then
  accepted without an exception and none is ever given to the socket.
\<close>

lemma udp_failed_open_blocks:
  assumes "udp_reach e app w" and "udp_outQueue (listener w) = []"
    and "\<not> socket_is_open (udp_bst e) (udp_calls (listener w))"
    and "socket_throws (udp_bst e) (udp_calls (listener w)) Udp_open = Some f"
    and "dest = Some d" and "udp_api_call e (Udp_api_send_bytes msg dest) w = (r, u)"
    and "(udp_step e app)\<^sup>*\<^sup>* u w'"
  shows "r = Inl f \<and> length (udp_outQueue (listener u)) = 1
    \<and> udp_handed (listener w') = udp_handed (listener w) \<and> udp_pending (listener w') = []
    \<and> udp_outQueue (listener w') \<noteq> []
    \<and> fst (UdpListener_AsyncSendTo_bytes (udp_bst e) msg' dest (listener w')) = Inr ()"
proof -
  have p: "udp_pending (listener w) = []"
    using udp_reach_sends [OF assms(1)] udp_queue.one_in_flight assms(2) unfolding udp_sends_def by metis
  have u: "r = Inl f" "length (udp_outQueue (listener u)) = 1" "udp_pending (listener u) = []"
    "udp_handed (listener u) = udp_handed (listener w)"
    using assms(2-6) p
    by (auto simp: udp_api_call_def UdpListener_AsyncSendTo_bytes_def udp_buffer_defs end_point_defs
        udp_send_defs Let_def udp_handed_def)
  then have "udp_stalled (listener u)" by (auto simp: udp_stalled_def)
  from udp_steps_stalled [OF assms(7) this] u
  have st: "udp_stalled (listener w')" "udp_handed (listener w') = udp_handed (listener w)" by simp_all
  then have "fst (UdpListener_AsyncSendTo_bytes (udp_bst e) msg' dest (listener w')) = Inr ()"
    using assms(5)
    by (cases "udp_outQueue (listener w')")
      (simp_all add: UdpListener_AsyncSendTo_bytes_def udp_buffer_defs end_point_defs udp_stalled_def
        UdpListener_QueueOrWriteBuffer_def Let_def)
  with u st show ?thesis by (simp add: udp_stalled_def)
qed

lemma udp_failed_open_blocks_witness:
  "let u = udp_after (udp_env_of no_socket) [Udp_api_send_bytes [1] ex_dest, Udp_api_send_bytes [2] ex_dest]
   in udp_handed (listener u) = [] \<and> udp_pending (listener u) = []"
proof -
  let ?e = "udp_env_of no_socket"
  let ?u = "snd (udp_api_call ?e (Udp_api_send_bytes [1] ex_dest) (udp_after ?e []))"
  let ?w = "snd (udp_api_call ?e (Udp_api_send_bytes [2] ex_dest) ?u)"
  have steps: "(udp_step ?e udp_silent)\<^sup>*\<^sup>* ?u ?w"
    by (rule r_into_rtranclp, rule udp_step.call [OF surjective_pairing])
  have "udp_handed (listener ?w) = udp_handed (listener (udp_after ?e [])) \<and> udp_pending (listener ?w) = []"
    using udp_failed_open_blocks [OF udp_after_reach [of ?e "[]"] _ _ _ _ surjective_pairing steps, of "SystemError 24"]
    by (simp add: ex_dest_def udp_after_def udp_world_of_def UdpListener_new_def udp_env_of_def no_socket_def
        IoEndPoint_boost_def)
  then show ?thesis
    by (simp add: udp_after_def Let_def) (simp add: udp_world_of_def UdpListener_new_def udp_handed_def)
qed



text \<open>
  Connecting. A successful connect marks the listener connected to the destination, begins the
  chained read with the connected receive unless one was begun before, and only then runs the connect
  callback; a failed one changes nothing and runs the error callback with its code.
\<close>

lemma udp_connect_outcome:
  assumes "udp_reach e app w" and "0 < sint (udp_datagram e)"
    and "notifyAvailable (udp_readBuffer (listener w)) \<noteq> None" and "udp_connectCallback (listener w) = Some cb"
    and "udp_errorCallback (listener w) = Some er"
    and "vsize (buffer (udp_readBuffer (listener w))) + size_of_int (udp_datagram e) < vec_max_size"
  shows "\<exists>v. UdpListener_ConnectHandler (udp_nd e) listener put_listener (udp_error e app)
        (udp_callback e app Udp_connected) ip port ec w =
      (if ec_set ec then udp_error e app er ec w else udp_callback e app Udp_connected cb v)
    \<and> udp_asyncConnected (listener v) \<and> udp_peerEndPoint (listener v) = Some (ip, ushort_of_int port)
    \<and> shouldRead (udp_readBuffer (listener v))
    \<and> (if shouldRead (udp_readBuffer (listener w)) then udp_calls (listener v) = udp_calls (listener w)
       else udp_calls (listener v) = udp_calls (listener w) @
              [Udp_receive (vsize (buffer (udp_readBuffer (listener w))), size_of_int (udp_datagram e))])"
proof -
  let ?b = "udp_readBuffer (listener w)"
  let ?l = "(listener w)\<lparr>udp_asyncConnected := True, udp_peerEndPoint := Some (ip, ushort_of_int port)\<rparr>"
  from udp_reach_receiving [OF assms(1,2)] have wf: "circ_inv ?b" "chunkSize ?b = udp_datagram e"
    "length (udp_receives (listener w)) = length (reads ?b)"
    using assms(3) by (auto simp: udp_receiving_def udp_wf_def udp_chunk_ok_def)
  define d where "d = ?b\<lparr>shouldRead := True\<rparr>"
  obtain c where c: "IoCircularBuffer_BeginReadSome (udp_nd e) ?b = (Inr (), c)"
    "shouldRead c" "shouldRead ?b \<longrightarrow> c = ?b"
    "\<not> shouldRead ?b \<longrightarrow> reads c = [(vsize (buffer ?b), size_of_int (udp_datagram e))]"
  proof (cases "shouldRead ?b")
    case True
    then show thesis by (intro that [of ?b]) (simp_all add: IoCircularBuffer_BeginReadSome_def)
  next
    case False
    then have d: "circ_base d" "notifyAvailable d \<noteq> None" "shouldRead d" "\<not> hasContext d" "reads d = []"
      using wf(1) assms(3) by (auto simp: d_def circ_inv_def circ_base_def)
    from d show thesis
    proof (cases rule: ReadSome_cases [where nd = "udp_nd e"])
      case full
      with assms(6) wf(2) show thesis by (simp add: d_def)
    next
      case (started c)
      with False wf(2) show thesis
        by (intro that [of c]) (simp_all add: IoCircularBuffer_BeginReadSome_def d_def circ_slot_def)
    qed
  qed
  have none: "\<not> shouldRead ?b \<Longrightarrow> udp_receives (listener w) = []"
    using wf by (auto simp: circ_inv_def)
  let ?v = "put_listener (UdpListener_readSome (?l\<lparr>udp_readBuffer := c\<rparr>)) w"
  have run: "on_host listener put_listener (udp_on_buffer (IoCircularBuffer_BeginReadSome (udp_nd e)))
      (put_listener ?l w) = (Inr (), ?v)"
    by (simp add: on_host_def udp_on_buffer_def c(1) put_listener_def)
  have fields: "udp_connectCallback (listener ?v) = Some cb" "udp_asyncConnected (listener ?v)"
    "udp_peerEndPoint (listener ?v) = Some (ip, ushort_of_int port)" "udp_readBuffer (listener ?v) = c"
    using assms(4) by (simp_all add: put_listener_def UdpListener_readSome_def udp_call_def Let_def)
  have "udp_calls (listener ?v) = (if shouldRead ?b then udp_calls (listener w)
      else udp_calls (listener w) @ [Udp_receive (vsize (buffer ?b), size_of_int (udp_datagram e))])"
    using c(3,4) wf(3) none
    by (cases "shouldRead ?b") (simp_all add: put_listener_def UdpListener_readSome_def udp_call_def Let_def)
  with fields run assms(5) c(2) show ?thesis
    by (intro exI [of _ ?v])
      (simp add: UdpListener_ConnectHandler_def udp_report_def Let_def split: option.split)
qed

lemma udp_connect_outcome_witness:
  "let w = udp_after (udp_env_of good_socket) [Udp_api_setup 1 2 False, Udp_api_connect (V4 1) 5000 3]
   in \<exists>v. UdpListener_ConnectHandler False listener put_listener (udp_error (udp_env_of good_socket) udp_silent)
        (udp_callback (udp_env_of good_socket) udp_silent Udp_connected) (V4 1) 5000 no_error w =
        udp_callback (udp_env_of good_socket) udp_silent Udp_connected 3 v
     \<and> udp_calls (listener v) = [Udp_connect (V4 1, 5000), Udp_receive (0, 4)]"
proof -
  let ?e = "udp_env_of good_socket"
  let ?as = "[Udp_api_setup 1 2 False, Udp_api_connect (V4 1) 5000 3] :: nat udp_api list"
  let ?w = "udp_after ?e ?as"
  have p: "ushort_of_int 5000 = 5000" by (simp add: ushort_of_int_def)
  have w: "udp_readBuffer (listener ?w) = IoCircularBuffer_new\<lparr>notifyAvailable := Some 1, chunkSize := 4\<rparr>"
    "udp_connectCallback (listener ?w) = Some 3" "udp_errorCallback (listener ?w) = Some 2"
    "udp_calls (listener ?w) = [Udp_connect (V4 1, 5000)]"
    by (simp_all add: udp_eval circ_eval UdpListener_AsyncConnect_def p)
  have nd: "udp_nd ?e = False" "udp_datagram ?e = 4" by (simp_all add: udp_env_of_def)
  show ?thesis
    using udp_connect_outcome [OF udp_after_reach [of ?e ?as], of 3 2 "V4 1" 5000 no_error] w nd
    by (auto simp: Let_def IoCircularBuffer_new_def IoCircularBuffer_default_def vec_empty_def
        vec_max_size_def size_of_int_nonneg)
qed

end
