(* ===== verification/DgramApi.thy ===== *)
theory DgramApi
  imports StreamApi UdpListen
begin

text \<open>
  The object the application holds for a datagram socket (\<open>IoServices/DgramListener\<close>): a weak
  pointer to a \<open>UdpListener\<close> that the services object owns. The handle and the two consuming
  functions are those of the stream handles; each member has its own message for an expired listener.
\<close>

section \<open>The class\<close>

definition DgramListener_new :: "'cb udp_listener \<Rightarrow> 'cb udp_listener stream_handle" where
  "DgramListener_new udpListener = \<lparr>peerConnection = Some udpListener, isClientSide = False\<rparr>"

text \<open>Address text is parsed, after the pointer was locked, by boost's \<open>from_string\<close>.\<close>

definition DgramListener_AsyncConnect ::
  "bool \<Rightarrow> (string \<Rightarrow> fault + ip_address) \<Rightarrow> 'cb option \<Rightarrow> string \<Rightarrow> c_int \<Rightarrow> 'cb udp_listener stream_handle \<Rightarrow>
   (unit, 'cb udp_listener stream_handle) outcome" where
  "DgramListener_AsyncConnect nd from_string connectCb destIp port h =
     locked ''DGRAM Async Connect Connection expired.''
       (\<lambda>u. case from_string destIp of
          Inl f \<Rightarrow> (Inl f, u)
        | Inr boostIp \<Rightarrow> UdpListener_AsyncConnect nd boostIp port connectCb u) h"

definition DgramListener_JoinMulticastGroup ::
  "udp_boost \<Rightarrow> (string \<Rightarrow> fault + ip_address) \<Rightarrow> string \<Rightarrow> 'cb udp_listener stream_handle \<Rightarrow>
   (unit, 'cb udp_listener stream_handle) outcome" where
  "DgramListener_JoinMulticastGroup bst from_string multicastAddr h =
     locked ''DGRAM Join Multi Cast Connection expired.''
       (\<lambda>u. case from_string multicastAddr of
          Inl f \<Rightarrow> (Inl f, u)
        | Inr boostIp \<Rightarrow> UdpListener_JoinMulticastGroup bst boostIp u) h"

definition DgramListener_EnableBroadcast ::
  "udp_boost \<Rightarrow> 'cb udp_listener stream_handle \<Rightarrow> (unit, 'cb udp_listener stream_handle) outcome" where
  "DgramListener_EnableBroadcast bst h =
     locked ''DGRAM Enable Broadcast Connection expired.'' (UdpListener_EnableBroadcast bst) h"

definition DgramListener_AsyncWrite_string ::
  "udp_boost \<Rightarrow> byte list \<Rightarrow> bool \<Rightarrow> 'cb udp_listener stream_handle \<Rightarrow> (unit, 'cb udp_listener stream_handle) outcome" where
  "DgramListener_AsyncWrite_string bst msg nullTerminate h =
     locked ''DGRAM Async Write Connection expired.'' (UdpListener_AsyncWrite_string bst msg nullTerminate) h"

definition DgramListener_AsyncSendTo_string ::
  "udp_boost \<Rightarrow> (string \<Rightarrow> c_int \<Rightarrow> fault + IoEndPoint) \<Rightarrow> byte list \<Rightarrow> string \<Rightarrow> c_int \<Rightarrow> bool \<Rightarrow> 'cb udp_listener stream_handle \<Rightarrow> (unit, 'cb udp_listener stream_handle) outcome" where
  "DgramListener_AsyncSendTo_string bst make_ep msg destIp port nullTerminate h =
     locked ''DGRAM Async Send To Connection expired.'' (UdpListener_AsyncSendTo_string bst make_ep msg destIp port nullTerminate) h"

definition DgramListener_AsyncSendTo_bytes ::
  "udp_boost \<Rightarrow> byte list \<Rightarrow> IoEndPoint \<Rightarrow> 'cb udp_listener stream_handle \<Rightarrow> (unit, 'cb udp_listener stream_handle) outcome" where
  "DgramListener_AsyncSendTo_bytes bst msg dest h =
     locked ''DGRAM Async Send To End Point Connection expired.'' (UdpListener_AsyncSendTo_bytes bst msg dest) h"

definition DgramListener_AsyncWrite_bytes ::
  "udp_boost \<Rightarrow> byte list \<Rightarrow> 'cb udp_listener stream_handle \<Rightarrow> (unit, 'cb udp_listener stream_handle) outcome" where
  "DgramListener_AsyncWrite_bytes bst msg h =
     locked ''DGRAM Async Write Connection expired.'' (UdpListener_AsyncWrite_bytes bst msg) h"

definition DgramListener_ConsumeInto ::
  "bool \<Rightarrow> c_int \<Rightarrow> 'cb udp_listener stream_handle \<times> byte option list \<Rightarrow>
   (unit, 'cb udp_listener stream_handle \<times> byte option list) outcome" where
  "DgramListener_ConsumeInto nd len s =
     consume_into (locked ''DGRAM Consume Into Connection expired.'' (UdpListener_Data nd))
       (locked ''DGRAM Consume Into Connection expired.'' (UdpListener_Consume nd (size_of_int len))) len s"

definition DgramListener_ConsumeTo ::
  "bool \<Rightarrow> c_int \<Rightarrow> 'cb udp_listener stream_handle \<times> byte option list \<Rightarrow>
   (unit, 'cb udp_listener stream_handle \<times> byte option list) outcome" where
  "DgramListener_ConsumeTo nd len s =
     (case peerConnection (fst s) of
        None \<Rightarrow> (Inl (RuntimeError ''DGRAM Consume To Connection expired.''), s)
      | Some u \<Rightarrow>
          consume_to nd (locked ''DGRAM Consume To Connection expired.'' (UdpListener_Size nd))
            (\<lambda>dest. locked ''DGRAM Consume To Connection expired.'' (UdpListener_CopyTo nd dest len))
            (locked ''DGRAM Consume To Connection expired.'' (UdpListener_Consume nd (size_of_int len))) len s)"

definition DgramListener_Data ::
  "bool \<Rightarrow> 'cb udp_listener stream_handle \<Rightarrow> (byte option list, 'cb udp_listener stream_handle) outcome" where
  "DgramListener_Data nd h =
     locked ''DGRAM Data Connection expired.'' (UdpListener_Data nd) h"

definition DgramListener_Size ::
  "bool \<Rightarrow> 'cb udp_listener stream_handle \<Rightarrow> (nat, 'cb udp_listener stream_handle) outcome" where
  "DgramListener_Size nd h =
     locked ''DGRAM Size Connection expired.'' (UdpListener_Size nd) h"

definition DgramListener_Consume ::
  "bool \<Rightarrow> c_int \<Rightarrow> 'cb udp_listener stream_handle \<Rightarrow> (unit, 'cb udp_listener stream_handle) outcome" where
  "DgramListener_Consume nd len h =
     locked ''DGRAM Consume Connection expired.'' (UdpListener_Consume nd (size_of_int len)) h"

definition DgramListener_LaunchRead ::
  "bool \<Rightarrow> 'cb udp_listener stream_handle \<Rightarrow> (unit, 'cb udp_listener stream_handle) outcome" where
  "DgramListener_LaunchRead nd h =
     locked ''DGRAM Launch Read Connection expired.'' (UdpListener_LaunchRead nd) h"

text \<open>An end point that was never set is the unspecified IPv4 address with port 0.\<close>

definition DgramListener_GetPeerEndPoint ::
  "'cb udp_listener stream_handle \<Rightarrow> (IoEndPoint, 'cb udp_listener stream_handle) outcome" where
  "DgramListener_GetPeerEndPoint h =
     locked ''DGRAM Get Peer End Point Connection expired.''
       (\<lambda>u. (Inr (IoEndPoint_boost (case udp_peerEndPoint u of Some ep \<Rightarrow> ep | None \<Rightarrow> (V4 0, 0))
                    (UdpListener_HasAsyncConnected u) (UdpListener_HasAsyncReceivedFrom u)), u)) h"

definition DgramListener_HasAsyncConnected ::
  "'cb udp_listener stream_handle \<Rightarrow> (bool, 'cb udp_listener stream_handle) outcome" where
  "DgramListener_HasAsyncConnected h =
     locked ''DGRAM Has Async Connected Connection expired.''
       (\<lambda>u. (Inr (UdpListener_HasAsyncConnected u), u)) h"

definition DgramListener_StopListening :: "'cb udp_listener stream_handle \<Rightarrow> 'cb udp_listener stream_handle" where
  "DgramListener_StopListening h =
     (case peerConnection h of
        None \<Rightarrow> h
      | Some u \<Rightarrow> h\<lparr>peerConnection := Some (UdpListener_StopListening u)\<rparr>)"

definition DgramListener_IsValid :: "'cb udp_listener stream_handle \<Rightarrow> bool" where
  "DgramListener_IsValid h \<longleftrightarrow> peerConnection h \<noteq> None"

text \<open>The destructor.\<close>

definition DgramListener_destroy :: "'cb udp_listener stream_handle \<Rightarrow> 'cb udp_listener stream_handle" where
  "DgramListener_destroy h = DgramListener_StopListening h"

end
