(* ===== verification/IoListeners.thy ===== *)
theory IoListeners
  imports DgramApi
begin

text \<open>
  The datagram side of the services object: making listeners and their handles, the map that owns them
  (\<open>IoServices/IoServicesImpl.cpp\<close>), and the callbacks an application sees
  (\<open>SetupReadCallbacks\<close> in \<open>IoServices/IoServices.cpp\<close>).
\<close>

section \<open>State\<close>

text \<open>
  Listeners are numbered in the order they are made, and each has one handle, which the bind functions
  return: \<open>dg_held\<close> are the handles the application refers to, \<open>dg_local\<close> the one a running callback
  locks. \<open>dg_map\<close> is \<open>_listeners\<close>; the mutex of the services object is held for the access to the map
  alone, so it does not appear. \<open>dg_connecting\<close> are the outstanding connects with their destinations,
  \<open>dg_running\<close> the listener whose handler is running and holds a shared pointer to it.
\<close>

datatype dgram_cb = On_datagram | On_dgram_error | On_dgram_connected

datatype dgram_event =
    Told_datagram nat c_int
  | Told_dgram_error "nat option" string
  | Told_dgram_connected nat

record dgrams =
  dg_listener :: "nat \<Rightarrow> dgram_cb udp_listener"
  dg_next :: nat
  dg_map :: "nat list"
  dg_connecting :: "(nat \<times> ip_address \<times> c_int) list"
  dg_held :: "nat list"
  dg_local :: "nat option"
  dg_running :: "nat option"
  dg_told :: "dgram_event list"

definition dgrams_new :: dgrams where
  "dgrams_new = \<lparr>dg_listener = (\<lambda>_. UdpListener_new), dg_next = 0, dg_map = [], dg_connecting = [],
     dg_held = [], dg_local = None, dg_running = None, dg_told = []\<rparr>"

definition DatagramMtu :: c_int where
  "DatagramMtu = 65535"

definition dg_get :: "nat \<Rightarrow> dgrams \<Rightarrow> dgram_cb udp_listener" where
  "dg_get i s = dg_listener s i"

definition dg_put :: "nat \<Rightarrow> dgram_cb udp_listener \<Rightarrow> dgrams \<Rightarrow> dgrams" where
  "dg_put i u s = s\<lparr>dg_listener := (dg_listener s)(i := u)\<rparr>"

text \<open>
  A listener lives as long as a shared pointer to it: the map has one, and so has the handler of an
  outstanding connect or send, and a running handler. The handler of an outstanding receive has not:
  it captures \<open>this\<close>.
\<close>

definition dg_alive :: "nat \<Rightarrow> dgrams \<Rightarrow> bool" where
  "dg_alive i s \<longleftrightarrow> i \<in> set (dg_map s) \<or> i \<in> fst ` set (dg_connecting s)
     \<or> udp_pending (dg_get i s) \<noteq> [] \<or> dg_running s = Some i"

definition dg_handle :: "nat \<Rightarrow> dgrams \<Rightarrow> dgram_cb udp_listener stream_handle" where
  "dg_handle i s = \<lparr>peerConnection = (if dg_alive i s then Some (dg_get i s) else None), isClientSide = False\<rparr>"

definition dg_put_handle :: "nat \<Rightarrow> dgram_cb udp_listener stream_handle \<Rightarrow> dgrams \<Rightarrow> dgrams" where
  "dg_put_handle i h s = (case peerConnection h of None \<Rightarrow> s | Some u \<Rightarrow> dg_put i u s)"

text \<open>
  The application: calls, and a script of calls for everything it is told. The rest is boost's: the
  socket, address parsing and the output of an end point.
\<close>

datatype dgram_api =
    Bind string c_int
  | Bind_any c_int
  | Unbound
  | Dg_connect nat string c_int
  | Dg_write nat "byte list" bool
  | Dg_send nat "byte list" string c_int bool
  | Dg_consume nat c_int
  | Dg_launch_read nat
  | Dg_stop nat
  | Dg_drop nat

record dgram_env =
  dg_nd :: bool
  dg_bst :: udp_boost
  dg_from_string :: "string \<Rightarrow> fault + ip_address"
  dg_make_ep :: "string \<Rightarrow> c_int \<Rightarrow> fault + IoEndPoint"
  dg_show_ep :: "end_point \<Rightarrow> string"
  dg_app :: "dgram_event \<Rightarrow> dgrams \<Rightarrow> dgram_api app_step list"

section \<open>The map of listeners\<close>

text \<open>A new listener in the map; its number is the result.\<close>

definition dg_add :: "dgram_cb udp_listener \<Rightarrow> dgrams \<Rightarrow> (nat, dgrams) outcome" where
  "dg_add u s = (Inr (dg_next s),
     (dg_put (dg_next s) u s)\<lparr>dg_next := dg_next s + 1, dg_map := dg_map s @ [dg_next s]\<rparr>)"

definition IoServicesImpl_BindDgramListener ::
  "dgram_env \<Rightarrow> string \<Rightarrow> c_int \<Rightarrow> dgrams \<Rightarrow> (nat, dgrams) outcome" where
  "IoServicesImpl_BindDgramListener e ipAddress port s =
     (case dg_from_string e ipAddress of
        Inl f \<Rightarrow> (Inl f, s)
      | Inr boostAddress \<Rightarrow>
          (case UdpListener_new_address (dg_bst e) boostAddress port of
             (Inl f, _) \<Rightarrow> (Inl f, s) | (Inr _, u) \<Rightarrow> dg_add u s))"

definition IoServicesImpl_BindDgramListener_any ::
  "dgram_env \<Rightarrow> c_int \<Rightarrow> dgrams \<Rightarrow> (nat, dgrams) outcome" where
  "IoServicesImpl_BindDgramListener_any e port s =
     (case UdpListener_new_port (dg_bst e) port of (Inl f, _) \<Rightarrow> (Inl f, s) | (Inr _, u) \<Rightarrow> dg_add u s)"

definition IoServicesImpl_MakeUnboundUdpListener :: "dgrams \<Rightarrow> (nat, dgrams) outcome" where
  "IoServicesImpl_MakeUnboundUdpListener s = dg_add UdpListener_new s"

definition IoServicesImpl_ErrorHandler_listener :: "nat \<Rightarrow> dgrams \<Rightarrow> (unit, dgrams) outcome" where
  "IoServicesImpl_ErrorHandler_listener i s =
     (if i \<notin> set (dg_map s) then (Inl (RuntimeError ''Listener not found''), s)
      else (Inr (), s\<lparr>dg_map := removeAll i (dg_map s)\<rparr>))"

section \<open>Making listeners\<close>

text \<open>
  The handle goes out of scope when setting up the chained read throws; its destructor then closes
  the socket.
\<close>

definition dg_destroy_handle :: "nat \<Rightarrow> dgrams \<Rightarrow> dgrams" where
  "dg_destroy_handle i s = dg_put_handle i (DgramListener_destroy (dg_handle i s)) s"

definition IoServices_SetupReadCallbacks :: "dgram_env \<Rightarrow> nat \<Rightarrow> bool \<Rightarrow> dgrams \<Rightarrow> (unit, dgrams) outcome" where
  "IoServices_SetupReadCallbacks e i immediate s =
     on_host (dg_get i) (dg_put i)
       (UdpListener_SetupChainedRead (dg_nd e) (Some On_datagram) (Some On_dgram_error) DatagramMtu immediate) s"

definition dg_hand_out :: "dgram_env \<Rightarrow> bool \<Rightarrow> nat \<Rightarrow> dgrams \<Rightarrow> (unit, dgrams) outcome" where
  "dg_hand_out e immediate i s =
     (case IoServices_SetupReadCallbacks e i immediate s of
        (Inl f, s) \<Rightarrow> (Inl f, dg_destroy_handle i s)
      | (Inr _, s) \<Rightarrow> (Inr (), s\<lparr>dg_held := dg_held s @ [i]\<rparr>))"

definition IoServices_BindDgramListener :: "dgram_env \<Rightarrow> string \<Rightarrow> c_int \<Rightarrow> dgrams \<Rightarrow> (unit, dgrams) outcome" where
  "IoServices_BindDgramListener e ipAddress port s =
     and_then (IoServicesImpl_BindDgramListener e ipAddress port s) (dg_hand_out e True)"

definition IoServices_BindDgramListener_any :: "dgram_env \<Rightarrow> c_int \<Rightarrow> dgrams \<Rightarrow> (unit, dgrams) outcome" where
  "IoServices_BindDgramListener_any e port s =
     and_then (IoServicesImpl_BindDgramListener_any e port s) (dg_hand_out e True)"

definition IoServices_UnboundDgramListener :: "dgram_env \<Rightarrow> dgrams \<Rightarrow> (unit, dgrams) outcome" where
  "IoServices_UnboundDgramListener e s =
     and_then (IoServicesImpl_MakeUnboundUdpListener s) (dg_hand_out e False)"

section \<open>What the application does\<close>

definition dg_use ::
  "nat \<Rightarrow> (dgram_cb udp_listener stream_handle \<Rightarrow> (unit, dgram_cb udp_listener stream_handle) outcome) \<Rightarrow>
   dgrams \<Rightarrow> (unit, dgrams) outcome" where
  "dg_use i f s =
     (if i \<in> set (dg_held s) \<or> dg_local s = Some i
      then case f (dg_handle i s) of (r, h) \<Rightarrow> (r, dg_put_handle i h s)
      else (Inr (), s))"

definition dg_connect :: "dgram_env \<Rightarrow> nat \<Rightarrow> string \<Rightarrow> c_int \<Rightarrow> dgrams \<Rightarrow> (unit, dgrams) outcome" where
  "dg_connect e i destIp port s =
     (if i \<in> set (dg_held s) \<or> dg_local s = Some i
      then case DgramListener_AsyncConnect (dg_nd e) (dg_from_string e) (Some On_dgram_connected) destIp port
                  (dg_handle i s) of
             (Inl f, h) \<Rightarrow> (Inl f, dg_put_handle i h s)
           | (Inr _, h) \<Rightarrow>
               (case dg_from_string e destIp of
                  Inl f \<Rightarrow> (Inl f, s)
                | Inr ip \<Rightarrow> (Inr (), (dg_put_handle i h s)\<lparr>dg_connecting := dg_connecting s @ [(i, ip, port)]\<rparr>))
      else (Inr (), s))"

fun dgram_do :: "dgram_env \<Rightarrow> dgram_api \<Rightarrow> dgrams \<Rightarrow> (unit, dgrams) outcome" where
  "dgram_do e (Bind ip port) s = IoServices_BindDgramListener e ip port s"
| "dgram_do e (Bind_any port) s = IoServices_BindDgramListener_any e port s"
| "dgram_do e Unbound s = IoServices_UnboundDgramListener e s"
| "dgram_do e (Dg_connect i ip port) s = dg_connect e i ip port s"
| "dgram_do e (Dg_write i msg nt) s = dg_use i (DgramListener_AsyncWrite_string (dg_bst e) msg nt) s"
| "dgram_do e (Dg_send i msg ip port nt) s =
     dg_use i (DgramListener_AsyncSendTo_string (dg_bst e) (dg_make_ep e) msg ip port nt) s"
| "dgram_do e (Dg_consume i len) s = dg_use i (DgramListener_Consume (dg_nd e) len) s"
| "dgram_do e (Dg_launch_read i) s = dg_use i (DgramListener_LaunchRead (dg_nd e)) s"
| "dgram_do e (Dg_stop i) s = dg_use i (\<lambda>h. (Inr (), DgramListener_StopListening h)) s"
| "dgram_do e (Dg_drop i) s =
     (if i \<notin> set (dg_held s) then (Inr (), s)
      else let s1 = s\<lparr>dg_held := removeAll i (dg_held s)\<rparr>
           in (Inr (), if dg_local s1 = Some i then s1 else dg_destroy_handle i s1))"

definition dgram_told :: "dgram_env \<Rightarrow> dgram_event \<Rightarrow> dgrams \<Rightarrow> (unit, dgrams) outcome" where
  "dgram_told e ev s =
     (let s1 = s\<lparr>dg_told := dg_told s @ [ev]\<rparr> in run_script (dgram_do e) (dg_app e ev s1) s1)"

text \<open>A block with a local shared pointer to the handle.\<close>

definition dg_with_local ::
  "nat \<Rightarrow> (dgrams \<Rightarrow> (unit, dgrams) outcome) \<Rightarrow> dgrams \<Rightarrow> (unit, dgrams) outcome" where
  "dg_with_local i f s =
     (case f (s\<lparr>dg_local := Some i\<rparr>) of
        (r, s1) \<Rightarrow> let s2 = s1\<lparr>dg_local := None\<rparr>
                   in (r, if i \<in> set (dg_held s2) then s2 else dg_destroy_handle i s2))"

section \<open>Callbacks and completions\<close>

definition dgram_notify :: "dgram_env \<Rightarrow> nat \<Rightarrow> dgram_cb \<Rightarrow> nat \<Rightarrow> dgrams \<Rightarrow> (unit, dgrams) outcome" where
  "dgram_notify e i cb available s =
     (if i \<in> set (dg_held s)
      then dg_with_local i (dgram_told e (Told_datagram i (int_of_size available))) s
      else (Inr (), s))"

definition dgram_peer :: "dgram_env \<Rightarrow> nat \<Rightarrow> dgrams \<Rightarrow> string" where
  "dgram_peer e i s =
     dg_show_ep e (case udp_peerEndPoint (dg_get i s) of Some ep \<Rightarrow> ep | None \<Rightarrow> (V4 0, 0))"

text \<open>The application is told, then the listener leaves the map; both while the handle is locked.\<close>

definition tell_and_erase :: "dgram_env \<Rightarrow> nat \<Rightarrow> dgram_event \<Rightarrow> dgrams \<Rightarrow> (unit, dgrams) outcome" where
  "tell_and_erase e i ev s =
     and_then (dgram_told e ev s) (\<lambda>_ s. IoServicesImpl_ErrorHandler_listener i s)"

definition udpErrCb :: "dgram_env \<Rightarrow> nat \<Rightarrow> dgram_cb \<Rightarrow> error_code \<Rightarrow> dgrams \<Rightarrow> (unit, dgrams) outcome" where
  "udpErrCb e i cb ec s =
     (if i \<in> set (dg_held s)
      then dg_with_local i (tell_and_erase e i (Told_dgram_error (Some i)
             (''Datagram listener error: '' @ dgram_peer e i s @ '' '' @ ec_message ec @ [CHR 0x0A]))) s
      else tell_and_erase e i (Told_dgram_error None
             (''Datagram listener destructed: '' @ dgram_peer e i s @ '' '' @ ec_message ec)) s)"

text \<open>The handler of a connect calls \<open>shared_from_this\<close> of the handle it captured by \<open>this\<close>.\<close>

definition dgram_connect_callback :: "dgram_env \<Rightarrow> nat \<Rightarrow> dgram_cb \<Rightarrow> dgrams \<Rightarrow> (unit, dgrams) outcome" where
  "dgram_connect_callback e i cb s =
     (if i \<in> set (dg_held s) then dg_with_local i (dgram_told e (Told_dgram_connected i)) s
      else (Inl (Undefined ''shared_from_this of a destroyed DgramListener''), s))"

text \<open>
  A handler runs for a listener; when it is done and no shared pointer is left the listener is
  destroyed, which closes the socket.
\<close>

definition UdpListener_destroy :: "'cb udp_listener \<Rightarrow> 'cb udp_listener" where
  "UdpListener_destroy u = udp_call Udp_close u"

definition dg_keeping :: "nat \<Rightarrow> (dgrams \<Rightarrow> (unit, dgrams) outcome) \<Rightarrow> dgrams \<Rightarrow> (unit, dgrams) outcome" where
  "dg_keeping i f s =
     (case f (s\<lparr>dg_running := Some i\<rparr>) of
        (r, s1) \<Rightarrow> let s2 = s1\<lparr>dg_running := None\<rparr>
                   in (r, if dg_alive i s2 then s2 else dg_put i (UdpListener_destroy (dg_get i s2)) s2))"

text \<open>The completions: a receive, whose handler needs the listener to be alive, a connect and a send.\<close>

definition dgram_received ::
  "dgram_env \<Rightarrow> nat \<Rightarrow> error_code \<Rightarrow> nat \<Rightarrow> dgrams \<Rightarrow> (unit, dgrams) outcome" where
  "dgram_received e i ec n s =
     (if \<not> dg_alive i s then (Inl (Undefined ''handler of a destroyed UdpListener''), s)
      else dg_keeping i
             (UdpListener_boostHandler (dg_nd e) (dg_get i) (dg_put i) (dgram_notify e i) (udpErrCb e i) ec n) s)"

definition dgram_connected ::
  "dgram_env \<Rightarrow> nat \<Rightarrow> ip_address \<Rightarrow> c_int \<Rightarrow> error_code \<Rightarrow> dgrams \<Rightarrow> (unit, dgrams) outcome" where
  "dgram_connected e i destIp port ec s =
     dg_keeping i
       (UdpListener_ConnectHandler (dg_nd e) (dg_get i) (dg_put i) (udpErrCb e i) (dgram_connect_callback e i)
          destIp port ec) s"

definition dgram_wrote :: "dgram_env \<Rightarrow> nat \<Rightarrow> error_code \<Rightarrow> nat \<Rightarrow> dgrams \<Rightarrow> (unit, dgrams) outcome" where
  "dgram_wrote e i ec n s =
     dg_keeping i (on_host (dg_get i) (dg_put i) (udp_write_completed (dg_bst e) ec n)) s"

section \<open>Runs\<close>

inductive dgram_step :: "dgram_env \<Rightarrow> dgrams \<Rightarrow> dgrams \<Rightarrow> bool" for e where
  call: "dgram_do e a s = (r, s') \<Longrightarrow> dgram_step e s s'"
| received: "fits_read bs (udp_readBuffer (dg_get i s)) \<Longrightarrow>
    dgram_received e i no_error (length bs) (dg_put i (udp_arrival bs from (dg_get i s)) s) = (r, s') \<Longrightarrow>
    dgram_step e s s'"
| failed: "reads (udp_readBuffer (dg_get i s)) \<noteq> [] \<Longrightarrow> n = 0 \<or> ec_set ec \<Longrightarrow>
    dgram_received e i ec n (dg_put i (udp_lost (dg_get i s)) s) = (r, s') \<Longrightarrow> dgram_step e s s'"
| connected: "(i, ip, port) \<in> set (dg_connecting s) \<Longrightarrow>
    dgram_connected e i ip port ec (s\<lparr>dg_connecting := remove1 (i, ip, port) (dg_connecting s)\<rparr>) = (r, s') \<Longrightarrow>
    dgram_step e s s'"
| wrote: "dgram_wrote e i ec n s = (r, s') \<Longrightarrow> dgram_step e s s'"

inductive_cases dgram_stepE [consumes 1, case_names call received failed connected wrote]:
  "dgram_step e s s'"

section \<open>What calls and handlers keep\<close>

text \<open>
  The map holds listeners that were made, each once, and every listener that was made has its error
  callback. Calls of the application only add to the map, and tell it nothing.
\<close>

definition dgrams_ok :: "dgrams \<Rightarrow> bool" where
  "dgrams_ok s \<longleftrightarrow> distinct (dg_map s) \<and> (\<forall>i \<in> set (dg_map s). i < dg_next s)
     \<and> (\<forall>i < dg_next s. udp_errorCallback (dg_listener s i) = Some On_dgram_error)"

definition dg_rel :: "dgrams \<Rightarrow> dgrams \<Rightarrow> bool" where
  "dg_rel s s' \<longleftrightarrow> dg_told s' = dg_told s
     \<and> (dgrams_ok s \<longrightarrow> dgrams_ok s' \<and> set (dg_map s) \<subseteq> set (dg_map s'))"

lemma dg_rel_refl [simp]: "dg_rel s s"
  by (simp add: dg_rel_def)

lemma dg_rel_trans: "dg_rel s t \<Longrightarrow> dg_rel t u \<Longrightarrow> dg_rel s u"
  by (auto simp: dg_rel_def)

lemma dg_rel_put: "udp_errorCallback u = udp_errorCallback (dg_listener s i) \<Longrightarrow> dg_rel s (dg_put i u s)"
  by (auto simp: dg_rel_def dgrams_ok_def dg_put_def)

definition keeps_error :: "(dgram_cb udp_listener \<Rightarrow> ('a, dgram_cb udp_listener) outcome) \<Rightarrow> bool" where
  "keeps_error f \<longleftrightarrow> (\<forall>u. udp_errorCallback (snd (f u)) = udp_errorCallback u)"

lemma keeps_error_launch: "udp_errorCallback (snd (UdpListener_LaunchWrite bst u)) = udp_errorCallback u"
  by (auto simp: UdpListener_LaunchWrite_def udp_try_def udp_call_def and_then_def
      split: list.split option.split sum.split prod.split)

lemma keeps_error_queue: "udp_errorCallback (snd (UdpListener_QueueOrWriteBuffer bst m u)) = udp_errorCallback u"
  by (simp add: UdpListener_QueueOrWriteBuffer_def keeps_error_launch Let_def)

lemma keeps_error_buffer: "udp_errorCallback (snd (udp_on_buffer f u)) = udp_errorCallback u"
  by (auto simp: udp_on_buffer_def on_host_def UdpListener_readSome_def udp_call_def Let_def split: prod.split)

lemma keeps_error_wrote: "keeps_error (udp_write_completed bst ec n)"
  by (auto simp: keeps_error_def udp_write_completed_def UdpListener_WriteHandler_def udp_call_def
      keeps_error_launch Let_def split: list.split)

lemma dg_rel_on: "keeps_error f \<Longrightarrow> dg_rel s (snd (on_host (dg_get i) (dg_put i) f s))"
  using dg_rel_put [of "snd (f (dg_listener s i))" s i]
  by (simp add: on_host_def dg_get_def keeps_error_def case_prod_beta)

lemma dg_rel_locked:
  assumes "keeps_error f"
  shows "dg_rel s (dg_put_handle i (snd (locked msg f (dg_handle i s))) s)"
  using assms dg_rel_put [of "snd (f (dg_listener s i))" s i]
  by (auto simp: locked_def dg_handle_def dg_put_handle_def dg_get_def keeps_error_def case_prod_beta
      split: option.split)

lemma dg_rel_use: "keeps_error f \<Longrightarrow> dg_rel s (snd (dg_use i (locked msg f) s))"
  using dg_rel_locked [of f s i msg] by (simp add: dg_use_def case_prod_beta)

lemma dg_rel_stop: "dg_rel s (dg_put_handle i (DgramListener_StopListening (dg_handle i s)) s)"
  by (auto simp: dg_put_handle_def DgramListener_StopListening_def dg_handle_def dg_get_def udp_call_def
      UdpListener_StopListening_def intro: dg_rel_put)

lemma dg_rel_destroy: "dg_rel s (dg_destroy_handle i s)"
  unfolding dg_destroy_handle_def DgramListener_destroy_def by (rule dg_rel_stop)

lemma dg_rel_hidden:
  "dg_rel s (s\<lparr>dg_local := l\<rparr>)" "dg_rel s (s\<lparr>dg_running := l\<rparr>)" "dg_rel s (s\<lparr>dg_held := h\<rparr>)"
  "dg_rel s (s\<lparr>dg_connecting := c\<rparr>)"
  by (simp_all add: dg_rel_def dgrams_ok_def)

lemma dg_rel_added:
  "dg_rel s (snd (and_then (dg_add u s) (dg_hand_out e immediate)))"
proof -
  let ?i = "dg_next s"
  let ?s = "(dg_put ?i u s)\<lparr>dg_next := ?i + 1, dg_map := dg_map s @ [?i]\<rparr>"
  obtain r t where t: "IoServices_SetupReadCallbacks e ?i immediate ?s = (r, t)" by fastforce
  define v where "v = snd (udp_on_buffer (IoCircularBuffer_BeginChainedRead (dg_nd e) (Some On_datagram) DatagramMtu immediate)
    ((dg_get ?i ?s)\<lparr>udp_errorCallback := Some On_dgram_error\<rparr>))"
  have "udp_errorCallback v = Some On_dgram_error"
    by (simp add: v_def keeps_error_buffer)
  moreover have "t = dg_put ?i v ?s"
    using t by (simp add: IoServices_SetupReadCallbacks_def on_host_def UdpListener_SetupChainedRead_def v_def
        case_prod_beta)
  ultimately have "dg_rel s t" by (auto simp: dg_rel_def dgrams_ok_def dg_put_def less_Suc_eq)
  with t show ?thesis
    by (cases r) (auto simp: dg_add_def dg_hand_out_def intro: dg_rel_trans dg_rel_destroy dg_rel_hidden)
qed

lemma dg_rel_bind:
  "dg_rel s (snd (IoServices_BindDgramListener e ip port s))"
  "dg_rel s (snd (IoServices_BindDgramListener_any e port s))"
  "dg_rel s (snd (IoServices_UnboundDgramListener e s))"
  using dg_rel_added
  by (auto simp: IoServices_BindDgramListener_def IoServicesImpl_BindDgramListener_def
      IoServices_BindDgramListener_any_def IoServicesImpl_BindDgramListener_any_def
      IoServices_UnboundDgramListener_def IoServicesImpl_MakeUnboundUdpListener_def split: sum.split prod.split)

lemma keeps_error_ops:
  "keeps_error (UdpListener_AsyncWrite_string bst msg nt)"
  "keeps_error (UdpListener_AsyncSendTo_string bst make_ep msg ip port nt)"
  "keeps_error (UdpListener_Consume nd n)"
  "keeps_error (UdpListener_LaunchRead nd)"
  "keeps_error (\<lambda>u. case from_string ip of Inl f \<Rightarrow> (Inl f, u)
     | Inr a \<Rightarrow> UdpListener_AsyncConnect nd a port cb u)"
  by (simp_all add: keeps_error_def keeps_error_buffer UdpListener_AsyncWrite_string_def UdpListener_AsyncSendTo_string_def
      keeps_error_queue UdpListener_Consume_def UdpListener_LaunchRead_def UdpListener_AsyncConnect_def
      cassert_def udp_call_def split: sum.split)

lemma dg_rel_connect: "dg_rel s (snd (dg_connect e i ip port s))"
proof -
  let ?c = "DgramListener_AsyncConnect (dg_nd e) (dg_from_string e) (Some On_dgram_connected) ip port (dg_handle i s)"
  have "dg_rel s (dg_put_handle i (snd ?c) s)"
    unfolding DgramListener_AsyncConnect_def by (rule dg_rel_locked) (rule keeps_error_ops)
  then show ?thesis
    by (auto simp: dg_connect_def intro: dg_rel_trans dg_rel_hidden split: prod.split sum.split)
qed

lemma dg_rel_do: "dg_rel s (snd (dgram_do e a s))"
proof (cases a)
  case (Dg_drop i)
  then show ?thesis by (auto simp: Let_def intro: dg_rel_trans dg_rel_destroy dg_rel_hidden)
next
  case (Dg_stop i)
  with dg_rel_stop [of s i] show ?thesis by (simp add: dg_use_def)
qed (simp_all add: dg_rel_bind dg_rel_connect dg_rel_use keeps_error_ops DgramListener_AsyncWrite_string_def [abs_def]
    DgramListener_AsyncSendTo_string_def [abs_def] DgramListener_Consume_def [abs_def]
    DgramListener_LaunchRead_def [abs_def])

lemma dg_rel_script: "dg_rel t (snd (run_script (dgram_do e) as t))"
  by (rule run_script_rel [where R = dg_rel]) (auto intro: dg_rel_trans dg_rel_do)

lemma dgram_told_outcome:
  assumes "dgram_told e ev s = (r, t)"
  shows "dg_told t = dg_told s @ [ev]"
    and "dgrams_ok s \<Longrightarrow> dgrams_ok t \<and> set (dg_map s) \<subseteq> set (dg_map t)"
  using assms dg_rel_script [of "s\<lparr>dg_told := dg_told s @ [ev]\<rparr>" e "dg_app e ev (s\<lparr>dg_told := dg_told s @ [ev]\<rparr>)"]
  by (simp_all add: dgram_told_def dg_rel_def dgrams_ok_def Let_def)

text \<open>Handlers may also take a listener out of the map.\<close>

definition ok_rel :: "dgrams \<Rightarrow> dgrams \<Rightarrow> bool" where
  "ok_rel s s' \<longleftrightarrow> (dgrams_ok s \<longrightarrow> dgrams_ok s')"

lemma ok_rel_of: "dg_rel s s' \<Longrightarrow> ok_rel s s'"
  by (simp add: dg_rel_def ok_rel_def)

lemma ok_rel_told: "ok_rel s (snd (dgram_told e ev s))"
  using dgram_told_outcome(2) [of e ev s, OF surjective_pairing] by (simp add: ok_rel_def)

lemma ok_rel_trans: "ok_rel s t \<Longrightarrow> ok_rel t u \<Longrightarrow> ok_rel s u"
  by (simp add: ok_rel_def)

lemma ok_rel_and_then:
  assumes "ok_rel s (snd r)" and "\<And>a t. ok_rel t (snd (k a t))"
  shows "ok_rel s (snd (and_then r k))"
  using assms by (auto simp: and_then_def split: prod.split sum.split intro: ok_rel_trans)

lemma ok_rel_erase: "ok_rel s (snd (IoServicesImpl_ErrorHandler_listener i s))"
  by (auto simp: ok_rel_def dgrams_ok_def IoServicesImpl_ErrorHandler_listener_def distinct_removeAll)

lemma ok_rel_with_local:
  assumes "\<And>s. ok_rel s (snd (f s))"
  shows "ok_rel s (snd (dg_with_local i f s))"
proof -
  let ?t = "(snd (f (s\<lparr>dg_local := Some i\<rparr>)))\<lparr>dg_local := None\<rparr>"
  have "ok_rel s ?t"
    using assms [of "s\<lparr>dg_local := Some i\<rparr>"] by (simp add: ok_rel_def dgrams_ok_def)
  then show ?thesis
    using ok_rel_trans [OF \<open>ok_rel s ?t\<close> ok_rel_of [OF dg_rel_destroy [of ?t i]]]
    by (simp add: dg_with_local_def case_prod_beta Let_def)
qed

lemma ok_rel_keeping:
  assumes "\<And>s. ok_rel s (snd (f s))"
  shows "ok_rel s (snd (dg_keeping i f s))"
proof -
  let ?t = "(snd (f (s\<lparr>dg_running := Some i\<rparr>)))\<lparr>dg_running := None\<rparr>"
  have "ok_rel s ?t"
    using assms [of "s\<lparr>dg_running := Some i\<rparr>"] by (simp add: ok_rel_def dgrams_ok_def)
  moreover have "ok_rel ?t (dg_put i (UdpListener_destroy (dg_get i ?t)) ?t)"
    by (rule ok_rel_of, rule dg_rel_put) (simp add: UdpListener_destroy_def udp_call_def dg_get_def)
  ultimately show ?thesis
    using ok_rel_trans by (simp add: dg_keeping_def case_prod_beta Let_def)
qed

lemma ok_rel_callbacks:
  "ok_rel s (snd (dgram_notify e i cb n s))" "ok_rel s (snd (udpErrCb e i cb ec s))"
  "ok_rel s (snd (dgram_connect_callback e i cb s))"
  by (auto simp: dgram_notify_def udpErrCb_def dgram_connect_callback_def tell_and_erase_def
      intro!: ok_rel_with_local ok_rel_and_then ok_rel_erase ok_rel_told ok_rel_of [OF dg_rel_refl])

interpretation dgram_host: udp_host "dg_get i" "dg_put i" for i
  by unfold_locales (auto simp: dg_get_def dg_put_def)

lemma ok_rel_received: "ok_rel s (snd (dgram_received e i ec n s))"
proof -
  have "ok_rel s (snd (UdpListener_boostHandler (dg_nd e) (dg_get i) (dg_put i) (dgram_notify e i) (udpErrCb e i) ec n s))" for s
  proof (rule dgram_host.boost_handler_rel [where R = ok_rel])
    show "ok_rel s (udp_put_buffer (dg_get i) (dg_put i) b s)" for b s
      by (rule ok_rel_of, unfold udp_put_buffer_def, rule dg_rel_put) (simp add: dg_get_def)
    show "ok_rel s (dg_put i (UdpListener_readSome (dg_get i s)) s)" for s
      by (rule ok_rel_of, rule dg_rel_put) (simp add: dg_get_def UdpListener_readSome_def udp_call_def Let_def)
  qed (auto intro: ok_rel_trans ok_rel_callbacks)
  then show ?thesis
    by (auto simp: dgram_received_def intro: ok_rel_keeping ok_rel_of [OF dg_rel_refl])
qed

lemma ok_rel_connected: "ok_rel s (snd (dgram_connected e i ip port ec s))"
proof -
  have "ok_rel s (dg_put i ((dg_get i s)\<lparr>udp_asyncConnected := a, udp_peerEndPoint := b\<rparr>) s)" for s a b
    by (rule ok_rel_of, rule dg_rel_put) (simp add: dg_get_def)
  moreover have "ok_rel s (snd (on_host (dg_get i) (dg_put i) (udp_on_buffer f) s))" for s and f :: "dgram_cb circ \<Rightarrow> (unit, dgram_cb circ) outcome"
    by (rule ok_rel_of, rule dg_rel_on) (simp add: keeps_error_def keeps_error_buffer)
  ultimately have "ok_rel s (snd (UdpListener_ConnectHandler (dg_nd e) (dg_get i) (dg_put i) (udpErrCb e i)
      (dgram_connect_callback e i) ip port ec s))" for s
    unfolding UdpListener_ConnectHandler_def udp_report_def Let_def
    by (auto simp: ok_rel_of ok_rel_callbacks intro!: ok_rel_and_then
        intro: ok_rel_trans [of s "dg_put i ((dg_get i s)\<lparr>udp_asyncConnected := True,
          udp_peerEndPoint := Some (ip, ushort_of_int port)\<rparr>) s"] split: option.split)
  then show ?thesis unfolding dgram_connected_def by (rule ok_rel_keeping)
qed

lemma dgram_step_ok:
  assumes "dgram_step e s s'" and "dgrams_ok s"
  shows "dgrams_ok s'"
  using assms(1)
proof (cases rule: dgram_stepE)
  case (call a r)
  with assms(2) dg_rel_do [of s e a] show ?thesis by (simp add: dg_rel_def)
next
  case (received bs i "from" r)
  have "dg_rel s (dg_put i (udp_arrival bs from (dg_get i s)) s)"
    by (rule dg_rel_put) (simp add: udp_arrival_def dg_get_def)
  then show ?thesis
    using ok_rel_received [of "dg_put i (udp_arrival bs from (dg_get i s)) s" e i no_error "length bs"] received assms(2)
    by (simp add: ok_rel_def dg_rel_def)
next
  case (failed i n ec r)
  have "dg_rel s (dg_put i (udp_lost (dg_get i s)) s)"
    by (rule dg_rel_put) (simp add: udp_lost_def dg_get_def)
  then show ?thesis
    using ok_rel_received [of "dg_put i (udp_lost (dg_get i s)) s" e i ec n] failed assms(2)
    by (simp add: ok_rel_def dg_rel_def)
next
  case (connected i ip port ec r)
  with assms(2) ok_rel_connected [of "s\<lparr>dg_connecting := remove1 (i, ip, port) (dg_connecting s)\<rparr>" e i ip port ec]
    dg_rel_hidden(4) [of s] show ?thesis by (simp add: ok_rel_def dg_rel_def)
next
  case (wrote i ec n r)
  have "ok_rel s (snd (dgram_wrote e i ec n s))"
    unfolding dgram_wrote_def by (intro ok_rel_keeping ok_rel_of dg_rel_on keeps_error_wrote)
  with wrote assms(2) show ?thesis by (simp add: ok_rel_def)
qed

lemma dgram_reach_ok:
  assumes "(dgram_step e)\<^sup>*\<^sup>* dgrams_new s"
  shows "dgrams_ok s"
  using assms
proof (induction rule: rtranclp_induct)
  case base
  show ?case by (simp add: dgrams_ok_def dgrams_new_def)
next
  case (step t u)
  from step.hyps(2) step.IH show ?case by (rule dgram_step_ok)
qed

section \<open>Properties\<close>

lemma dg_put_handle_same:
  "dg_map (dg_put_handle i h s) = dg_map s" "dg_told (dg_put_handle i h s) = dg_told s"
  "dg_connecting (dg_put_handle i h s) = dg_connecting s" "dg_running (dg_put_handle i h s) = dg_running s"
  by (simp_all add: dg_put_handle_def dg_put_def split: option.split)

text \<open>
  What the application is told of an error, and what the error does: it is told once, and the listener
  leaves the map exactly if its callback returns.
\<close>

definition dgram_error_event :: "dgram_env \<Rightarrow> nat \<Rightarrow> error_code \<Rightarrow> dgrams \<Rightarrow> dgram_event" where
  "dgram_error_event e i ec s =
     (if i \<in> set (dg_held s)
      then Told_dgram_error (Some i) (''Datagram listener error: '' @ dgram_peer e i s @ '' '' @ ec_message ec @ [CHR 0x0A])
      else Told_dgram_error None (''Datagram listener destructed: '' @ dgram_peer e i s @ '' '' @ ec_message ec))"

lemma udpErrCb_outcome:
  assumes "dgrams_ok s" and "i \<in> set (dg_map s)" and "udpErrCb e i cb ec s = (r, s')"
  shows "dg_told s' = dg_told s @ [dgram_error_event e i ec s]"
    and "r = Inr () \<longleftrightarrow> i \<notin> set (dg_map s')"
proof -
  define l where "l = (if i \<in> set (dg_held s) then Some i else dg_local s)"
  obtain q t where t: "dgram_told e (dgram_error_event e i ec s) (s\<lparr>dg_local := l\<rparr>) = (q, t)" by fastforce
  have "dgrams_ok (s\<lparr>dg_local := l\<rparr>)" using assms(1) by (simp add: dgrams_ok_def)
  from dgram_told_outcome(2) [OF t this] assms(2) have m: "i \<in> set (dg_map t)" by auto
  have told: "dg_told t = dg_told s @ [dgram_error_event e i ec s]" using dgram_told_outcome(1) [OF t] by simp
  have "dg_told s' = dg_told t \<and> (r = Inr () \<longleftrightarrow> i \<notin> set (dg_map s'))"
  proof (cases "i \<in> set (dg_held s)")
    case True
    with t m assms(3) show ?thesis
      by (cases q) (auto simp: udpErrCb_def dgram_error_event_def l_def dg_with_local_def tell_and_erase_def
          dg_destroy_handle_def dg_put_handle_same IoServicesImpl_ErrorHandler_listener_def Let_def split: if_splits)
  next
    case False
    then have "s\<lparr>dg_local := l\<rparr> = s" by (simp add: l_def)
    with False t m assms(3) show ?thesis
      by (cases q) (auto simp: udpErrCb_def dgram_error_event_def tell_and_erase_def
          IoServicesImpl_ErrorHandler_listener_def)
  qed
  with told show "dg_told s' = dg_told s @ [dgram_error_event e i ec s]" "r = Inr () \<longleftrightarrow> i \<notin> set (dg_map s')"
    by simp_all
qed


text \<open>
  A connect that fails while the listener is receiving destroys it under its receive: no shared
  pointer to it is left, yet the receive is outstanding, and its handler, which captured \<open>this\<close>, then
  runs on a destroyed object.
\<close>

lemma failed_connect_dangles:
  assumes "(dgram_step e)\<^sup>*\<^sup>* dgrams_new s\<^sub>0" and "dg_connecting s\<^sub>0 = [(i, ip, port)]" and "i \<in> set (dg_map s\<^sub>0)"
    and "udp_pending (dg_get i s\<^sub>0) = []" and "reads (udp_readBuffer (dg_get i s\<^sub>0)) \<noteq> []" and "ec_set ec"
    and "\<And>ev t. dg_app e ev t = []"
  shows "\<exists>s'. dgram_connected e i ip port ec (s\<^sub>0\<lparr>dg_connecting := []\<rparr>) = (Inr (), s')
    \<and> reads (udp_readBuffer (dg_get i s')) = reads (udp_readBuffer (dg_get i s\<^sub>0)) \<and> \<not> dg_alive i s'
    \<and> fst (dgram_received e i ec' n (dg_put i (udp_lost (dg_get i s')) s')) =
        Inl (Undefined ''handler of a destroyed UdpListener'')"
proof -
  define s where "s = s\<^sub>0\<lparr>dg_connecting := []\<rparr>"
  have ok: "dgrams_ok s" using dgram_reach_ok [OF assms(1)] by (simp add: s_def dgrams_ok_def)
  have s: "i \<in> set (dg_map s)" "dg_connecting s = []" "udp_pending (dg_get i s) = []"
    "dg_get i s\<^sub>0 = dg_get i s"
    using assms(3,4) by (simp_all add: s_def dg_get_def)
  let ?t = "s\<lparr>dg_running := Some i\<rparr>"
  obtain r u where u: "udpErrCb e i On_dgram_error ec ?t = (r, u)" by fastforce
  from ok s(1) have e: "udp_errorCallback (dg_listener s i) = Some On_dgram_error" by (simp add: dgrams_ok_def)
  have told: "dgram_told e ev t = (Inr (), t\<lparr>dg_told := dg_told t @ [ev]\<rparr>)" for ev t
    by (simp add: dgram_told_def assms(7) Let_def)
  have r: "r = Inr ()" and m: "dg_map u = removeAll i (dg_map s)" "dg_connecting u = dg_connecting s"
    and l: "udp_pending (dg_get i u) = [] \<and> reads (udp_readBuffer (dg_get i u)) = reads (udp_readBuffer (dg_get i s))"
    using u s(1,3)
    by (auto simp: udpErrCb_def dg_with_local_def tell_and_erase_def told IoServicesImpl_ErrorHandler_listener_def
        dg_get_def Let_def split: if_splits)
  define v where "v = dg_put i (UdpListener_destroy (dg_get i (u\<lparr>dg_running := None\<rparr>))) (u\<lparr>dg_running := None\<rparr>)"
  have dead: "\<not> dg_alive i (u\<lparr>dg_running := None\<rparr>)"
    using m l s(2) by (simp add: dg_alive_def dg_get_def)
  have "dgram_connected e i ip port ec s = (Inr (), v)"
    using u e r dead assms(6)
    by (simp add: dgram_connected_def dg_keeping_def UdpListener_ConnectHandler_def udp_report_def dg_get_def v_def Let_def)
  moreover have "reads (udp_readBuffer (dg_get i v)) = reads (udp_readBuffer (dg_get i s))" "\<not> dg_alive i v"
    "\<not> dg_alive i (dg_put i (udp_lost (dg_get i v)) v)"
    using m l s(2)
    by (simp_all add: v_def dg_alive_def dg_get_def dg_put_def UdpListener_destroy_def udp_call_def udp_lost_def)
  ultimately show ?thesis
    unfolding s_def [symmetric] s(4) by (intro exI [of _ v]) (simp add: dgram_received_def)
qed

text \<open>
  A connect callback calls \<open>shared_from_this\<close> of the handle: without the handle that is undefined.
\<close>

lemma dgram_connect_without_handle:
  assumes "i \<notin> set (dg_held s)"
  shows "fst (dgram_connect_callback e i cb s) = Inl (Undefined ''shared_from_this of a destroyed DgramListener'')"
  using assms by (simp add: dgram_connect_callback_def)

text \<open>A bound listener of a silent application, and its connect.\<close>

definition silent_env :: dgram_env where
  "silent_env = \<lparr>dg_nd = False, dg_bst = good_socket, dg_from_string = (\<lambda>a. Inr (V4 1)),
     dg_make_ep = udp_make_ep (udp_env_of good_socket), dg_show_ep = (\<lambda>ep. show_nat (unat (snd ep))),
     dg_app = (\<lambda>ev s. [])\<rparr>"

definition one_bound :: dgrams where
  "one_bound = snd (dgram_do silent_env (Bind_any 5000) dgrams_new)"

lemma dgram_begin_fresh:
  obtains b :: "dgram_cb circ" where
    "IoCircularBuffer_BeginChainedRead False (Some On_datagram) DatagramMtu True IoCircularBuffer_new = (Inr (), b)"
    and "reads b = [(0, 65535)]"
proof -
  note fresh = that
  let ?c = "(IoCircularBuffer_new :: dgram_cb circ)\<lparr>notifyAvailable := Some On_datagram, chunkSize := DatagramMtu,
    shouldRead := True\<rparr>"
  have new: "circ_inv (IoCircularBuffer_new :: dgram_cb circ)" by (rule circ_inv_new)
  have c: "circ_base ?c" "\<not> hasContext ?c" "reads ?c = []" "vsize (buffer ?c) = 0"
    using new by (auto simp: circ_inv_def circ_base_def DatagramMtu_def IoCircularBuffer_new_def
        IoCircularBuffer_default_def vec_empty_def)
  have "IoCircularBuffer_BeginChainedRead False (Some On_datagram) DatagramMtu True IoCircularBuffer_new =
      IoCircularBuffer_ReadSome False ?c"
    by (simp add: IoCircularBuffer_BeginChainedRead_def IoCircularBuffer_new_def IoCircularBuffer_default_def)
  note begun = this
  show thesis
  proof (rule ReadSome_cases [of ?c False, OF c(1) _ _ c(2,3)])
    show "notifyAvailable ?c \<noteq> None" "shouldRead ?c" by simp_all
    show thesis if "vec_max_size \<le> vsize (buffer ?c) + size_of_int (chunkSize ?c)"
      using that c(4) by (simp add: DatagramMtu_def size_of_int_nonneg vec_max_size_def)
    show thesis if "IoCircularBuffer_ReadSome False ?c = (Inr (), b)" "reads b = [circ_slot b]" "circ_slot b = circ_slot ?c" for b
      by (rule fresh [of b]) (use begun that c(4) in simp, use that c(4) in \<open>simp add: circ_slot_def DatagramMtu_def size_of_int_nonneg\<close>)
  qed
qed

lemma one_bound_facts:
  "dg_map one_bound = [0]" "dg_held one_bound = [0]" "dg_connecting one_bound = []" "dg_told one_bound = []"
  "reads (udp_readBuffer (dg_get 0 one_bound)) = [(0, 65535)]" "udp_pending (dg_get 0 one_bound) = []"
  "udp_peerEndPoint (dg_get 0 one_bound) = None"
proof -
  obtain b :: "dgram_cb circ" where
    b: "IoCircularBuffer_BeginChainedRead False (Some On_datagram) DatagramMtu True IoCircularBuffer_new = (Inr (), b)"
    "reads b = [(0, 65535)]"
    using dgram_begin_fresh by blast
  show "dg_map one_bound = [0]" "dg_held one_bound = [0]" "dg_connecting one_bound = []" "dg_told one_bound = []"
    "reads (udp_readBuffer (dg_get 0 one_bound)) = [(0, 65535)]" "udp_pending (dg_get 0 one_bound) = []"
    "udp_peerEndPoint (dg_get 0 one_bound) = None"
    by (simp_all add: one_bound_def IoServices_BindDgramListener_any_def IoServicesImpl_BindDgramListener_any_def
        UdpListener_new_port_def udp_try_def silent_env_def good_socket_def dg_add_def dg_hand_out_def
        IoServices_SetupReadCallbacks_def UdpListener_SetupChainedRead_def udp_on_buffer_def on_host_def dg_get_def
        dg_put_def udp_call_def UdpListener_new_def dgrams_new_def b UdpListener_readSome_def Let_def)
qed

lemma one_bound_reach: "(dgram_step silent_env)\<^sup>*\<^sup>* dgrams_new one_bound"
  unfolding one_bound_def by (rule r_into_rtranclp, rule dgram_step.call [OF surjective_pairing])


definition bound_connecting :: dgrams where
  "bound_connecting = snd (dgram_do silent_env (Dg_connect 0 ''10.0.0.1'' 5001) one_bound)"

lemma bound_connecting_facts:
  "dg_map bound_connecting = [0]" "dg_connecting bound_connecting = [(0, V4 1, 5001)]"
  "reads (udp_readBuffer (dg_get 0 bound_connecting)) = [(0, 65535)]" "udp_pending (dg_get 0 bound_connecting) = []"
proof -
  have e: "udp_errorCallback (dg_get 0 one_bound) = Some On_dgram_error" "0 < dg_next one_bound"
    using dgram_reach_ok [OF one_bound_reach] by (auto simp: dgrams_ok_def one_bound_facts dg_get_def)
  show "dg_map bound_connecting = [0]" "dg_connecting bound_connecting = [(0, V4 1, 5001)]"
    "reads (udp_readBuffer (dg_get 0 bound_connecting)) = [(0, 65535)]" "udp_pending (dg_get 0 bound_connecting) = []"
    using e(1) one_bound_facts
    by (simp_all add: bound_connecting_def dg_connect_def DgramListener_AsyncConnect_def locked_def dg_handle_def
        dg_alive_def silent_env_def UdpListener_AsyncConnect_def dg_put_handle_def dg_put_def dg_get_def udp_call_def)
qed

lemma bound_connecting_reach: "(dgram_step silent_env)\<^sup>*\<^sup>* dgrams_new bound_connecting"
  by (rule rtranclp.rtrancl_into_rtrancl [OF one_bound_reach])
    (unfold bound_connecting_def, rule dgram_step.call [OF surjective_pairing])

lemma failed_connect_dangles_witness:
  "\<exists>s'. dgram_connected silent_env 0 (V4 1) 5001 \<lparr>ec_value = 101, ec_message = ''unreachable''\<rparr>
         (bound_connecting\<lparr>dg_connecting := []\<rparr>) = (Inr (), s')
     \<and> reads (udp_readBuffer (dg_get 0 s')) = [(0, 65535)] \<and> \<not> dg_alive 0 s'"
proof -
  have silent: "dg_app silent_env ev t = []" for ev t by (simp add: silent_env_def)
  show ?thesis
    using failed_connect_dangles [OF bound_connecting_reach bound_connecting_facts(2) _ bound_connecting_facts(4) _ _ silent,
        of "\<lparr>ec_value = 101, ec_message = ''unreachable''\<rparr>"]
    by (auto simp: bound_connecting_facts ec_set_def)
qed

end
