(* ===== verification/WriteThreads.thy ===== *)
theory WriteThreads
  imports TcpPeer
begin

text \<open>
  \<open>AsyncWrite\<close> and \<open>WriteHandler\<close> of a TCP connection on several threads at once, statement by
  statement. In \<open>TcpPeer\<close> each of them is one step of a run; here that is justified by the mutex they
  lock: what the threads do together is a run of those steps, in the order in which they got the mutex.
\<close>

section \<open>State\<close>

text \<open>
  Where a thread is: outside both functions, waiting for the mutex at the start of one of them (a write
  with its message, a handler with the message that was written), or before a statement that follows. The
  others are before \<open>push_back\<close>, before the test of the size that \<open>AsyncWrite\<close> makes, before
  \<open>LaunchWrite\<close>, before \<open>pop_front\<close>, before the test of the size that \<open>WriteHandler\<close> makes, and before
  the end of the function, where the guard releases the mutex. Histories have the handlers that wait and,
  in the order in which the mutex was got for them, the messages that were accepted and those that were
  written completely.
\<close>

datatype write_pc =
    Outside
  | Waiting_write io_buffer
  | Pushing io_buffer
  | Testing_size
  | Launching
  | Waiting_handler io_buffer
  | Popping
  | Testing_empty
  | Leaving

record ('ep, 'cb) write_threads =
  wt_conn :: "('ep, 'cb) tcp_conn"
  wt_lock :: "nat option"
  wt_pc :: "nat \<Rightarrow> write_pc"
  wt_waiting :: "(nat \<times> io_buffer) list"
  wt_accepted :: "io_buffer list"
  wt_sent :: "io_buffer list"

definition wt_new :: "('ep, 'cb) tcp_conn \<Rightarrow> ('ep, 'cb) write_threads" where
  "wt_new c = \<lparr>wt_conn = c, wt_lock = None, wt_pc = (\<lambda>_. Outside), wt_waiting = [], wt_accepted = [], wt_sent = []\<rparr>"

section \<open>Statements\<close>

definition go :: "nat \<Rightarrow> write_pc \<Rightarrow> ('ep, 'cb) write_threads \<Rightarrow> ('ep, 'cb) write_threads" where
  "go t pc s = s\<lparr>wt_pc := (wt_pc s)(t := pc)\<rparr>"

definition lock_guard :: "nat \<Rightarrow> ('ep, 'cb) write_threads \<Rightarrow> ('ep, 'cb) write_threads option" where
  "lock_guard t s = (if wt_lock s = None then Some (s\<lparr>wt_lock := Some t\<rparr>) else None)"

definition on_conn :: "(('ep, 'cb) tcp_conn \<Rightarrow> ('ep, 'cb) tcp_conn) \<Rightarrow> ('ep, 'cb) write_threads \<Rightarrow> ('ep, 'cb) write_threads" where
  "on_conn f s = s\<lparr>wt_conn := f (wt_conn s)\<rparr>"

text \<open>The statements of \<open>AsyncWrite\<close> and those of \<open>WriteHandler\<close>, up to the launch that both may end with.\<close>

definition write_statement :: "nat \<Rightarrow> ('ep, 'cb) write_threads \<Rightarrow> ('ep, 'cb) write_threads option" where
  "write_statement t s =
     (case wt_pc s t of
        Waiting_write m \<Rightarrow>
          map_option (\<lambda>s. go t (Pushing m) (s\<lparr>wt_accepted := wt_accepted s @ [m]\<rparr>)) (lock_guard t s)
      | Pushing m \<Rightarrow> Some (go t Testing_size (on_conn (\<lambda>c. c\<lparr>tcp_outQueue := tcp_outQueue c @ [m]\<rparr>) s))
      | Testing_size \<Rightarrow> Some (go t (if length (tcp_outQueue (wt_conn s)) > 1 then Leaving else Launching) s)
      | _ \<Rightarrow> None)"

definition handler_statement :: "nat \<Rightarrow> ('ep, 'cb) write_threads \<Rightarrow> ('ep, 'cb) write_threads option" where
  "handler_statement t s =
     (case wt_pc s t of
        Waiting_handler m \<Rightarrow>
          map_option (\<lambda>s. go t Popping (s\<lparr>wt_waiting := removeAll (t, m) (wt_waiting s), wt_sent := wt_sent s @ [m]\<rparr>))
            (lock_guard t s)
      | Popping \<Rightarrow> Some (go t Testing_empty (on_conn (\<lambda>c. c\<lparr>tcp_outQueue := tl (tcp_outQueue c)\<rparr>) s))
      | Testing_empty \<Rightarrow> Some (go t (if length (tcp_outQueue (wt_conn s)) = 0 then Leaving else Launching) s)
      | _ \<Rightarrow> None)"

text \<open>The next statement of the thread \<open>t\<close>; \<open>None\<close> while it has none or has to wait.\<close>

definition wt_next :: "nat \<Rightarrow> ('ep, 'cb) write_threads \<Rightarrow> ('ep, 'cb) write_threads option" where
  "wt_next t s =
     (case wt_pc s t of
        Launching \<Rightarrow> Some (go t Leaving (on_conn (\<lambda>c. snd (TcpPeerConnection_LaunchWrite c)) s))
      | Leaving \<Rightarrow> Some (go t Outside (s\<lparr>wt_lock := None\<rparr>))
      | Waiting_handler m \<Rightarrow> handler_statement t s
      | Popping \<Rightarrow> handler_statement t s
      | Testing_empty \<Rightarrow> handler_statement t s
      | _ \<Rightarrow> write_statement t s)"

lemma wt_next_eq:
  "wt_next t s =
     (case wt_pc s t of
        Outside \<Rightarrow> None
      | Waiting_write m \<Rightarrow>
          map_option (\<lambda>s. go t (Pushing m) (s\<lparr>wt_accepted := wt_accepted s @ [m]\<rparr>)) (lock_guard t s)
      | Pushing m \<Rightarrow> Some (go t Testing_size (on_conn (\<lambda>c. c\<lparr>tcp_outQueue := tcp_outQueue c @ [m]\<rparr>) s))
      | Testing_size \<Rightarrow> Some (go t (if length (tcp_outQueue (wt_conn s)) > 1 then Leaving else Launching) s)
      | Launching \<Rightarrow> Some (go t Leaving (on_conn (\<lambda>c. snd (TcpPeerConnection_LaunchWrite c)) s))
      | Waiting_handler m \<Rightarrow>
          map_option (\<lambda>s. go t Popping (s\<lparr>wt_waiting := removeAll (t, m) (wt_waiting s), wt_sent := wt_sent s @ [m]\<rparr>))
            (lock_guard t s)
      | Popping \<Rightarrow> Some (go t Testing_empty (on_conn (\<lambda>c. c\<lparr>tcp_outQueue := tl (tcp_outQueue c)\<rparr>) s))
      | Testing_empty \<Rightarrow> Some (go t (if length (tcp_outQueue (wt_conn s)) = 0 then Leaving else Launching) s)
      | Leaving \<Rightarrow> Some (go t Outside (s\<lparr>wt_lock := None\<rparr>)))"
  by (cases "wt_pc s t") (simp_all add: wt_next_def write_statement_def handler_statement_def)

text \<open>A completed write starts its handler on a thread; one that wrote less closes the socket, without the mutex.\<close>

definition wt_handler :: "nat \<Rightarrow> io_buffer \<Rightarrow> nat \<Rightarrow> ('ep, 'cb) write_threads \<Rightarrow> ('ep, 'cb) write_threads" where
  "wt_handler t m written s =
     (if written \<noteq> IoBufferWrapper_BoostSize m then on_conn (tcp_call Close_socket) s
      else go t (Waiting_handler m) (s\<lparr>wt_waiting := wt_waiting s @ [(t, m)]\<rparr>))"

text \<open>
  Any number of threads. The last rule is whatever else is done with the connection, on any thread and
  without the mutex: reading, closing, connecting.
\<close>

definition same_sending :: "('ep, 'cb) tcp_conn \<Rightarrow> ('ep, 'cb) tcp_conn \<Rightarrow> bool" where
  "same_sending c c' \<longleftrightarrow> tcp_outQueue c' = tcp_outQueue c \<and> tcp_pending c' = tcp_pending c \<and> tcp_handed c' = tcp_handed c"

inductive wt_step :: "('ep, 'cb) write_threads \<Rightarrow> ('ep, 'cb) write_threads \<Rightarrow> bool" where
  statement: "wt_next t s = Some s' \<Longrightarrow> wt_step s s'"
| call: "wt_pc s t = Outside \<Longrightarrow> wt_step s (go t (Waiting_write m) s)"
| completed: "wt_pc s t = Outside \<Longrightarrow> tcp_pending (wt_conn s) = m # ms \<Longrightarrow>
    wt_step s (wt_handler t m n (on_conn (\<lambda>c. c\<lparr>tcp_pending := ms\<rparr>) s))"
| other: "same_sending (wt_conn s) c \<Longrightarrow> wt_step s (s\<lparr>wt_conn := c\<rparr>)"

inductive_cases wt_stepE [consumes 1, case_names statement call completed other]: "wt_step s s'"

lemmas wt_defs = go_def lock_guard_def on_conn_def wt_handler_def

text \<open>
  One thread alone, from the moment it has the mutex until it gives it back, does what the function does as
  one step.
\<close>

fun wt_run_alone :: "nat \<Rightarrow> nat \<Rightarrow> ('ep, 'cb) write_threads \<Rightarrow> ('ep, 'cb) write_threads" where
  "wt_run_alone 0 t s = s"
| "wt_run_alone (Suc n) t s = (case wt_next t s of None \<Rightarrow> s | Some s' \<Rightarrow> wt_run_alone n t s')"

lemma write_alone:
  assumes "wt_pc s t = Pushing m" and "wt_lock s = Some t"
  shows "wt_conn (wt_run_alone 4 t s) = snd (TcpPeerConnection_QueueOrLaunch m (wt_conn s))
    \<and> wt_lock (wt_run_alone 4 t s) = None"
  using assms
  by (cases "tcp_outQueue (wt_conn s)")
    (simp_all add: numeral_eq_Suc wt_next_eq wt_defs TcpPeerConnection_QueueOrLaunch_def
      TcpPeerConnection_LaunchWrite_def Let_def)

lemma handler_alone:
  assumes "wt_pc s t = Popping" and "wt_lock s = Some t" and "tcp_outQueue (wt_conn s) \<noteq> []"
  shows "wt_conn (wt_run_alone 4 t s) =
      snd (TcpPeerConnection_WriteHandler m ec (IoBufferWrapper_BoostSize m) (wt_conn s))
    \<and> wt_lock (wt_run_alone 4 t s) = None"
  using assms
  by (cases "tcp_outQueue (wt_conn s)"; cases "tl (tcp_outQueue (wt_conn s))")
    (simp_all add: numeral_eq_Suc wt_next_eq wt_defs TcpPeerConnection_WriteHandler_def
      TcpPeerConnection_LaunchWrite_def Let_def)

section \<open>What is still to be done\<close>

text \<open>
  The thread that has the mutex has done a part of its function: \<open>later_queue\<close> and \<open>later_launch\<close> say what
  the rest of it will make of the queue, and which message it will hand to the socket.
\<close>

fun later_queue :: "write_pc \<Rightarrow> io_buffer list \<Rightarrow> io_buffer list" where
  "later_queue (Pushing m) q = q @ [m]"
| "later_queue Popping q = tl q"
| "later_queue _ q = q"

fun later_launch :: "write_pc \<Rightarrow> io_buffer list \<Rightarrow> io_buffer list" where
  "later_launch (Pushing m) q = (if q = [] then [m] else [])"
| "later_launch Testing_size q = (if length q > 1 then [] else take 1 q)"
| "later_launch Launching q = take 1 q"
| "later_launch Popping q = take 1 (tl q)"
| "later_launch Testing_empty q = take 1 q"
| "later_launch _ q = []"

definition inside :: "write_pc \<Rightarrow> bool" where
  "inside pc \<longleftrightarrow> pc \<noteq> Outside \<and> (\<forall>m. pc \<noteq> Waiting_write m) \<and> (\<forall>m. pc \<noteq> Waiting_handler m)"

lemma inside_simps [simp]:
  "\<not> inside Outside" "\<not> inside (Waiting_write m)" "\<not> inside (Waiting_handler m)" "inside (Pushing m)"
  "inside Testing_size" "inside Launching" "inside Popping" "inside Testing_empty" "inside Leaving"
  by (simp_all add: inside_def)

definition holder_pc :: "('ep, 'cb) write_threads \<Rightarrow> write_pc" where
  "holder_pc s = (case wt_lock s of None \<Rightarrow> Outside | Some t \<Rightarrow> wt_pc s t)"

text \<open>
  The simulation: the connection \<open>a\<close> of a run of whole functions is what the one here will be when the
  holder of the mutex is done; what a waiting handler completed is still outstanding there.
\<close>

definition simulated :: "('ep, 'cb) write_threads \<Rightarrow> ('ep, 'cb) tcp_conn \<Rightarrow> bool" where
  "simulated s a \<longleftrightarrow>
     tcp_outQueue a = later_queue (holder_pc s) (tcp_outQueue (wt_conn s))
     \<and> tcp_pending a = map snd (wt_waiting s) @ tcp_pending (wt_conn s)
          @ later_launch (holder_pc s) (tcp_outQueue (wt_conn s))
     \<and> tcp_handed a = tcp_handed (wt_conn s)
          @ map IoBufferWrapper_ToBoost (later_launch (holder_pc s) (tcp_outQueue (wt_conn s)))"

abbreviation tcp_wq_run :: "io_buffer list \<Rightarrow> io_buffer list \<Rightarrow> ('ep, 'cb) tcp_conn \<Rightarrow> bool" where
  "tcp_wq_run \<equiv> wq_run tcp_outQueue tcp_pending tcp_handed tcp_enqueue tcp_complete IoBufferWrapper_BoostSize"

text \<open>Exactly the holder of the mutex is inside, the handlers that wait are recorded, no statement is undefined.\<close>

definition wt_locked :: "('ep, 'cb) write_threads \<Rightarrow> bool" where
  "wt_locked s \<longleftrightarrow>
     (\<forall>t. inside (wt_pc s t) \<longleftrightarrow> wt_lock s = Some t)
     \<and> (\<forall>t m. wt_pc s t = Waiting_handler m \<longleftrightarrow> (t, m) \<in> set (wt_waiting s))
     \<and> (holder_pc s \<in> {Testing_size, Launching, Popping} \<longrightarrow> tcp_outQueue (wt_conn s) \<noteq> [])"

definition wt_ok :: "('ep, 'cb) write_threads \<Rightarrow> bool" where
  "wt_ok s \<longleftrightarrow> wt_locked s \<and> (\<exists>a. tcp_wq_run (wt_accepted s) (wt_sent s) a \<and> simulated s a)"

section \<open>Statements keep the simulation\<close>

lemma launch_sends:
  assumes "tcp_outQueue c = m # q"
  shows "tcp_outQueue (snd (TcpPeerConnection_LaunchWrite c)) = m # q"
    and "tcp_pending (snd (TcpPeerConnection_LaunchWrite c)) = tcp_pending c @ [m]"
    and "tcp_handed (snd (TcpPeerConnection_LaunchWrite c)) = tcp_handed c @ [IoBufferWrapper_ToBoost m]"
  using assms by (simp_all add: tcp_defs Let_def split: transport.split)

text \<open>The functions as a whole, from the moment the mutex is got.\<close>

lemma enqueue_sends:
  "tcp_outQueue (tcp_enqueue m a) = tcp_outQueue a @ [m]"
  "tcp_pending (tcp_enqueue m a) = tcp_pending a @ (if tcp_outQueue a = [] then [m] else [])"
  "tcp_handed (tcp_enqueue m a) = tcp_handed a @ (if tcp_outQueue a = [] then [IoBufferWrapper_ToBoost m] else [])"
  by (cases "tcp_outQueue a"; simp add: tcp_defs Let_def split: transport.split)+

lemma complete_sends:
  assumes "tcp_pending a = [m]" and "tcp_outQueue a = m # q"
  shows "tcp_outQueue (tcp_complete (IoBufferWrapper_BoostSize m) a) = q"
    and "tcp_pending (tcp_complete (IoBufferWrapper_BoostSize m) a) = take 1 q"
    and "tcp_handed (tcp_complete (IoBufferWrapper_BoostSize m) a) =
          tcp_handed a @ map IoBufferWrapper_ToBoost (take 1 q)"
  using assms by (cases q; simp add: tcp_defs Let_def split: transport.split)+

lemma simulated_one_in_flight:
  assumes "tcp_wq_run acc sent a" and "simulated s a" and "tcp_pending (wt_conn s) = m # ms \<or> (t, m) \<in> set (wt_waiting s)"
  shows "tcp_pending a = [m]" and "\<exists>q. tcp_outQueue a = m # q"
    and "tcp_pending (wt_conn s) = m # ms \<Longrightarrow> ms = [] \<and> wt_waiting s = []"
    and "(t, m) \<in> set (wt_waiting s) \<Longrightarrow> wt_waiting s = [(t, m)] \<and> tcp_pending (wt_conn s) = []"
    and "later_launch (holder_pc s) (tcp_outQueue (wt_conn s)) = []"
proof -
  let ?l = "later_launch (holder_pc s) (tcp_outQueue (wt_conn s))"
  have p: "tcp_pending a = map snd (wt_waiting s) @ tcp_pending (wt_conn s) @ ?l"
    using assms(2) by (simp add: simulated_def)
  have one: "tcp_pending a = [] \<or> tcp_pending a = [hd (tcp_outQueue a)] \<and> tcp_outQueue a \<noteq> []"
    using tcp_queue.one_in_flight [OF assms(1)] .
  have m: "m \<in> set (tcp_pending a)" using assms(3) p by force
  with one obtain h where h: "tcp_pending a = [h]" by fastforce
  with m have hm: "tcp_pending a = [m]" by simp
  then show "tcp_pending a = [m]" .
  from one hm show "\<exists>q. tcp_outQueue a = m # q" by (cases "tcp_outQueue a") auto
  have len: "length (wt_waiting s) + length (tcp_pending (wt_conn s)) + length ?l = 1"
    using p hm by (metis One_nat_def add.assoc length_Cons length_append length_map list.size(3))
  show "tcp_pending (wt_conn s) = m # ms \<Longrightarrow> ms = [] \<and> wt_waiting s = []" using len by simp
  show "(t, m) \<in> set (wt_waiting s) \<Longrightarrow> wt_waiting s = [(t, m)] \<and> tcp_pending (wt_conn s) = []"
    using len by (cases "wt_waiting s") auto
  show "?l = []" using len assms(3) by (cases "wt_waiting s") auto
qed

lemma wt_okI: "wt_locked s \<Longrightarrow> tcp_wq_run (wt_accepted s) (wt_sent s) a \<Longrightarrow> simulated s a \<Longrightarrow> wt_ok s"
  unfolding wt_ok_def by blast

lemma not_waiting: "wt_locked s \<Longrightarrow> wt_pc s t = pc \<Longrightarrow> (\<And>m. pc \<noteq> Waiting_handler m) \<Longrightarrow> (t, m) \<notin> set (wt_waiting s)"
  unfolding wt_locked_def by metis

text \<open>A statement of the holder changes neither who holds the mutex nor what will have been done.\<close>

lemma holder_locked:
  assumes "wt_locked s" and "wt_lock s = Some t" and "inside pc" and "wt_pc s' = (wt_pc s)(t := pc)"
    and "wt_lock s' = wt_lock s" and "wt_waiting s' = wt_waiting s"
    and "pc \<in> {Testing_size, Launching, Popping} \<Longrightarrow> tcp_outQueue (wt_conn s') \<noteq> []"
  shows "wt_locked s'" and "holder_pc s' = pc"
proof -
  have "inside (wt_pc s t)" using assms(1,2) by (auto simp: wt_locked_def)
  then have "\<forall>m. (t, m) \<notin> set (wt_waiting s)" using not_waiting [OF assms(1) refl] by (auto simp: inside_def)
  with assms show "wt_locked s'" by (auto simp: wt_locked_def holder_pc_def)
  show "holder_pc s' = pc" using assms(2,4,5) by (simp add: holder_pc_def)
qed

lemma holder_statement_ok:
  assumes "wt_next t s = Some s'" and "wt_ok s" and "inside (wt_pc s t)"
  shows "wt_ok s'"
proof -
  from assms(2) obtain a where l: "wt_locked s" and r: "tcp_wq_run (wt_accepted s) (wt_sent s) a"
    and s: "simulated s a" by (auto simp: wt_ok_def)
  have lock: "wt_lock s = Some t" using l assms(3) by (simp add: wt_locked_def)
  then have h: "holder_pc s = wt_pc s t" by (simp add: holder_pc_def)
  note hold = holder_locked [OF l lock]
  show ?thesis
  proof (cases "wt_pc s t")
    case (Pushing m)
    then have s': "s' = go t Testing_size (on_conn (\<lambda>c. c\<lparr>tcp_outQueue := tcp_outQueue c @ [m]\<rparr>) s)"
      using assms(1) by (simp add: wt_next_eq)
    from hold [of Testing_size s'] have "wt_locked s'" "holder_pc s' = Testing_size" by (simp_all add: s' wt_defs)
    with s h Pushing r show ?thesis
      by (intro wt_okI [of _ a]) (auto simp: s' wt_defs simulated_def tcp_handed_def)
  next
    case Testing_size
    let ?pc = "if length (tcp_outQueue (wt_conn s)) > 1 then Leaving else Launching"
    have s': "s' = go t ?pc s" using Testing_size assms(1) by (simp add: wt_next_eq)
    have q: "tcp_outQueue (wt_conn s) \<noteq> []" using l h Testing_size by (simp add: wt_locked_def)
    from hold [of ?pc s'] q have "wt_locked s'" "holder_pc s' = ?pc" by (simp_all add: s' wt_defs)
    with s h Testing_size r show ?thesis
      by (intro wt_okI [of _ a]) (auto simp: s' wt_defs simulated_def)
  next
    case Launching
    then have s': "s' = go t Leaving (on_conn (\<lambda>c. snd (TcpPeerConnection_LaunchWrite c)) s)"
      using assms(1) by (simp add: wt_next_eq)
    obtain m q where q: "tcp_outQueue (wt_conn s) = m # q"
      using l h Launching by (cases "tcp_outQueue (wt_conn s)") (simp_all add: wt_locked_def)
    from hold [of Leaving s'] have "wt_locked s'" "holder_pc s' = Leaving" by (simp_all add: s' wt_defs)
    with s h Launching r launch_sends [OF q] q show ?thesis
      by (intro wt_okI [of _ a]) (auto simp: s' wt_defs simulated_def)
  next
    case Popping
    then have s': "s' = go t Testing_empty (on_conn (\<lambda>c. c\<lparr>tcp_outQueue := tl (tcp_outQueue c)\<rparr>) s)"
      using assms(1) by (simp add: wt_next_eq)
    from hold [of Testing_empty s'] have "wt_locked s'" "holder_pc s' = Testing_empty" by (simp_all add: s' wt_defs)
    with s h Popping r show ?thesis
      by (intro wt_okI [of _ a]) (auto simp: s' wt_defs simulated_def tcp_handed_def)
  next
    case Testing_empty
    let ?pc = "if length (tcp_outQueue (wt_conn s)) = 0 then Leaving else Launching"
    have s': "s' = go t ?pc s" using Testing_empty assms(1) by (simp add: wt_next_eq)
    from hold [of ?pc s'] have "wt_locked s'" "holder_pc s' = ?pc" by (auto simp: s' wt_defs)
    with s h Testing_empty r show ?thesis
      by (intro wt_okI [of _ a]) (auto simp: s' wt_defs simulated_def)
  next
    case Leaving
    then have s': "s' = go t Outside (s\<lparr>wt_lock := None\<rparr>)" using assms(1) by (simp add: wt_next_eq)
    have "\<forall>m. (t, m) \<notin> set (wt_waiting s)" using not_waiting [OF l Leaving] by simp
    then have "wt_locked s'" using l lock by (auto simp: s' wt_defs wt_locked_def holder_pc_def)
    with s h Leaving r show ?thesis
      by (intro wt_okI [of _ a]) (auto simp: s' wt_defs simulated_def holder_pc_def)
  qed (use assms(3) in simp_all)
qed

lemma lock_statement_ok:
  assumes "wt_next t s = Some s'" and "wt_ok s" and "\<not> inside (wt_pc s t)"
  shows "wt_ok s'"
proof -
  from assms(2) obtain a where l: "wt_locked s" and r: "tcp_wq_run (wt_accepted s) (wt_sent s) a"
    and s: "simulated s a" by (auto simp: wt_ok_def)
  have free: "wt_lock s = None"
    using assms(1,3) by (auto simp: wt_next_eq lock_guard_def split: write_pc.splits if_splits)
  then have h: "holder_pc s = Outside" by (simp add: holder_pc_def)
  have out: "\<not> inside (wt_pc s u)" for u using l free by (simp add: wt_locked_def)
  show ?thesis
  proof (cases "wt_pc s t")
    case (Waiting_write m)
    then have s': "s' = go t (Pushing m) (s\<lparr>wt_lock := Some t, wt_accepted := wt_accepted s @ [m]\<rparr>)"
      using assms(1) free by (simp add: wt_next_eq lock_guard_def)
    have "\<forall>m. (t, m) \<notin> set (wt_waiting s)" using not_waiting [OF l Waiting_write] by simp
    then have "wt_locked s'" using l free out by (auto simp: s' wt_defs wt_locked_def holder_pc_def)
    moreover have "tcp_wq_run (wt_accepted s') (wt_sent s') (tcp_enqueue m a)"
      using wq_run.enq [OF r] by (simp add: s' wt_defs)
    moreover have "simulated s' (tcp_enqueue m a)"
      using s h by (simp add: s' wt_defs simulated_def holder_pc_def enqueue_sends)
    ultimately show ?thesis by (rule wt_okI)
  next
    case (Waiting_handler m)
    then have s': "s' = go t Popping (s\<lparr>wt_lock := Some t, wt_waiting := removeAll (t, m) (wt_waiting s),
        wt_sent := wt_sent s @ [m]\<rparr>)"
      using assms(1) free by (simp add: wt_next_eq lock_guard_def)
    have w: "(t, m) \<in> set (wt_waiting s)" using l Waiting_handler by (simp add: wt_locked_def)
    note one = simulated_one_in_flight [OF r s disjI2, OF w]
    obtain q where q: "tcp_outQueue a = m # q" using one(2) by blast
    have only: "wt_waiting s = [(t, m)]" "tcp_pending (wt_conn s) = []" using one(4) [OF w] by simp_all
    have "wt_pc s u \<noteq> Waiting_handler n" if "u \<noteq> t" for u n using l only(1) that by (auto simp: wt_locked_def)
    moreover have "tcp_outQueue (wt_conn s) = m # q" using s h q by (simp add: simulated_def)
    ultimately have "wt_locked s'" "simulated s' (tcp_complete (IoBufferWrapper_BoostSize m) a)"
      using l free out only s h complete_sends [OF one(1) q]
      by (auto simp: s' wt_defs wt_locked_def holder_pc_def simulated_def)
    moreover have "tcp_wq_run (wt_accepted s') (wt_sent s') (tcp_complete (IoBufferWrapper_BoostSize m) a)"
      using wq_run.full [OF r one(1)] by (simp add: s' wt_defs)
    ultimately show ?thesis by (intro wt_okI)
  qed (use assms(1,3) in \<open>simp_all add: wt_next_eq\<close>)
qed

text \<open>Calls, completions, and everything else that is done with the connection.\<close>

lemma not_holder:
  assumes "wt_locked s" and "wt_pc s t = Outside"
  shows "wt_lock s \<noteq> Some t" and "(t, m) \<notin> set (wt_waiting s)"
proof -
  have "inside (wt_pc s t) \<longleftrightarrow> wt_lock s = Some t" using assms(1) unfolding wt_locked_def by blast
  with assms(2) show "wt_lock s \<noteq> Some t" by simp
  show "(t, m) \<notin> set (wt_waiting s)" using not_waiting [OF assms] by simp
qed

lemma outside_locked:
  assumes "wt_locked s" and "wt_pc s t = Outside" and "\<not> inside pc" and "wt_pc s' = (wt_pc s)(t := pc)"
    and "wt_lock s' = wt_lock s" and "tcp_outQueue (wt_conn s') = tcp_outQueue (wt_conn s)"
    and "wt_waiting s' = wt_waiting s @ (case pc of Waiting_handler m \<Rightarrow> [(t, m)] | _ \<Rightarrow> [])"
  shows "wt_locked s'" and "holder_pc s' = holder_pc s"
proof -
  note t = not_holder [OF assms(1,2)]
  show h: "holder_pc s' = holder_pc s" using t(1) assms(4,5) by (auto simp: holder_pc_def split: option.split)
  have "inside (wt_pc s' u) \<longleftrightarrow> wt_lock s' = Some u" for u
    using assms(1,3,4,5) t(1) by (auto simp: wt_locked_def)
  moreover have "wt_pc s' u = Waiting_handler m \<longleftrightarrow> (u, m) \<in> set (wt_waiting s')" for u m
    using assms(1,4,7) t(2) [of m] by (cases pc) (auto simp: wt_locked_def)
  ultimately show "wt_locked s'" using assms(1,6) h by (simp add: wt_locked_def)
qed

lemma wt_step_ok:
  assumes "wt_step s s'" and "wt_ok s"
  shows "wt_ok s'"
  using assms(1)
proof (cases rule: wt_stepE)
  case (statement t)
  then show ?thesis using holder_statement_ok lock_statement_ok assms(2) by blast
next
  case (call t m)
  from assms(2) obtain a where l: "wt_locked s" and a: "tcp_wq_run (wt_accepted s) (wt_sent s) a" "simulated s a"
    by (auto simp: wt_ok_def)
  have "wt_locked s'" "holder_pc s' = holder_pc s"
    using outside_locked [OF l call(2), of "Waiting_write m" s'] call(1) by (simp_all add: go_def)
  with a call(1) show ?thesis by (intro wt_okI [of _ a]) (simp_all add: go_def simulated_def)
next
  case (completed t m ms n)
  from assms(2) obtain a where l: "wt_locked s" and r: "tcp_wq_run (wt_accepted s) (wt_sent s) a" and s: "simulated s a"
    by (auto simp: wt_ok_def)
  note one = simulated_one_in_flight [OF r s disjI1, OF completed(3)]
  have only: "ms = []" "wt_waiting s = []" using one(3) [OF completed(3)] by simp_all
  show ?thesis
  proof (cases "n = IoBufferWrapper_BoostSize m")
    case True
    with completed(1) only(1) have s': "s' = go t (Waiting_handler m)
        (s\<lparr>wt_conn := (wt_conn s)\<lparr>tcp_pending := []\<rparr>, wt_waiting := wt_waiting s @ [(t, m)]\<rparr>)"
      by (simp add: wt_handler_def on_conn_def)
    have "wt_locked s'" "holder_pc s' = holder_pc s"
      using outside_locked [OF l completed(2), of "Waiting_handler m" s'] by (simp_all add: s' go_def)
    with r s one(1,5) only(2) show ?thesis
      by (intro wt_okI [of _ a]) (simp_all add: s' go_def simulated_def tcp_handed_def)
  next
    case False
    with completed(1) only(1) have s': "s' = s\<lparr>wt_conn := tcp_call Close_socket ((wt_conn s)\<lparr>tcp_pending := []\<rparr>)\<rparr>"
      by (simp add: wt_handler_def on_conn_def)
    have h: "holder_pc s' = holder_pc s" by (simp add: s' holder_pc_def split: option.split)
    then have "wt_locked s'" using l by (simp add: wt_locked_def s' tcp_call_def)
    moreover have "simulated s' (tcp_complete n a)"
      using tcp_queue.complete_short [OF one(1) False] s one(5) only(2) h
      by (simp add: simulated_def s' tcp_call_def tcp_handed_def)
    moreover have "tcp_wq_run (wt_accepted s') (wt_sent s') (tcp_complete n a)"
      using wq_run.short [OF r one(1) False] by (simp add: s')
    ultimately show ?thesis by (intro wt_okI)
  qed
next
  case (other c)
  from assms(2) obtain a where l: "wt_locked s" and a: "tcp_wq_run (wt_accepted s) (wt_sent s) a" "simulated s a"
    by (auto simp: wt_ok_def)
  have h: "holder_pc s' = holder_pc s" by (simp add: other(1) holder_pc_def split: option.split)
  then have "wt_locked s'" using l other by (simp add: wt_locked_def same_sending_def)
  with a h other show ?thesis by (intro wt_okI [of _ a]) (simp_all add: simulated_def same_sending_def)
qed

lemma wt_new_ok:
  assumes "tcp_outQueue c = []" and "tcp_pending c = []" and "tcp_handed c = []"
  shows "wt_ok (wt_new c)"
proof (rule wt_okI)
  show "wt_locked (wt_new c)" by (simp add: wt_locked_def wt_new_def holder_pc_def)
  show "tcp_wq_run (wt_accepted (wt_new c)) (wt_sent (wt_new c)) c" using wq_run.start assms by (simp add: wt_new_def)
  show "simulated (wt_new c) c" by (simp add: simulated_def wt_new_def holder_pc_def)
qed

text \<open>The holder never waits: each of its statements brings it nearer to the end, and nobody else moves it.\<close>

fun pc_rank :: "write_pc \<Rightarrow> nat" where
  "pc_rank (Pushing m) = 4"
| "pc_rank Testing_size = 3"
| "pc_rank Popping = 4"
| "pc_rank Testing_empty = 3"
| "pc_rank Launching = 2"
| "pc_rank Leaving = 1"
| "pc_rank _ = 0"

lemma holder_goes_on:
  assumes "inside (wt_pc s t)"
  shows "\<exists>s'. wt_next t s = Some s' \<and> pc_rank (wt_pc s' t) < pc_rank (wt_pc s t)"
  using assms by (cases "wt_pc s t") (simp_all add: wt_next_eq wt_defs)

lemma others_leave_holder:
  assumes "wt_next u s = Some s'" and "u \<noteq> t"
  shows "wt_pc s' t = wt_pc s t"
  using assms by (auto simp: wt_next_eq wt_defs split: write_pc.splits if_splits)

section \<open>Properties\<close>

text \<open>
  C3: However many threads write to a TCP connection while its handlers run on others, statement by
  statement in any order, they do together what a run of whole functions does: at most one thread is
  inside, at most one write is outstanding or completed without its handler having gone on, what the socket was
  given is a first part of the accepted messages in the order in which the mutex was got for them, no element
  is taken from or read off an empty queue, and whenever the mutex is free the accepted messages are those
  sent and those queued.
\<close>

theorem threads_write_as_steps:
  assumes "tcp_outQueue c = []" and "tcp_pending c = []" and "tcp_handed c = []" and "wt_step\<^sup>*\<^sup>* (wt_new c) s"
  shows "(\<forall>t u. inside (wt_pc s t) \<and> inside (wt_pc s u) \<longrightarrow> t = u)
    \<and> length (tcp_pending (wt_conn s)) + length (wt_waiting s) \<le> 1
    \<and> tcp_handed (wt_conn s) = map IoBufferWrapper_ToBoost (take (length (tcp_handed (wt_conn s))) (wt_accepted s))
    \<and> (\<forall>t. wt_pc s t \<in> {Popping, Launching} \<longrightarrow> tcp_outQueue (wt_conn s) \<noteq> [])
    \<and> (wt_lock s = None \<longrightarrow> wt_accepted s = wt_sent s @ tcp_outQueue (wt_conn s))
    \<and> (\<exists>a. tcp_wq_run (wt_accepted s) (wt_sent s) a
          \<and> (wt_lock s = None \<and> wt_waiting s = [] \<longrightarrow> same_sending a (wt_conn s)))"
proof -
  have "wt_ok s"
    using assms(4) wt_new_ok [OF assms(1-3)] by (induction rule: rtranclp_induct) (auto intro: wt_step_ok)
  then obtain a where l: "wt_locked s" and r: "tcp_wq_run (wt_accepted s) (wt_sent s) a" and s: "simulated s a"
    by (auto simp: wt_ok_def)
  have inside: "\<And>t. inside (wt_pc s t) \<longleftrightarrow> wt_lock s = Some t" using l by (simp add: wt_locked_def)
  moreover have "length (tcp_pending a) \<le> 1" using tcp_queue.one_in_flight [OF r] by auto
  then have "length (tcp_pending (wt_conn s)) + length (wt_waiting s) \<le> 1" using s by (simp add: simulated_def)
  moreover have "tcp_handed (wt_conn s) =
      map IoBufferWrapper_ToBoost (take (length (tcp_handed (wt_conn s))) (wt_accepted s))"
  proof -
    let ?h = "tcp_handed (wt_conn s)"
    obtain more where "tcp_handed a = ?h @ more" using s by (auto simp: simulated_def)
    then have "?h = take (length ?h) (tcp_handed a)" by simp
    also have "\<dots> = map IoBufferWrapper_ToBoost (take (min (length ?h) (length (tcp_handed a))) (wt_accepted s))"
      using tcp_queue.handed_prefix [OF r] by (metis take_map take_take)
    finally show ?thesis using \<open>tcp_handed a = ?h @ more\<close> by (simp add: min_def split: if_splits)
  qed
  moreover have "wt_pc s t \<in> {Popping, Launching} \<Longrightarrow> tcp_outQueue (wt_conn s) \<noteq> []" for t
  proof -
    assume pc: "wt_pc s t \<in> {Popping, Launching}"
    then have "wt_lock s = Some t" using inside [of t] by auto
    then have "holder_pc s \<in> {Popping, Launching}" using pc by (simp add: holder_pc_def)
    with l show "tcp_outQueue (wt_conn s) \<noteq> []" by (auto simp: wt_locked_def)
  qed
  moreover have "wt_lock s = None \<Longrightarrow> wt_accepted s = wt_sent s @ tcp_outQueue (wt_conn s)"
    using tcp_queue.fifo [OF r] s by (simp add: simulated_def holder_pc_def)
  moreover have "wt_lock s = None \<and> wt_waiting s = [] \<Longrightarrow> same_sending a (wt_conn s)"
    using s by (simp add: simulated_def same_sending_def holder_pc_def)
  ultimately show ?thesis using r by auto
qed

text \<open>
  A write by thread 0, up to the end of its function; a second write, by thread 1, waits for the mutex; the first
  write is completed and its handler, on thread 2, waits as well.
\<close>

definition race_start :: "(end_point, nat) write_threads" where
  "race_start = wt_new (TcpPeerConnection_new Plain None)"

definition race_called :: "(end_point, nat) write_threads" where
  "race_called = go 1 (Waiting_write (ex_msg 2)) (go 0 (Waiting_write (ex_msg 1)) race_start)"

definition race_written :: "(end_point, nat) write_threads" where
  "race_written = wt_run_alone 4 0 race_called"

definition race :: "(end_point, nat) write_threads" where
  "race = wt_handler 2 (ex_msg 1) 1 (on_conn (\<lambda>c. c\<lparr>tcp_pending := []\<rparr>) race_written)"

lemmas race_eval = race_start_def race_called_def race_written_def race_def wt_new_def wt_next_eq wt_defs numeral_eq_Suc
  TcpPeerConnection_new_def

lemma wt_run_alone_steps: "wt_step\<^sup>*\<^sup>* s (wt_run_alone n t s)"
proof (induction n t s rule: wt_run_alone.induct)
  case (2 n t s)
  then show ?case
    by (cases "wt_next t s") (auto intro: converse_rtranclp_into_rtranclp wt_step.statement)
qed simp

lemma race_run: "wt_step\<^sup>*\<^sup>* race_start race"
proof -
  have "wt_step race_start (go 0 (Waiting_write (ex_msg 1)) race_start)"
    by (rule wt_step.call) (simp add: race_start_def wt_new_def)
  moreover have "wt_step (go 0 (Waiting_write (ex_msg 1)) race_start) race_called"
    unfolding race_called_def by (rule wt_step.call) (simp add: race_start_def wt_new_def go_def)
  moreover have "wt_step\<^sup>*\<^sup>* race_called race_written" unfolding race_written_def by (rule wt_run_alone_steps)
  moreover have "wt_step race_written race"
    unfolding race_def by (rule wt_step.completed) (simp_all add: race_eval tcp_eval)
  ultimately show ?thesis by (meson converse_rtranclp_into_rtranclp rtranclp.rtrancl_into_rtrancl)
qed

lemma threads_write_as_steps_witness:
  "wt_pc race 0 = Leaving \<and> wt_pc race 1 = Waiting_write (ex_msg 2) \<and> wt_pc race 2 = Waiting_handler (ex_msg 1)
   \<and> length (tcp_pending (wt_conn race)) + length (wt_waiting race) \<le> 1
   \<and> tcp_handed (wt_conn race) = map IoBufferWrapper_ToBoost (take (length (tcp_handed (wt_conn race))) (wt_accepted race))"
proof -
  have c: "tcp_outQueue (TcpPeerConnection_new Plain None :: (end_point, nat) tcp_conn) = []"
    "tcp_pending (TcpPeerConnection_new Plain None :: (end_point, nat) tcp_conn) = []"
    "tcp_handed (TcpPeerConnection_new Plain None :: (end_point, nat) tcp_conn) = []"
    by (simp_all add: TcpPeerConnection_new_def tcp_handed_def)
  show ?thesis
    using threads_write_as_steps [OF c race_run [unfolded race_start_def]]
    by (simp add: race_eval tcp_eval)
qed

end
