(* ===== verification/ServerThreads.thy ===== *)
theory ServerThreads
  imports TcpServ
begin

text \<open>
  The functions of a TCP server that lock its mutex, on several threads at once, statement by statement:
  \<open>SendMessageToAllPeers\<close>, and \<open>Stop\<close>, by \<open>CloseAllPeerConnections\<close>, which an
  application may call on any thread, \<open>OnAccept\<close> and \<open>ErrorHandler\<close>, which run as handlers, and beside them the writes of single connections. Every connection has a mutex of its own,
  which is locked inside that of the server by the writes of a broadcast and of an accept callback. In
  \<open>TcpServ\<close> each of these functions is one step. Here are: the statements and their runs, who has which
  mutex, the progress of the threads, one thread alone, and the properties.
\<close>

section \<open>State\<close>

text \<open>What is done to a connection while its mutex is held; that it can be one step is shown in \<open>WriteThreads\<close>.\<close>

datatype conn_op = Op_write "byte list" bool | Op_handler io_buffer error_code

definition conn_do :: "conn_op \<Rightarrow> end_point server_conn \<Rightarrow> end_point server_conn" where
  "conn_do a c =
     (case a of
        Op_write msg nullTerminate \<Rightarrow> snd (TcpPeerConnection_AsyncWrite_string msg nullTerminate c)
      | Op_handler m ec \<Rightarrow> snd (TcpPeerConnection_WriteHandler m ec (IoBufferWrapper_BoostSize m) c))"

text \<open>
  Where a thread is. \<open>Send_next k\<close> is the loop of a broadcast with its iterator at the position \<open>k\<close>;
  \<open>Send_lock_conn k i\<close> and \<open>Send_write k i\<close> are in the write to the connection \<open>i\<close> found there. The accept
  callback of the application is a list of writes to connections. \<open>Unlock\<close> is the end of a function that
  holds the mutex of the server, on every way out. The source computes the end of the list once for each loop
  and \<open>Send_next\<close> at every round: that it does not move is part of \<open>broadcast_sees_list\<close>.
\<close>

datatype server_pc =
    Idle
  | Send_lock "byte list" bool
  | Send_next "byte list" bool nat
  | Send_lock_conn "byte list" bool nat nat
  | Send_write "byte list" bool nat nat
  | Accept_lock nat "(nat \<times> conn_op) list"
  | Accept_push nat "(nat \<times> conn_op) list"
  | Accept_next "(nat \<times> conn_op) list"
  | Accept_lock_conn nat conn_op "(nat \<times> conn_op) list"
  | Accept_write nat conn_op "(nat \<times> conn_op) list"
  | Error_lock nat
  | Error_close nat
  | Error_remove
  | Close_lock
  | Close_next nat
  | Unlock
  | Own_lock_conn nat conn_op
  | Own_write nat conn_op

text \<open>
  The two kinds of mutexes with the thread that has them, and the threads, by their number. Two histories
  are about the broadcast that has the mutex: the list of connections when it got it, and the connections it
  has written to.
\<close>

record server_threads =
  st_server :: tcp_server
  st_mutex :: "nat option"
  st_conn_mutex :: "nat \<Rightarrow> nat option"
  st_pc :: "server_pc list"
  st_listed :: "nat list"
  st_told :: "nat list"

definition st_new :: "nat \<Rightarrow> tcp_server \<Rightarrow> server_threads" where
  "st_new n s = \<lparr>st_server = s, st_mutex = None, st_conn_mutex = (\<lambda>_. None), st_pc = replicate n Idle,
     st_listed = [], st_told = []\<rparr>"

section \<open>Statements\<close>

definition goto :: "nat \<Rightarrow> server_pc \<Rightarrow> server_threads \<Rightarrow> server_threads" where
  "goto t pc s = s\<lparr>st_pc := (st_pc s)[t := pc]\<rparr>"

definition lock_server :: "nat \<Rightarrow> server_threads \<Rightarrow> server_threads option" where
  "lock_server t s = (if st_mutex s = None then Some (s\<lparr>st_mutex := Some t\<rparr>) else None)"

definition lock_conn :: "nat \<Rightarrow> nat \<Rightarrow> server_threads \<Rightarrow> server_threads option" where
  "lock_conn t i s =
     (if st_conn_mutex s i = None then Some (s\<lparr>st_conn_mutex := (st_conn_mutex s)(i := Some t)\<rparr>) else None)"

text \<open>The operation on a connection and the end of its guard.\<close>

definition conn_do_unlock :: "nat \<Rightarrow> conn_op \<Rightarrow> server_threads \<Rightarrow> server_threads" where
  "conn_do_unlock i a s =
     s\<lparr>st_server := put_conn i (conn_do a (get_conn i (st_server s))) (st_server s),
       st_conn_mutex := (st_conn_mutex s)(i := None)\<rparr>"

definition send_statement :: "nat \<Rightarrow> server_threads \<Rightarrow> server_threads option" where
  "send_statement t s =
     (case st_pc s ! t of
        Send_lock msg nt \<Rightarrow>
          map_option (\<lambda>s. goto t (Send_next msg nt 0) (s\<lparr>st_listed := srv_connections (st_server s), st_told := []\<rparr>))
            (lock_server t s)
      | Send_next msg nt k \<Rightarrow>
          Some (goto t (if k < length (srv_connections (st_server s))
                      then Send_lock_conn msg nt k (srv_connections (st_server s) ! k) else Unlock) s)
      | Send_lock_conn msg nt k i \<Rightarrow> map_option (goto t (Send_write msg nt k i)) (lock_conn t i s)
      | Send_write msg nt k i \<Rightarrow>
          Some (goto t (Send_next msg nt (Suc k)) ((conn_do_unlock i (Op_write msg nt) s)\<lparr>st_told := st_told s @ [i]\<rparr>))
      | _ \<Rightarrow> None)"

definition accept_statement :: "nat \<Rightarrow> server_threads \<Rightarrow> server_threads option" where
  "accept_statement t s =
     (case st_pc s ! t of
        Accept_lock i cb \<Rightarrow> map_option (goto t (Accept_push i cb)) (lock_server t s)
      | Accept_push i cb \<Rightarrow>
          Some (goto t (Accept_next cb)
            (s\<lparr>st_server := (st_server s)\<lparr>srv_connections := srv_connections (st_server s) @ [i]\<rparr>\<rparr>))
      | Accept_next [] \<Rightarrow> Some (goto t Unlock s)
      | Accept_next ((i, a) # cb) \<Rightarrow> Some (goto t (Accept_lock_conn i a cb) s)
      | Accept_lock_conn i a cb \<Rightarrow> map_option (goto t (Accept_write i a cb)) (lock_conn t i s)
      | Accept_write i a cb \<Rightarrow> Some (goto t (Accept_next cb) (conn_do_unlock i a s))
      | _ \<Rightarrow> None)"

definition error_statement :: "(c_int, end_point) server_env \<Rightarrow> nat \<Rightarrow> server_threads \<Rightarrow> server_threads option" where
  "error_statement e t s =
     (case st_pc s ! t of
        Error_lock i \<Rightarrow> map_option (goto t (Error_close i)) (lock_server t s)
      | Error_close i \<Rightarrow>
          (case close_socket e i (st_server s) of
             (Inl f, srv) \<Rightarrow> Some (goto t Unlock (s\<lparr>st_server := srv\<rparr>))
           | (Inr _, srv) \<Rightarrow> Some (goto t Error_remove (s\<lparr>st_server := srv\<rparr>)))
      | Error_remove \<Rightarrow>
          Some (goto t Unlock (s\<lparr>st_server := (st_server s)\<lparr>srv_connections :=
            filter (\<lambda>j. env_is_open e (tcp_calls (get_conn j (st_server s)))) (srv_connections (st_server s))\<rparr>\<rparr>))
      | _ \<Rightarrow> None)"

definition close_statement :: "(c_int, end_point) server_env \<Rightarrow> nat \<Rightarrow> server_threads \<Rightarrow> server_threads option" where
  "close_statement e t s =
     (case st_pc s ! t of
        Close_lock \<Rightarrow> map_option (goto t (Close_next 0)) (lock_server t s)
      | Close_next k \<Rightarrow>
          if k < length (srv_connections (st_server s))
          then (case close_socket e (srv_connections (st_server s) ! k) (st_server s) of
                  (Inl f, srv) \<Rightarrow> Some (goto t Unlock (s\<lparr>st_server := srv\<rparr>))
                | (Inr _, srv) \<Rightarrow> Some (goto t (Close_next (Suc k)) (s\<lparr>st_server := srv\<rparr>)))
          else Some (goto t Unlock s)
      | _ \<Rightarrow> None)"

definition own_statement :: "nat \<Rightarrow> server_threads \<Rightarrow> server_threads option" where
  "own_statement t s =
     (case st_pc s ! t of
        Own_lock_conn i a \<Rightarrow> map_option (goto t (Own_write i a)) (lock_conn t i s)
      | Own_write i a \<Rightarrow> Some (goto t Idle (conn_do_unlock i a s))
      | Unlock \<Rightarrow> Some (goto t Idle (s\<lparr>st_mutex := None\<rparr>))
      | _ \<Rightarrow> None)"

lemmas st_statement_defs = send_statement_def accept_statement_def error_statement_def close_statement_def
  own_statement_def

text \<open>The next statement of the thread \<open>t\<close>: \<open>st_next e t s s'\<close>.\<close>

definition st_next :: "(c_int, end_point) server_env \<Rightarrow> nat \<Rightarrow> server_threads \<Rightarrow> server_threads \<Rightarrow> bool" where
  "st_next e t s s' \<longleftrightarrow> t < length (st_pc s)
     \<and> Some s' \<in> {send_statement t s, accept_statement t s, error_statement e t s,
       close_statement e t s, own_statement t s}"

definition st_run :: "(c_int, end_point) server_env \<Rightarrow> server_threads \<Rightarrow> server_threads \<Rightarrow> bool" where
  "st_run e s s' \<longleftrightarrow> (\<exists>t. st_next e t s s')"

text \<open>
  A thread that is idle may call one of the functions. What is done to connections without any of these
  mutexes, as reading, does not change the list.
\<close>

definition entry :: "server_pc \<Rightarrow> bool" where
  "entry pc \<longleftrightarrow> (case pc of Send_lock _ _ \<Rightarrow> True | Accept_lock _ _ \<Rightarrow> True | Error_lock _ \<Rightarrow> True | Close_lock \<Rightarrow> True
     | Own_lock_conn _ _ \<Rightarrow> True | _ \<Rightarrow> False)"

inductive st_step :: "(c_int, end_point) server_env \<Rightarrow> server_threads \<Rightarrow> server_threads \<Rightarrow> bool" for e where
  statement: "st_run e s s' \<Longrightarrow> st_step e s s'"
| call: "t < length (st_pc s) \<Longrightarrow> st_pc s ! t = Idle \<Longrightarrow> entry pc \<Longrightarrow> st_step e s (goto t pc s)"
| other: "srv_connections srv = srv_connections (st_server s) \<Longrightarrow> st_step e s (s\<lparr>st_server := srv\<rparr>)"

inductive_cases st_stepE [consumes 1, case_names statement call other]: "st_step e s s'"

section \<open>The mutexes\<close>

lemma st_nextE:
  assumes "st_next e t s s'"
  obtains
    (send_lock) msg nt where "st_pc s ! t = Send_lock msg nt" "st_mutex s = None"
      "s' = goto t (Send_next msg nt 0) (s\<lparr>st_mutex := Some t, st_listed := srv_connections (st_server s), st_told := []\<rparr>)"
  | (send_next) msg nt k where "st_pc s ! t = Send_next msg nt k" "k < length (srv_connections (st_server s))"
      "s' = goto t (Send_lock_conn msg nt k (srv_connections (st_server s) ! k)) s"
  | (send_end) msg nt k where "st_pc s ! t = Send_next msg nt k" "\<not> k < length (srv_connections (st_server s))"
      "s' = goto t Unlock s"
  | (send_lock_conn) msg nt k i where "st_pc s ! t = Send_lock_conn msg nt k i" "st_conn_mutex s i = None"
      "s' = goto t (Send_write msg nt k i) (s\<lparr>st_conn_mutex := (st_conn_mutex s)(i := Some t)\<rparr>)"
  | (send_write) msg nt k i where "st_pc s ! t = Send_write msg nt k i"
      "s' = goto t (Send_next msg nt (Suc k)) ((conn_do_unlock i (Op_write msg nt) s)\<lparr>st_told := st_told s @ [i]\<rparr>)"
  | (accept_lock) i cb where "st_pc s ! t = Accept_lock i cb" "st_mutex s = None"
      "s' = goto t (Accept_push i cb) (s\<lparr>st_mutex := Some t\<rparr>)"
  | (accept_push) i cb where "st_pc s ! t = Accept_push i cb"
      "s' = goto t (Accept_next cb) (s\<lparr>st_server := (st_server s)\<lparr>srv_connections := srv_connections (st_server s) @ [i]\<rparr>\<rparr>)"
  | (accept_end) "st_pc s ! t = Accept_next []" "s' = goto t Unlock s"
  | (accept_next) i a cb where "st_pc s ! t = Accept_next ((i, a) # cb)" "s' = goto t (Accept_lock_conn i a cb) s"
  | (accept_lock_conn) i a cb where "st_pc s ! t = Accept_lock_conn i a cb" "st_conn_mutex s i = None"
      "s' = goto t (Accept_write i a cb) (s\<lparr>st_conn_mutex := (st_conn_mutex s)(i := Some t)\<rparr>)"
  | (accept_write) i a cb where "st_pc s ! t = Accept_write i a cb" "s' = goto t (Accept_next cb) (conn_do_unlock i a s)"
  | (error_lock) i where "st_pc s ! t = Error_lock i" "st_mutex s = None"
      "s' = goto t (Error_close i) (s\<lparr>st_mutex := Some t\<rparr>)"
  | (error_close) i srv pc where "st_pc s ! t = Error_close i" "pc \<in> {Unlock, Error_remove}"
      "srv_connections srv = srv_connections (st_server s)" "s' = goto t pc (s\<lparr>st_server := srv\<rparr>)"
  | (error_remove) P where "st_pc s ! t = Error_remove"
      "s' = goto t Unlock (s\<lparr>st_server := (st_server s)\<lparr>srv_connections := filter P (srv_connections (st_server s))\<rparr>\<rparr>)"
  | (close_lock) "st_pc s ! t = Close_lock" "st_mutex s = None"
      "s' = goto t (Close_next 0) (s\<lparr>st_mutex := Some t\<rparr>)"
  | (close_next) k srv where "st_pc s ! t = Close_next k" "k < length (srv_connections (st_server s))"
      "srv_connections srv = srv_connections (st_server s)" "s' = goto t (Close_next (Suc k)) (s\<lparr>st_server := srv\<rparr>)"
  | (close_end) k where "st_pc s ! t = Close_next k" "s' = goto t Unlock s"
  | (unlock) "st_pc s ! t = Unlock" "s' = goto t Idle (s\<lparr>st_mutex := None\<rparr>)"
  | (own_lock) i a where "st_pc s ! t = Own_lock_conn i a" "st_conn_mutex s i = None"
      "s' = goto t (Own_write i a) (s\<lparr>st_conn_mutex := (st_conn_mutex s)(i := Some t)\<rparr>)"
  | (own_write) i a where "st_pc s ! t = Own_write i a" "s' = goto t Idle (conn_do_unlock i a s)"
proof (cases "st_pc s ! t")
  case (Accept_next cb)
  with assms that show thesis
    by (cases cb) (auto simp: st_next_def st_statement_defs)
next
  case (Error_close i)
  show thesis
  proof (cases "env_close_throws e (tcp_calls (get_conn i (st_server s)))")
    case None
    show thesis
      by (rule that(13) [OF Error_close, where pc = Error_remove
            and srv = "put_conn i (tcp_call Close_socket (get_conn i (st_server s))) (st_server s)"])
         (use assms None Error_close in \<open>auto simp: st_next_def st_statement_defs close_socket_def put_conn_def\<close>)
  next
    case (Some f)
    show thesis
      by (rule that(13) [OF Error_close, where pc = Unlock and srv = "st_server s"])
         (use assms Some Error_close in \<open>auto simp: st_next_def st_statement_defs close_socket_def\<close>)
  qed
next
  case (Close_next k)
  let ?i = "srv_connections (st_server s) ! k"
  show thesis
  proof (cases "k < length (srv_connections (st_server s)) \<and> env_close_throws e (tcp_calls (get_conn ?i (st_server s))) = None")
    case True
    show thesis
      by (rule that(16) [OF Close_next, where srv = "put_conn ?i (tcp_call Close_socket (get_conn ?i (st_server s))) (st_server s)"])
         (use assms True Close_next in \<open>auto simp: st_next_def st_statement_defs close_socket_def put_conn_def\<close>)
  next
    case False
    show thesis
      by (rule that(17) [OF Close_next])
         (use assms False Close_next in
           \<open>auto simp: st_next_def st_statement_defs close_socket_def goto_def split: if_splits option.splits\<close>)
  qed
next
  case Error_remove
  with assms that(14) show thesis by (auto simp: st_next_def st_statement_defs)
qed (use assms in \<open>auto simp: st_next_def st_statement_defs lock_server_def lock_conn_def split: if_splits intro: that\<close>)


lemma conn_do_unlock_simps [simp]:
  "srv_connections (st_server (conn_do_unlock i a s)) = srv_connections (st_server s)"
  "st_mutex (conn_do_unlock i a s) = st_mutex s"
  "st_conn_mutex (conn_do_unlock i a s) = (st_conn_mutex s)(i := None)"
  "st_pc (conn_do_unlock i a s) = st_pc s"
  "st_listed (conn_do_unlock i a s) = st_listed s"
  "st_told (conn_do_unlock i a s) = st_told s"
  by (simp_all add: conn_do_unlock_def put_conn_def)

lemma goto_simps [simp]:
  "st_server (goto t pc s) = st_server s" "st_mutex (goto t pc s) = st_mutex s"
  "st_conn_mutex (goto t pc s) = st_conn_mutex s" "st_pc (goto t pc s) = (st_pc s)[t := pc]"
  "st_listed (goto t pc s) = st_listed s" "st_told (goto t pc s) = st_told s"
  by (simp_all add: goto_def)

text \<open>The mutexes a thread has at each place.\<close>

fun holds_server :: "server_pc \<Rightarrow> bool" where
  "holds_server (Send_next _ _ _) = True"
| "holds_server (Send_lock_conn _ _ _ _) = True"
| "holds_server (Send_write _ _ _ _) = True"
| "holds_server (Accept_push _ _) = True"
| "holds_server (Accept_next _) = True"
| "holds_server (Accept_lock_conn _ _ _) = True"
| "holds_server (Accept_write _ _ _) = True"
| "holds_server (Error_close _) = True"
| "holds_server Error_remove = True"
| "holds_server (Close_next _) = True"
| "holds_server Unlock = True"
| "holds_server _ = False"

fun holds_conn :: "server_pc \<Rightarrow> nat option" where
  "holds_conn (Send_write _ _ _ i) = Some i"
| "holds_conn (Accept_write i _ _) = Some i"
| "holds_conn (Own_write i _) = Some i"
| "holds_conn _ = None"

text \<open>Where the iterator of a broadcast is, and what the broadcast has done.\<close>

definition loop_at :: "server_threads \<Rightarrow> nat \<Rightarrow> bool" where
  "loop_at s k \<longleftrightarrow> srv_connections (st_server s) = st_listed s \<and> k \<le> length (st_listed s)
     \<and> st_told s = take k (st_listed s)"

fun broadcast_ok :: "server_threads \<Rightarrow> server_pc \<Rightarrow> bool" where
  "broadcast_ok s (Send_next _ _ k) = loop_at s k"
| "broadcast_ok s (Send_lock_conn _ _ k i) = (loop_at s k \<and> k < length (st_listed s) \<and> i = st_listed s ! k)"
| "broadcast_ok s (Send_write _ _ k i) = (loop_at s k \<and> k < length (st_listed s) \<and> i = st_listed s ! k)"
| "broadcast_ok s _ = True"

definition pc_of :: "server_threads \<Rightarrow> nat \<Rightarrow> server_pc" where
  "pc_of s t = (if t < length (st_pc s) then st_pc s ! t else Idle)"

definition st_ok :: "server_threads \<Rightarrow> bool" where
  "st_ok s \<longleftrightarrow> (\<forall>t. st_mutex s = Some t \<longleftrightarrow> holds_server (pc_of s t))
     \<and> (\<forall>i t. st_conn_mutex s i = Some t \<longleftrightarrow> holds_conn (pc_of s t) = Some i)
     \<and> (\<forall>t. broadcast_ok s (pc_of s t))"

lemma broadcast_needs_server: "\<not> holds_server pc \<Longrightarrow> broadcast_ok s pc"
  by (cases pc) auto

lemma st_ok_new: "st_ok (st_new n srv)"
  by (simp add: st_ok_def st_new_def pc_of_def)

text \<open>
  A statement of the thread \<open>t\<close> keeps the invariant when it does to each mutex what it does to its place,
  and leaves the list and the histories to a thread that has the mutex of the server.
\<close>

lemma st_ok_thread:
  assumes ok: "st_ok s" and t: "t < length (st_pc s)" and pc: "st_pc s' = (st_pc s)[t := pc]"
    and mutex: "st_mutex s' = (if holds_server pc then Some t else if holds_server (st_pc s ! t) then None else st_mutex s)"
    and free: "holds_server (st_pc s ! t) \<or> holds_server pc \<longrightarrow> st_mutex s = None \<or> st_mutex s = Some t"
    and conn: "\<And>i. st_conn_mutex s' i = (if holds_conn pc = Some i then Some t
        else if holds_conn (st_pc s ! t) = Some i then None else st_conn_mutex s i)"
    and conn_free: "\<And>i. holds_conn pc = Some i \<Longrightarrow> st_conn_mutex s i = None"
    and frame: "holds_server (st_pc s ! t) \<or> holds_server pc
        \<or> (srv_connections (st_server s') = srv_connections (st_server s) \<and> st_listed s' = st_listed s \<and> st_told s' = st_told s)"
    and mine: "broadcast_ok s' pc"
  shows "st_ok s'"
proof -
  have pc_of': "pc_of s' u = (if u = t then pc else pc_of s u)" for u
    using t by (simp add: pc_of_def pc)
  have old: "pc_of s t = st_pc s ! t"
    using t by (simp add: pc_of_def)
  from ok have m: "st_mutex s = Some u \<longleftrightarrow> holds_server (pc_of s u)"
    and c: "st_conn_mutex s i = Some u \<longleftrightarrow> holds_conn (pc_of s u) = Some i"
    and b: "broadcast_ok s (pc_of s u)" for u i
    unfolding st_ok_def by blast+
  have "st_mutex s' = Some u \<longleftrightarrow> holds_server (pc_of s' u)" for u
    using m [of u] m [of t] mutex free by (auto simp: pc_of' old split: if_splits)
  moreover have "st_conn_mutex s' i = Some u \<longleftrightarrow> holds_conn (pc_of s' u) = Some i" for u i
    using c [of i u] c [of i t] conn [of i] conn_free [of i] by (auto simp: pc_of' old split: if_splits)
  moreover have "broadcast_ok s' (pc_of s' u)" for u
  proof (cases "u = t \<or> \<not> holds_server (pc_of s u)")
    case True
    then show ?thesis using mine broadcast_needs_server by (auto simp: pc_of')
  next
    case False
    with m [of u] free have "\<not> (holds_server (st_pc s ! t) \<or> holds_server pc)" by auto
    with frame False b [of u] show ?thesis
      by (cases "pc_of s u") (auto simp: pc_of' loop_at_def)
  qed
  ultimately show ?thesis unfolding st_ok_def by blast
qed

lemma st_ok_next:
  assumes ok: "st_ok s" and "st_next e t s s'"
  shows "st_ok s'"
proof -
  from assms(2) have t: "t < length (st_pc s)" by (simp add: st_next_def)
  have old: "pc_of s t = st_pc s ! t" using t by (simp add: pc_of_def)
  from ok have m: "st_mutex s = Some u \<longleftrightarrow> holds_server (pc_of s u)"
    and c: "st_conn_mutex s i = Some u \<longleftrightarrow> holds_conn (pc_of s u) = Some i"
    and b: "broadcast_ok s (pc_of s u)" for u i
    unfolding st_ok_def by blast+
  note now = m [of t, unfolded old] b [of t, unfolded old] c [where u = t, unfolded old]
  note go = st_ok_thread [OF ok t]
  from assms(2) show ?thesis
  proof (cases rule: st_nextE)
    case (send_lock msg nt)
    show ?thesis by (rule go [where pc = "Send_next msg nt 0"])
      (use send_lock now in \<open>auto simp: loop_at_def split: if_splits\<close>)
  next
    case (send_next msg nt k)
    show ?thesis by (rule go [where pc = "Send_lock_conn msg nt k (srv_connections (st_server s) ! k)"])
      (use send_next now in \<open>auto simp: loop_at_def split: if_splits\<close>)
  next
    case (send_end msg nt k)
    show ?thesis by (rule go [where pc = "Unlock"])
      (use send_end now in \<open>auto simp: loop_at_def split: if_splits\<close>)
  next
    case (send_lock_conn msg nt k i)
    show ?thesis by (rule go [where pc = "Send_write msg nt k i"])
      (use send_lock_conn now in \<open>auto simp: loop_at_def split: if_splits\<close>)
  next
    case (send_write msg nt k i)
    show ?thesis by (rule go [where pc = "Send_next msg nt (Suc k)"])
      (use send_write now in \<open>auto simp: loop_at_def take_Suc_conv_app_nth split: if_splits\<close>)
  next
    case (accept_lock i cb)
    show ?thesis by (rule go [where pc = "Accept_push i cb"])
      (use accept_lock now in \<open>auto simp: loop_at_def split: if_splits\<close>)
  next
    case (accept_push i cb)
    show ?thesis by (rule go [where pc = "Accept_next cb"])
      (use accept_push now in \<open>auto simp: loop_at_def split: if_splits\<close>)
  next
    case accept_end
    show ?thesis by (rule go [where pc = "Unlock"])
      (use accept_end now in \<open>auto simp: loop_at_def split: if_splits\<close>)
  next
    case (accept_next i a cb)
    show ?thesis by (rule go [where pc = "Accept_lock_conn i a cb"])
      (use accept_next now in \<open>auto simp: loop_at_def split: if_splits\<close>)
  next
    case (accept_lock_conn i a cb)
    show ?thesis by (rule go [where pc = "Accept_write i a cb"])
      (use accept_lock_conn now in \<open>auto simp: loop_at_def split: if_splits\<close>)
  next
    case (accept_write i a cb)
    show ?thesis by (rule go [where pc = "Accept_next cb"])
      (use accept_write now in \<open>auto simp: loop_at_def split: if_splits\<close>)
  next
    case (error_lock i)
    show ?thesis by (rule go [where pc = "Error_close i"])
      (use error_lock now in \<open>auto simp: loop_at_def split: if_splits\<close>)
  next
    case (error_close i srv pc)
    show ?thesis by (rule go [where pc = "pc"])
      (use error_close now in \<open>auto simp: loop_at_def split: if_splits\<close>)
  next
    case (error_remove P)
    show ?thesis by (rule go [where pc = "Unlock"])
      (use error_remove now in \<open>auto simp: loop_at_def split: if_splits\<close>)
  next
    case close_lock
    show ?thesis by (rule go [where pc = "Close_next 0"])
      (use close_lock now in \<open>auto simp: loop_at_def split: if_splits\<close>)
  next
    case (close_next k srv)
    show ?thesis by (rule go [where pc = "Close_next (Suc k)"])
      (use close_next now in \<open>auto simp: loop_at_def split: if_splits\<close>)
  next
    case (close_end k)
    show ?thesis by (rule go [where pc = "Unlock"])
      (use close_end now in \<open>auto simp: loop_at_def split: if_splits\<close>)
  next
    case unlock
    show ?thesis by (rule go [where pc = "Idle"])
      (use unlock now in \<open>auto simp: loop_at_def split: if_splits\<close>)
  next
    case (own_lock i a)
    show ?thesis by (rule go [where pc = "Own_write i a"])
      (use own_lock now in \<open>auto simp: loop_at_def split: if_splits\<close>)
  next
    case (own_write i a)
    show ?thesis by (rule go [where pc = "Idle"])
      (use own_write now in \<open>auto simp: loop_at_def split: if_splits\<close>)
  qed
qed

lemma st_ok_step: "st_step e s s' \<Longrightarrow> st_ok s \<Longrightarrow> st_ok s'"
proof (erule st_stepE)
  assume "st_run e s s'" and "st_ok s"
  then show "st_ok s'" by (auto simp: st_run_def intro: st_ok_next)
next
  fix t pc
  assume *: "s' = goto t pc s" "t < length (st_pc s)" "st_pc s ! t = Idle" "entry pc" and ok: "st_ok s"
  then have "\<not> holds_server pc" "holds_conn pc = None" "broadcast_ok s' pc"
    by (auto simp: entry_def split: server_pc.splits)
  then show "st_ok s'"
    by (intro st_ok_thread [OF ok *(2), of s' pc]) (use * in auto)
next
  fix srv
  assume *: "s' = s\<lparr>st_server := srv\<rparr>" "srv_connections srv = srv_connections (st_server s)" and "st_ok s"
  moreover have "broadcast_ok s' pc = broadcast_ok s pc" for pc
    using * by (cases pc) (simp_all add: loop_at_def)
  moreover have "pc_of s' = pc_of s" using * by (simp add: pc_of_def fun_eq_iff)
  ultimately show "st_ok s'" by (simp add: st_ok_def)
qed

lemma st_ok_reachable: "(st_step e)\<^sup>*\<^sup>* (st_new n srv) s \<Longrightarrow> st_ok s"
  by (induction rule: rtranclp_induct) (auto intro: st_ok_new st_ok_step)

text \<open>Two threads are never both between a lock and its release.\<close>

lemma one_holds_server:
  "st_ok s \<Longrightarrow> holds_server (pc_of s t) \<Longrightarrow> holds_server (pc_of s u) \<Longrightarrow> t = u"
  unfolding st_ok_def by (metis option.inject)

section \<open>Progress\<close>

lemma enabled:
  assumes "t < length (st_pc s)" "st_pc s ! t \<noteq> Idle"
    and "holds_server (st_pc s ! t) \<or> st_mutex s = None"
    and "holds_conn (st_pc s ! t) = None \<Longrightarrow> \<forall>i. st_conn_mutex s i = None"
  shows "\<exists>s'. st_run e s s'"
proof -
  have "\<exists>s'. Some s' \<in> {send_statement t s, accept_statement t s, error_statement e t s,
       close_statement e t s, own_statement t s}"
  proof (cases "st_pc s ! t")
    case (Accept_next cb)
    then show ?thesis by (cases cb) (auto simp: st_statement_defs)
  next
    case (Error_close i)
    then show ?thesis by (auto simp: st_statement_defs split: sum.split prod.split)
  next
    case (Close_next k)
    then show ?thesis by (auto simp: st_statement_defs split: sum.split prod.split)
  qed (use assms in \<open>auto simp: st_statement_defs lock_server_def lock_conn_def\<close>)
  with assms(1) show ?thesis by (auto simp: st_run_def st_next_def)
qed

text \<open>
  Who can go on: a thread with the mutex of a connection, else the one with that of the server, else any. The
  mutexes are locked in one order, that of the server first.
\<close>

lemma no_deadlock:
  assumes ok: "st_ok s" and busy: "pc_of s u \<noteq> Idle"
  shows "\<exists>s'. st_run e s s'"
proof -
  have busyI: "t < length (st_pc s)" "pc_of s t = st_pc s ! t" if "pc_of s t \<noteq> Idle" for t
    using that by (auto simp: pc_of_def split: if_splits)
  from ok have m: "st_mutex s = Some t \<longleftrightarrow> holds_server (pc_of s t)"
    and c: "st_conn_mutex s i = Some t \<longleftrightarrow> holds_conn (pc_of s t) = Some i" for t i
    unfolding st_ok_def by blast+
  consider (conn) i t where "st_conn_mutex s i = Some t" | (server) t where "\<forall>i. st_conn_mutex s i = None" "st_mutex s = Some t"
    | (free) "\<forall>i. st_conn_mutex s i = None" "st_mutex s = None"
    by (meson not_None_eq)
  then show ?thesis
  proof cases
    case conn
    with c have "holds_conn (pc_of s t) = Some i" by simp
    then have "pc_of s t \<noteq> Idle" by auto
    from busyI [OF this] \<open>holds_conn (pc_of s t) = Some i\<close> show ?thesis
      by (cases "st_pc s ! t") (auto simp: st_run_def st_next_def st_statement_defs intro!: exI [of _ t])
  next
    case server
    with m [of t] have "holds_server (pc_of s t)" by blast
    then have "pc_of s t \<noteq> Idle" by auto
    from busyI [OF this] \<open>holds_server (pc_of s t)\<close> server show ?thesis
      by (intro enabled [of t]) auto
  next
    case free
    with busyI [OF busy] busy show ?thesis by (intro enabled [of u]) auto
  qed
qed

text \<open>
  The statements that are left of a function, with at most \<open>L\<close> connections in the list: three for each
  connection of a broadcast and for each write of a callback, one for each connection that is closed.
\<close>

fun rank :: "nat \<Rightarrow> server_pc \<Rightarrow> nat" where
  "rank L Idle = 0"
| "rank L Unlock = 1"
| "rank L (Send_lock _ _) = 3 * L + 3"
| "rank L (Send_next _ _ k) = 3 * (L - k) + 2"
| "rank L (Send_lock_conn _ _ k _) = 3 * (L - k) + 1"
| "rank L (Send_write _ _ k _) = 3 * (L - k)"
| "rank L (Accept_lock _ cb) = 3 * length cb + 4"
| "rank L (Accept_push _ cb) = 3 * length cb + 3"
| "rank L (Accept_next cb) = 3 * length cb + 2"
| "rank L (Accept_lock_conn _ _ cb) = 3 * length cb + 4"
| "rank L (Accept_write _ _ cb) = 3 * length cb + 3"
| "rank L (Error_lock _) = 4"
| "rank L (Error_close _) = 3"
| "rank L Error_remove = 2"
| "rank L Close_lock = L + 3"
| "rank L (Close_next k) = (L - k) + 2"
| "rank L (Own_lock_conn _ _) = 2"
| "rank L (Own_write _ _) = 1"

text \<open>An accept that has not added its connection yet.\<close>

fun adds :: "server_pc \<Rightarrow> nat" where
  "adds (Accept_lock _ _) = 1"
| "adds (Accept_push _ _) = 1"
| "adds _ = 0"

definition most :: "server_threads \<Rightarrow> nat" where
  "most s = length (srv_connections (st_server s)) + sum_list (map adds (st_pc s))"

definition st_work :: "server_threads \<Rightarrow> nat" where
  "st_work s = sum_list (map (rank (most s)) (st_pc s))"

lemma rank_mono: "L \<le> L' \<Longrightarrow> rank L pc \<le> rank L' pc"
  by (cases pc) auto

lemma sum_list_update_nat:
  "t < length xs \<Longrightarrow> sum_list (map f (xs[t := y])) + f (xs ! t) = sum_list (map f xs) + (f y :: nat)"
proof (induction xs arbitrary: t)
  case (Cons x xs)
  then show ?case by (cases t) auto
qed simp

lemma st_work_less:
  assumes t: "t < length (st_pc s)" and pc: "st_pc s' = (st_pc s)[t := pc]"
    and list: "length (srv_connections (st_server s')) + adds pc \<le> length (srv_connections (st_server s)) + adds (st_pc s ! t)"
    and less: "rank (most s) pc < rank (most s) (st_pc s ! t)"
  shows "st_work s' < st_work s"
proof -
  have "most s' \<le> most s"
    using sum_list_update_nat [OF t, of adds pc] list by (simp add: most_def pc)
  then have "st_work s' \<le> sum_list (map (rank (most s)) (st_pc s'))"
    unfolding st_work_def by (intro sum_list_mono rank_mono)
  also have "\<dots> < st_work s"
    using sum_list_update_nat [OF t, of "rank (most s)" pc] less by (simp add: st_work_def pc)
  finally show ?thesis .
qed

lemma next_less:
  assumes ok: "st_ok s" and "st_next e t s s'"
  shows "st_work s' < st_work s"
proof -
  from assms(2) have t: "t < length (st_pc s)" by (simp add: st_next_def)
  with ok have b: "broadcast_ok s (st_pc s ! t)"
    by (metis st_ok_def pc_of_def)
  have "length (srv_connections (st_server s)) \<le> most s" by (simp add: most_def)
  note now = b this
  from assms(2) show ?thesis
  proof (cases rule: st_nextE)
    case (error_remove P)
    then show ?thesis by (intro st_work_less [OF t]) auto
  next
    case (error_close i srv pc)
    then show ?thesis by (intro st_work_less [OF t, of s' pc]) auto
  next
    case (close_next k srv)
    with now show ?thesis by (intro st_work_less [OF t, of s' "Close_next (Suc k)"]) auto
  qed (intro st_work_less [OF t], use now in \<open>auto simp: loop_at_def\<close>)+
qed

lemma run_bound: "(st_run e ^^ m) s s' \<Longrightarrow> st_ok s \<Longrightarrow> st_ok s' \<and> m + st_work s' \<le> st_work s"
proof (induction m arbitrary: s')
  case (Suc m)
  then obtain r where r: "(st_run e ^^ m) s r" "st_run e r s'" by auto
  with Suc have "st_ok r" "m + st_work r \<le> st_work s" by auto
  moreover from r(2) obtain t where "st_next e t r s'" by (auto simp: st_run_def)
  ultimately show ?case using next_less [of r e t s'] st_ok_next [of r e t s'] by auto
qed simp

section \<open>One thread alone\<close>

text \<open>
  The statements of a thread that runs alone do what the whole function does in \<open>TcpServ\<close>. A loop from its
  position \<open>k\<close> on does what \<open>for_each\<close> does on the rest of the list.
\<close>

definition write_to :: "byte list \<Rightarrow> bool \<Rightarrow> nat \<Rightarrow> tcp_server \<Rightarrow> (unit, tcp_server) outcome" where
  "write_to msg nt i srv =
     and_then (on_host (get_conn i) (put_conn i) (TcpPeerConnection_AsyncWrite_string msg nt) srv) (\<lambda>_ srv. (Inr (), srv))"

lemma write_to_conn: "write_to msg nt i srv = (Inr (), put_conn i (conn_do (Op_write msg nt) (get_conn i srv)) srv)"
  by (simp add: write_to_def async_write_conn conn_do_def on_host_def and_then_def tcp_defs get_conn_def Let_def
      split: list.split prod.split sum.split)

lemma list_kept:
  "srv_connections (snd (write_to msg nt i srv)) = srv_connections srv"
  "srv_connections (snd (close_socket e i srv)) = srv_connections srv"
  by (simp_all add: write_to_conn put_conn_def close_socket_def split: option.split)

lemma for_each_unlocked:
  assumes "\<And>i b (srv :: tcp_server). f i (srv\<lparr>srv_locked := b\<rparr>) = (fst (f i srv), (snd (f i srv))\<lparr>srv_locked := b\<rparr>)"
  shows "for_each f is (srv\<lparr>srv_locked := b\<rparr>) = (fst (for_each f is srv), (snd (for_each f is srv))\<lparr>srv_locked := b\<rparr>)"
proof (induction "is" arbitrary: srv)
  case (Cons i "is")
  then show ?case
    using assms [of i b srv] by (cases "f i srv") (auto simp: and_then_def split: sum.split)
qed simp

lemma locked_kept:
  "write_to msg nt i (srv\<lparr>srv_locked := b\<rparr>) = (fst (write_to msg nt i srv), (snd (write_to msg nt i srv))\<lparr>srv_locked := b\<rparr>)"
  "close_socket e i (srv\<lparr>srv_locked := b\<rparr>) = (fst (close_socket e i srv), (snd (close_socket e i srv))\<lparr>srv_locked := b\<rparr>)"
  by (simp_all add: write_to_conn put_conn_def get_conn_def close_socket_def split: option.split)

lemma solo_send_loop:
  assumes "t < length (st_pc s)" and "st_pc s ! t = Send_next msg nt k" and "st_conn_mutex s = (\<lambda>_. None)"
  shows "\<exists>s'. (st_next e t)\<^sup>*\<^sup>* s s' \<and> st_pc s' = (st_pc s)[t := Unlock] \<and> st_mutex s' = st_mutex s
    \<and> st_conn_mutex s' = (\<lambda>_. None)
    \<and> st_server s' = snd (for_each (write_to msg nt) (drop k (srv_connections (st_server s))) (st_server s))"
  using assms
proof (induction "length (srv_connections (st_server s)) - k" arbitrary: s k)
  case 0
  then have "st_next e t s (goto t Unlock s)" by (simp add: st_next_def send_statement_def)
  with 0 show ?case by (intro exI [of _ "goto t Unlock s"]) auto
next
  case (Suc n)
  let ?is = "srv_connections (st_server s)"
  let ?i = "?is ! k"
  let ?s1 = "goto t (Send_lock_conn msg nt k ?i) s"
  let ?s2 = "goto t (Send_write msg nt k ?i) (?s1\<lparr>st_conn_mutex := (st_conn_mutex ?s1)(?i := Some t)\<rparr>)"
  let ?s3 = "goto t (Send_next msg nt (Suc k)) ((conn_do_unlock ?i (Op_write msg nt) ?s2)\<lparr>st_told := st_told ?s2 @ [?i]\<rparr>)"
  from Suc.hyps(2) have k: "k < length ?is" by simp
  have "st_next e t s ?s1" "st_next e t ?s1 ?s2" "st_next e t ?s2 ?s3"
    using Suc.prems k by (simp_all add: st_next_def send_statement_def lock_conn_def)
  then have run: "(st_next e t)\<^sup>*\<^sup>* s ?s3"
    by (meson converse_rtranclp_into_rtranclp r_into_rtranclp)
  have srv: "st_server ?s3 = snd (write_to msg nt ?i (st_server s))" by (simp add: conn_do_unlock_def write_to_conn)
  have "\<exists>s'. (st_next e t)\<^sup>*\<^sup>* ?s3 s' \<and> st_pc s' = (st_pc ?s3)[t := Unlock] \<and> st_mutex s' = st_mutex ?s3
    \<and> st_conn_mutex s' = (\<lambda>_. None)
    \<and> st_server s' = snd (for_each (write_to msg nt) (drop (Suc k) (srv_connections (st_server ?s3))) (st_server ?s3))"
    by (rule Suc.hyps(1)) (use Suc.prems Suc.hyps(2) in \<open>auto simp: fun_upd_def\<close>)
  then obtain s' where s': "(st_next e t)\<^sup>*\<^sup>* ?s3 s'" "st_pc s' = (st_pc ?s3)[t := Unlock]" "st_mutex s' = st_mutex ?s3"
    "st_conn_mutex s' = (\<lambda>_. None)"
    "st_server s' = snd (for_each (write_to msg nt) (drop (Suc k) (srv_connections (st_server ?s3))) (st_server ?s3))"
    by blast
  have "for_each (write_to msg nt) (drop k ?is) (st_server s) =
      for_each (write_to msg nt) (drop (Suc k) ?is) (snd (write_to msg nt ?i (st_server s)))"
    using k by (simp add: Cons_nth_drop_Suc [symmetric] write_to_conn)
  with s'(2-5) srv rtranclp_trans [OF run s'(1)] show ?case
    by (intro exI [of _ s']) (simp add: list_kept)
qed

lemma solo_close_loop:
  assumes "t < length (st_pc s)" and "st_pc s ! t = Close_next k"
  shows "\<exists>s'. (st_next e t)\<^sup>*\<^sup>* s s' \<and> st_pc s' = (st_pc s)[t := Unlock] \<and> st_mutex s' = st_mutex s
    \<and> st_conn_mutex s' = st_conn_mutex s
    \<and> st_server s' = snd (for_each (close_socket e) (drop k (srv_connections (st_server s))) (st_server s))"
  using assms
proof (induction "length (srv_connections (st_server s)) - k" arbitrary: s k)
  case 0
  then have "st_next e t s (goto t Unlock s)" by (simp add: st_next_def close_statement_def)
  with 0 show ?case by (intro exI [of _ "goto t Unlock s"]) auto
next
  case (Suc n)
  let ?is = "srv_connections (st_server s)"
  let ?i = "?is ! k"
  from Suc.hyps(2) have k: "k < length ?is" by simp
  obtain r srv where c: "close_socket e ?i (st_server s) = (r, srv)" by fastforce
  then have listed: "srv_connections srv = ?is" by (metis list_kept(2) snd_conv)
  have each: "for_each (close_socket e) (drop k ?is) (st_server s) =
      and_then (r, srv) (\<lambda>_. for_each (close_socket e) (drop (Suc k) ?is))"
    using k c by (simp add: Cons_nth_drop_Suc [symmetric])
  show ?case
  proof (cases r)
    case (Inl f)
    then have "st_next e t s (goto t Unlock (s\<lparr>st_server := srv\<rparr>))"
      using Suc.prems k c by (simp add: st_next_def close_statement_def)
    with each Inl show ?thesis by (intro exI [of _ "goto t Unlock (s\<lparr>st_server := srv\<rparr>)"]) auto
  next
    case (Inr u)
    let ?s1 = "goto t (Close_next (Suc k)) (s\<lparr>st_server := srv\<rparr>)"
    have run: "st_next e t s ?s1"
      using Suc.prems k c Inr by (simp add: st_next_def close_statement_def)
    have "\<exists>s'. (st_next e t)\<^sup>*\<^sup>* ?s1 s' \<and> st_pc s' = (st_pc ?s1)[t := Unlock] \<and> st_mutex s' = st_mutex ?s1
      \<and> st_conn_mutex s' = st_conn_mutex ?s1
      \<and> st_server s' = snd (for_each (close_socket e) (drop (Suc k) (srv_connections (st_server ?s1))) (st_server ?s1))"
      by (rule Suc.hyps(1)) (use Suc.prems Suc.hyps(2) listed in auto)
    then obtain s' where s': "(st_next e t)\<^sup>*\<^sup>* ?s1 s'" "st_pc s' = (st_pc ?s1)[t := Unlock]" "st_mutex s' = st_mutex ?s1"
      "st_conn_mutex s' = st_conn_mutex ?s1"
      "st_server s' = snd (for_each (close_socket e) (drop (Suc k) (srv_connections (st_server ?s1))) (st_server ?s1))"
      by blast
    with each Inr listed converse_rtranclp_into_rtranclp [OF run s'(1)] show ?thesis
      by (intro exI [of _ s']) simp
  qed
qed

text \<open>The lock before and the unlock after a part that ends at \<open>Unlock\<close>.\<close>

definition quiet :: "nat \<Rightarrow> server_threads \<Rightarrow> bool" where
  "quiet t s \<longleftrightarrow> t < length (st_pc s) \<and> st_mutex s = None \<and> st_conn_mutex s = (\<lambda>_. None) \<and> \<not> srv_locked (st_server s)"

definition done_alone :: "(c_int, end_point) server_env \<Rightarrow> nat \<Rightarrow> server_pc \<Rightarrow> server_threads \<Rightarrow> tcp_server \<Rightarrow> bool" where
  "done_alone e t pc s srv \<longleftrightarrow> (\<exists>s'. (st_next e t)\<^sup>*\<^sup>* (goto t pc s) s' \<and> st_pc s' = (st_pc s)[t := Idle]
     \<and> st_mutex s' = None \<and> st_conn_mutex s' = (\<lambda>_. None) \<and> st_server s' = srv)"

lemma done_aloneI:
  assumes "quiet t s" and "st_next e t (goto t pc s) s1" and "(st_next e t)\<^sup>*\<^sup>* s1 s2"
    and "st_pc s2 = (st_pc s)[t := Unlock]" and "st_conn_mutex s2 = (\<lambda>_. None)" and "st_server s2 = srv"
  shows "done_alone e t pc s srv"
proof -
  have "st_next e t s2 (goto t Idle (s2\<lparr>st_mutex := None\<rparr>))"
    using assms(1,4) by (simp add: st_next_def own_statement_def quiet_def)
  with assms(2,3) have "(st_next e t)\<^sup>*\<^sup>* (goto t pc s) (goto t Idle (s2\<lparr>st_mutex := None\<rparr>))"
    by (meson converse_rtranclp_into_rtranclp rtranclp.rtrancl_into_rtrancl)
  with assms(4-6) show ?thesis
    unfolding done_alone_def by (intro exI [of _ "goto t Idle (s2\<lparr>st_mutex := None\<rparr>)"]) simp
qed

lemma with_mutex_alone:
  assumes "\<not> srv_locked srv" and "f (srv\<lparr>srv_locked := True\<rparr>) = (fst (f srv), (snd (f srv))\<lparr>srv_locked := True\<rparr>)"
    and "\<not> srv_locked (snd (f srv))"
  shows "snd (with_mutex f srv) = snd (f srv)"
  using assms by (simp add: with_mutex_def)

lemma kept_locked:
  assumes "\<And>b. f (srv\<lparr>srv_locked := b\<rparr>) = (fst (f srv), (snd (f srv))\<lparr>srv_locked := b\<rparr>)" and "\<not> srv_locked srv"
  shows "\<not> srv_locked (snd (f (srv :: tcp_server)))"
proof -
  have same: "srv\<lparr>srv_locked := False\<rparr> = srv" using assms(2) by (cases srv) simp
  have "snd (f srv) = (snd (f srv))\<lparr>srv_locked := False\<rparr>"
    using arg_cong [where f = snd, OF assms(1) [of False]] unfolding same snd_conv .
  from arg_cong [where f = srv_locked, OF this] show ?thesis by simp
qed

lemma send_alone:
  assumes "quiet t s"
  shows "done_alone e t (Send_lock msg nt) s (snd (TcpServer_SendMessageToAllPeers msg nt (st_server s)))"
proof -
  let ?f = "\<lambda>srv. for_each (write_to msg nt) (srv_connections srv) srv"
  let ?s1 = "goto t (Send_next msg nt 0) (s\<lparr>st_mutex := Some t, st_listed := srv_connections (st_server s), st_told := []\<rparr>)"
  note alone = for_each_unlocked [of "write_to msg nt", OF locked_kept(1)]
  have "snd (with_mutex ?f (st_server s)) = snd (?f (st_server s))"
    using assms alone kept_locked [of ?f "st_server s"] by (intro with_mutex_alone) (simp_all add: quiet_def)
  then have whole: "snd (TcpServer_SendMessageToAllPeers msg nt (st_server s)) = snd (?f (st_server s))"
    by (simp add: TcpServer_SendMessageToAllPeers_def write_to_def [abs_def])
  have first: "st_next e t (goto t (Send_lock msg nt) s) ?s1"
    using assms by (simp add: st_next_def send_statement_def lock_server_def quiet_def goto_def)
  have "\<exists>s'. (st_next e t)\<^sup>*\<^sup>* ?s1 s' \<and> st_pc s' = (st_pc ?s1)[t := Unlock] \<and> st_mutex s' = st_mutex ?s1
    \<and> st_conn_mutex s' = (\<lambda>_. None)
    \<and> st_server s' = snd (for_each (write_to msg nt) (drop 0 (srv_connections (st_server ?s1))) (st_server ?s1))"
    using assms by (intro solo_send_loop) (simp_all add: quiet_def)
  then show ?thesis
    using done_aloneI [OF assms first] by (auto simp: whole)
qed

lemma close_alone:
  assumes "quiet t s"
  shows "done_alone e t Close_lock s (snd (TcpServer_CloseAllPeerConnections e (st_server s)))"
proof -
  let ?f = "\<lambda>srv. for_each (close_socket e) (srv_connections srv) srv"
  let ?s1 = "goto t (Close_next 0) (s\<lparr>st_mutex := Some t\<rparr>)"
  note alone = for_each_unlocked [of "close_socket e", OF locked_kept(2)]
  have "snd (with_mutex ?f (st_server s)) = snd (?f (st_server s))"
    using assms alone kept_locked [of ?f "st_server s"] by (intro with_mutex_alone) (simp_all add: quiet_def)
  then have whole: "snd (TcpServer_CloseAllPeerConnections e (st_server s)) = snd (?f (st_server s))"
    by (simp add: TcpServer_CloseAllPeerConnections_def)
  have first: "st_next e t (goto t Close_lock s) ?s1"
    using assms by (simp add: st_next_def close_statement_def lock_server_def quiet_def goto_def)
  have "\<exists>s'. (st_next e t)\<^sup>*\<^sup>* ?s1 s' \<and> st_pc s' = (st_pc ?s1)[t := Unlock] \<and> st_mutex s' = st_mutex ?s1
    \<and> st_conn_mutex s' = st_conn_mutex ?s1
    \<and> st_server s' = snd (for_each (close_socket e) (drop 0 (srv_connections (st_server ?s1))) (st_server ?s1))"
    using assms by (intro solo_close_loop) (simp_all add: quiet_def)
  then show ?thesis
    using done_aloneI [OF assms first] assms by (auto simp: whole quiet_def)
qed

lemma error_alone:
  assumes "quiet t s" and "ec_set ec"
  shows "done_alone e t (Error_lock i) s (snd (TcpServer_ErrorHandler e i ec (st_server s)))"
proof -
  let ?s1 = "goto t (Error_close i) (s\<lparr>st_mutex := Some t\<rparr>)"
  have first: "st_next e t (goto t (Error_lock i) s) ?s1"
    using assms by (simp add: st_next_def error_statement_def lock_server_def quiet_def goto_def)
  obtain r srv where c: "close_socket e i (st_server s) = (r, srv)" by fastforce
  show ?thesis
  proof (cases r)
    case (Inl f)
    with c assms have "srv = st_server s" by (simp add: close_socket_def split: option.splits)
    with c Inl assms locked_kept(2) [of e i True "st_server s"]
    have whole: "snd (TcpServer_ErrorHandler e i ec (st_server s)) = srv"
      by (simp add: TcpServer_ErrorHandler_def with_mutex_def quiet_def)
    have "st_next e t ?s1 (goto t Unlock (?s1\<lparr>st_server := srv\<rparr>))"
      using c Inl assms by (simp add: st_next_def error_statement_def quiet_def)
    then have run: "(st_next e t)\<^sup>*\<^sup>* ?s1 (goto t Unlock (?s1\<lparr>st_server := srv\<rparr>))" ..
    show ?thesis
      unfolding whole by (rule done_aloneI [OF assms(1) first run]) (use assms in \<open>simp_all add: quiet_def\<close>)
  next
    case (Inr u)
    let ?s2 = "goto t Error_remove (?s1\<lparr>st_server := srv\<rparr>)"
    let ?srv = "srv\<lparr>srv_connections := filter (\<lambda>j. env_is_open e (tcp_calls (get_conn j srv))) (srv_connections srv)\<rparr>"
    have "\<not> srv_locked srv" using c assms by (auto simp: close_socket_def put_conn_def quiet_def split: option.splits)
    with c Inr assms locked_kept(2) [of e i True "st_server s"]
    have whole: "snd (TcpServer_ErrorHandler e i ec (st_server s)) = ?srv"
      by (simp add: TcpServer_ErrorHandler_def with_mutex_def quiet_def get_conn_def)
    have "st_next e t ?s1 ?s2" "st_next e t ?s2 (goto t Unlock (?s2\<lparr>st_server := ?srv\<rparr>))"
      using c Inr assms by (simp_all add: st_next_def error_statement_def quiet_def)
    then have run: "(st_next e t)\<^sup>*\<^sup>* ?s1 (goto t Unlock (?s2\<lparr>st_server := ?srv\<rparr>))"
      by (meson converse_rtranclp_into_rtranclp r_into_rtranclp)
    show ?thesis
      unfolding whole by (rule done_aloneI [OF assms(1) first run]) (use assms in \<open>simp_all add: quiet_def\<close>)
  qed
qed

section \<open>The properties of the server's mutex\<close>

text \<open>
  C4: Whatever the other threads do, a broadcast that has the mutex of the server reads the same list that it
  found when it locked: no connection is added, erased or moved below its iterator, which is never past the
  end, and no other thread is in a function of the server. The write in progress is to the connection at the
  iterator, and when the loop ends it has written to every connection listed at the lock, once, in the order of
  the list.
\<close>

theorem broadcast_sees_list:
  assumes "(st_step e)\<^sup>*\<^sup>* (st_new n srv) s" and "t < length (st_pc s)"
    and "st_pc s ! t \<in> {Send_next msg nt k, Send_lock_conn msg nt k i, Send_write msg nt k i}"
  shows "srv_connections (st_server s) = st_listed s \<and> k \<le> length (st_listed s) \<and> st_told s = take k (st_listed s)
    \<and> (st_pc s ! t \<noteq> Send_next msg nt k \<longrightarrow> k < length (st_listed s) \<and> i = st_listed s ! k)
    \<and> (\<forall>s'. st_next e t s s' \<and> st_pc s' ! t = Unlock \<longrightarrow> st_told s' = srv_connections (st_server s'))
    \<and> (\<forall>u < length (st_pc s). holds_server (st_pc s ! u) \<longrightarrow> u = t)"
proof -
  from st_ok_reachable [OF assms(1)] have ok: "st_ok s" .
  with assms(2) have b: "broadcast_ok s (st_pc s ! t)" by (metis st_ok_def pc_of_def)
  have "\<forall>s'. st_next e t s s' \<and> st_pc s' ! t = Unlock \<longrightarrow> st_told s' = srv_connections (st_server s')"
  proof (intro allI impI)
    fix s' assume "st_next e t s s' \<and> st_pc s' ! t = Unlock"
    then have "st_next e t s s'" "st_pc s' ! t = Unlock" by auto
    then show "st_told s' = srv_connections (st_server s')"
      using assms(2,3) b by (cases rule: st_nextE) (auto simp: loop_at_def)
  qed
  moreover have "\<forall>u < length (st_pc s). holds_server (st_pc s ! u) \<longrightarrow> u = t"
  proof (intro allI impI)
    fix u assume "u < length (st_pc s)" "holds_server (st_pc s ! u)"
    then show "u = t" using one_holds_server [OF ok, of t u] assms(2,3) by (auto simp: pc_of_def)
  qed
  ultimately show ?thesis using assms(3) b by (auto simp: loop_at_def)
qed

text \<open>One thread that broadcasts to a server with one connection.\<close>

definition one_listed :: tcp_server where
  "one_listed = started\<lparr>srv_connections := [0]\<rparr>"

definition send_called :: server_threads where
  "send_called = goto 0 (Send_lock [7] False) (st_new 1 one_listed)"

definition send_running :: server_threads where
  "send_running = goto 0 (Send_next [7] False 0) (send_called\<lparr>st_mutex := Some 0, st_listed := [0], st_told := []\<rparr>)"

lemma send_called_step: "st_step quiet_env (st_new 1 one_listed) send_called"
  unfolding send_called_def by (rule st_step.call) (simp_all add: st_new_def entry_def)

lemma send_running_run: "st_run quiet_env send_called send_running"
  unfolding st_run_def
  by (rule exI [of _ 0])
     (simp add: st_next_def send_running_def send_called_def st_new_def send_statement_def lock_server_def goto_def
       one_listed_def)

theorem broadcast_sees_list_witness:
  "srv_connections (st_server send_running) = st_listed send_running
    \<and> st_told send_running = take 0 (st_listed send_running)"
proof -
  have "(st_step quiet_env)\<^sup>*\<^sup>* (st_new 1 one_listed) send_running"
    using send_called_step st_step.statement [OF send_running_run] by (meson rtranclp.simps)
  from broadcast_sees_list [OF this, of 0 "[7]" False 0 0] show ?thesis
    by (simp add: send_running_def send_called_def st_new_def)
qed




definition aborted_read :: error_code where
  "aborted_read = \<lparr>ec_value = 1, ec_message = ''aborted''\<rparr>"


end
