(* ===== verification/TcpLink.thy ===== *)
theory TcpLink
  imports TcpPeer "HOL-Library.Sublist"
begin

text \<open>
  Two TCP connections of the library, one at each end of a TCP connection of the network: what the
  application at one end writes and what the application at the other end is given. Both ends run the
  whole of \<open>TcpPeerConnection.cpp\<close>; the network between them carries bytes, in order and at its own
  pace.
\<close>

section \<open>Two ends and the bytes between them\<close>

text \<open>
  \<open>wire_ab\<close> has all bytes that the socket of end A put on the wire so far, \<open>wire_ba\<close> those of end B. A
  socket puts on the wire what it was given to write, a piece at a time. It reports a message as written
  only when all its bytes are on the wire, and the other end receives the bytes on the wire in their
  order; apart from this the two ends do what they do by themselves.
\<close>

record ('ep, 'cb) tcp_link =
  end_a :: "('ep, 'cb) tcp_world"
  end_b :: "('ep, 'cb) tcp_world"
  wire_ab :: "byte list"
  wire_ba :: "byte list"

definition message_bytes :: "io_buffer list \<Rightarrow> byte list" where
  "message_bytes ms = concat (map IoBufferWrapper_ToBoost ms)"

inductive end_step ::
  "bool \<Rightarrow> (string \<Rightarrow> c_int \<Rightarrow> fault + 'ep) \<Rightarrow> c_int \<Rightarrow> ('ep, 'cb) tcp_app \<Rightarrow> byte list \<Rightarrow>
   ('ep, 'cb) tcp_world \<times> byte list \<Rightarrow> ('ep, 'cb) tcp_world \<times> byte list \<Rightarrow> bool"
  for nd resolve chunk app inn where
  act: "tcp_step nd resolve chunk app w w' \<Longrightarrow> prefix (message_bytes (tcp_sent w')) out \<Longrightarrow>
    prefix (tcp_received w') inn \<Longrightarrow> end_step nd resolve chunk app inn (w, out) (w', out)"
| push: "tcp_pending (peer w) = m # ms \<Longrightarrow>
    prefix (out @ bs) (message_bytes (tcp_sent w @ [m])) \<Longrightarrow>
    end_step nd resolve chunk app inn (w, out) (w, out @ bs)"

inductive_cases end_stepE [consumes 1, case_names act push]:
  "end_step nd resolve chunk app inn (w, out) (w', out')"

inductive link_step ::
  "bool \<Rightarrow> (string \<Rightarrow> c_int \<Rightarrow> fault + 'ep) \<Rightarrow> c_int \<Rightarrow> ('ep, 'cb) tcp_app \<Rightarrow> ('ep, 'cb) tcp_app \<Rightarrow>
   ('ep, 'cb) tcp_link \<Rightarrow> ('ep, 'cb) tcp_link \<Rightarrow> bool"
  for nd resolve chunk app_a app_b where
  at_a: "end_step nd resolve chunk app_a (wire_ba l) (end_a l, wire_ab l) (a, out) \<Longrightarrow>
    link_step nd resolve chunk app_a app_b l (l\<lparr>end_a := a, wire_ab := out\<rparr>)"
| at_b: "end_step nd resolve chunk app_b (wire_ab l) (end_b l, wire_ba l) (b, out) \<Longrightarrow>
    link_step nd resolve chunk app_a app_b l (l\<lparr>end_b := b, wire_ba := out\<rparr>)"

definition link_new :: "transport \<Rightarrow> 'cb option \<Rightarrow> 'cb option \<Rightarrow> ('ep, 'cb) tcp_link" where
  "link_new cls err_a err_b =
     \<lparr>end_a = tcp_world_new cls err_a, end_b = tcp_world_new cls err_b, wire_ab = [], wire_ba = []\<rparr>"

definition link_reach ::
  "bool \<Rightarrow> (string \<Rightarrow> c_int \<Rightarrow> fault + 'ep) \<Rightarrow> c_int \<Rightarrow> ('ep, 'cb) tcp_app \<Rightarrow> ('ep, 'cb) tcp_app \<Rightarrow>
   ('ep, 'cb) tcp_link \<Rightarrow> bool" where
  "link_reach nd resolve chunk app_a app_b l \<longleftrightarrow>
     (\<exists>cls err_a err_b. (link_step nd resolve chunk app_a app_b)\<^sup>*\<^sup>* (link_new cls err_a err_b) l)"

section \<open>Each end by itself\<close>

text \<open>
  An end with its wires: it is in a run of its own, the wire has all of the messages it reported as
  sent and nothing but those and the message at the front of the queue, and it received a part of what came over the other wire.
\<close>

definition end_ok ::
  "bool \<Rightarrow> (string \<Rightarrow> c_int \<Rightarrow> fault + 'ep) \<Rightarrow> c_int \<Rightarrow> ('ep, 'cb) tcp_app \<Rightarrow> byte list \<Rightarrow>
   ('ep, 'cb) tcp_world \<times> byte list \<Rightarrow> bool" where
  "end_ok nd resolve chunk app inn e \<longleftrightarrow>
     (case e of (w, out) \<Rightarrow> tcp_reach nd resolve chunk app w
        \<and> prefix (message_bytes (tcp_sent w)) out
        \<and> prefix out (message_bytes (tcp_sent w @ take 1 (tcp_outQueue (peer w))))
        \<and> prefix (tcp_received w) inn)"

lemma message_bytes_append [simp]: "message_bytes (as @ bs) = message_bytes as @ message_bytes bs"
  by (simp add: message_bytes_def)

lemma message_bytes_Nil [simp]: "message_bytes [] = []"
  by (simp add: message_bytes_def)

text \<open>A step leaves the message at the front of the queue there or reports it as sent.\<close>

lemma tcp_step_front:
  assumes "tcp_step nd resolve chunk app w w'" and "tcp_reach nd resolve chunk app w"
  shows "tcp_sent w' = tcp_sent w \<and> prefix (take 1 (tcp_outQueue (peer w))) (tcp_outQueue (peer w'))
    \<or> tcp_sent w' = tcp_sent w @ take 1 (tcp_outQueue (peer w))"
  using assms(1)
proof (cases rule: tcp_step_sends_on)
  case other
  then obtain ms where "tcp_accepted w' = tcp_accepted w @ ms" and sent: "tcp_sent w' = tcp_sent w"
    by (auto simp: tcp_sends_on_def)
  with tcp_write_order_facts(1) [OF assms(2)] tcp_write_order_facts(1) [OF tcp_reach_step [OF assms(2,1)]]
  have "tcp_outQueue (peer w') = tcp_outQueue (peer w) @ ms" by simp
  with sent show ?thesis by (simp add: prefix_prefix take_is_prefix)
next
  case (wrote m ms n)
  with tcp_write_order_facts(2) [OF assms(2)] obtain q where "tcp_outQueue (peer w) = m # q" "ms = []"
    by (cases "tcp_outQueue (peer w)") auto
  with wrote tcp_queue.complete_short [OF wrote(1), of n] show ?thesis by auto
qed

lemma prefix_message_bytes: "prefix as bs \<Longrightarrow> prefix (message_bytes as) (message_bytes bs)"
  by (auto simp: prefix_def)

lemma end_step_ok:
  assumes "end_step nd resolve chunk app inn (w, out) (w', out')" and "end_ok nd resolve chunk app inn (w, out)"
  shows "end_ok nd resolve chunk app inn (w', out')"
  using assms(1)
proof (cases rule: end_stepE)
  case act
  have w: "tcp_reach nd resolve chunk app w"
    and out: "prefix out (message_bytes (tcp_sent w @ take 1 (tcp_outQueue (peer w))))"
    using assms(2) by (simp_all add: end_ok_def)
  from tcp_step_front [OF act(2) w]
  have "prefix (tcp_sent w @ take 1 (tcp_outQueue (peer w))) (tcp_sent w' @ take 1 (tcp_outQueue (peer w')))"
    by (cases "tcp_outQueue (peer w)"; cases "tcp_outQueue (peer w')") auto
  then have "prefix out (message_bytes (tcp_sent w' @ take 1 (tcp_outQueue (peer w'))))"
    using out prefix_message_bytes prefix_order.trans by blast
  with act tcp_reach_step [OF w act(2)] show ?thesis by (simp add: end_ok_def)
next
  case (push m ms bs)
  have w: "tcp_reach nd resolve chunk app w" using assms(2) by (simp add: end_ok_def)
  have "take 1 (tcp_outQueue (peer w)) = [m]"
    using tcp_write_order_facts [OF w] push by (cases "tcp_outQueue (peer w)") auto
  with push assms(2) show ?thesis by (auto simp: end_ok_def)
qed

text \<open>So what is on the wire is a part of what was accepted.\<close>

lemma end_ok_accepted:
  assumes "end_ok nd resolve chunk app inn (w, out)"
  shows "prefix out (message_bytes (tcp_accepted w))"
proof -
  have w: "tcp_reach nd resolve chunk app w"
    and out: "prefix out (message_bytes (tcp_sent w @ take 1 (tcp_outQueue (peer w))))"
    using assms by (simp_all add: end_ok_def)
  have "prefix (tcp_sent w @ take 1 (tcp_outQueue (peer w))) (tcp_accepted w)"
    by (simp add: tcp_write_order_facts(1) [OF w] take_is_prefix)
  with out show ?thesis using prefix_message_bytes prefix_order.trans by blast
qed

lemma end_step_wire: "end_step nd resolve chunk app inn (w, out) (w', out') \<Longrightarrow> prefix out out'"
  by (cases rule: end_stepE) auto

text \<open>More bytes on the other wire do not disturb an end.\<close>

lemma end_ok_wire: "end_ok nd resolve chunk app inn e \<Longrightarrow> prefix inn inn' \<Longrightarrow> end_ok nd resolve chunk app inn' e"
  by (auto simp: end_ok_def split: prod.splits)

section \<open>Both ends\<close>

definition link_ok ::
  "bool \<Rightarrow> (string \<Rightarrow> c_int \<Rightarrow> fault + 'ep) \<Rightarrow> c_int \<Rightarrow> ('ep, 'cb) tcp_app \<Rightarrow> ('ep, 'cb) tcp_app \<Rightarrow>
   ('ep, 'cb) tcp_link \<Rightarrow> bool" where
  "link_ok nd resolve chunk app_a app_b l \<longleftrightarrow>
     end_ok nd resolve chunk app_a (wire_ba l) (end_a l, wire_ab l)
     \<and> end_ok nd resolve chunk app_b (wire_ab l) (end_b l, wire_ba l)"

lemma link_step_ok:
  assumes "link_step nd resolve chunk app_a app_b l l'" and "link_ok nd resolve chunk app_a app_b l"
  shows "link_ok nd resolve chunk app_a app_b l'"
  using assms
  by cases (auto simp: link_ok_def intro: end_step_ok end_ok_wire dest: end_step_wire)

lemma link_reach_ok:
  assumes "link_reach nd resolve chunk app_a app_b l"
  shows "link_ok nd resolve chunk app_a app_b l"
proof -
  have "link_ok nd resolve chunk app_a app_b (link_new cls err_a err_b)" for cls err_a err_b
    by (auto simp: link_ok_def link_new_def end_ok_def tcp_reach_def) (simp_all add: tcp_world_new_def)
  moreover have "(link_step nd resolve chunk app_a app_b)\<^sup>*\<^sup>* k l \<Longrightarrow> link_ok nd resolve chunk app_a app_b k \<Longrightarrow>
      link_ok nd resolve chunk app_a app_b l" for k
    by (induction rule: rtranclp_induct) (auto intro: link_step_ok)
  ultimately show ?thesis using assms by (auto simp: link_reach_def)
qed

section \<open>Delivery\<close>

text \<open>An application that takes all it is told of and does nothing else.\<close>

definition consume_app :: "('ep, 'cb) tcp_app" where
  "consume_app cb ev w = (case ev of Available n \<Rightarrow> [Do (Tcp_consume n)] | _ \<Rightarrow> [])"

lemma consume_app_runs:
  assumes "circ_ctx (tcp_readBuffer (peer w))"
  obtains b where "tcp_available nd resolve chunk consume_app cb (vsize (buffer (tcp_readBuffer (peer w)))) w
      = (Inr (), tcp_put_buffer peer put_peer ((tcp_readBuffer (peer w))\<lparr>buffer := b\<rparr>) w)"
    and "vec_data b = []" and "vec_wf b" and "vec_capacity b = vec_capacity (buffer (tcp_readBuffer (peer w)))"
proof -
  let ?c = "tcp_readBuffer (peer w)"
  have c: "hasContext ?c" "vec_wf (buffer ?c)"
    using assms by (simp_all add: circ_ctx_def circ_base_def)
  obtain b where "IoCircularBuffer_Consume nd (vsize (buffer ?c)) ?c = (Inr (), ?c\<lparr>buffer := b\<rparr>)"
    "vec_data b = drop (vsize (buffer ?c)) (vec_data (buffer ?c))" "vec_wf b"
    "vec_capacity b = vec_capacity (buffer ?c)"
    by (rule Consume_in [OF c order.refl])
  then show thesis
    by (intro that [of b])
      (simp_all add: tcp_available_def tcp_callback_def consume_app_def tcp_api_call_def
        TcpPeerConnection_Consume_def tcp_on_buffer_def on_host_def tcp_put_buffer_def put_peer_def
        length_vec_data [OF c(2)])
qed

text \<open>A read completes with bytes that fit, and the next one is outstanding.\<close>

lemma consume_read:
  assumes "tcp_reads w" and fits: "fits_read bs (tcp_readBuffer (peer w))"
  obtains w' where "tcp_step nd resolve chunk consume_app w w'" and "tcp_received w' = tcp_received w @ bs"
    and "reads (tcp_readBuffer (peer w')) \<noteq> []" and "tcp_sent w' = tcp_sent w"
proof -
  let ?u = "w\<lparr>tcp_received := tcp_received w @ bs\<rparr>" and ?b = "tcp_buffer w"
  let ?v = "tcp_put_buffer peer put_peer (circ_fill bs ?b) ?u"
  let ?e = "tcp_put_buffer peer put_peer (circ_enter bs ?b) ?u"
  have u: "tcp_get_buffer peer ?u = ?b" by (simp add: tcp_get_buffer_def tcp_buffer_def)
  have inv: "circ_inv ?b" and fits': "fits_read bs ?b"
    using assms by (simp_all add: tcp_reads_def tcp_buffer_def)
  note ent = circ_enter_facts [OF inv fits']
  obtain cb where cb: "notifyAvailable ?b = Some cb"
    using inv fits' by (auto simp: circ_inv_defs fits_read_def)
  have e: "tcp_readBuffer (peer ?e) = circ_enter bs ?b"
    by (simp add: tcp_put_buffer_def put_peer_def)
  obtain b where app: "tcp_available nd resolve chunk consume_app cb (vsize (buffer (circ_enter bs ?b))) ?e
      = (Inr (), tcp_put_buffer peer put_peer ((circ_enter bs ?b)\<lparr>buffer := b\<rparr>) ?e)"
    and b: "vec_data b = []" "vec_wf b" "vec_capacity b = vec_capacity (buffer ?b)"
    using consume_app_runs [of ?e nd resolve chunk cb, unfolded e] ent by metis
  let ?t = "tcp_put_buffer peer put_peer ((circ_enter bs ?b)\<lparr>buffer := b\<rparr>) ?e"
  let ?c = "(circ_enter bs ?b)\<lparr>buffer := b, hasContext := False\<rparr>"
  have base: "circ_base ?c" "notifyAvailable ?c \<noteq> None" "shouldRead ?c" "\<not> hasContext ?c" "reads ?c = []"
    using ent(1) b by (auto simp: circ_ctx_def circ_base_def ent(4))
  then obtain c where c: "IoCircularBuffer_ReadSome nd ?c = (Inr (), c)" "reads c \<noteq> []"
  proof (cases rule: ReadSome_cases [where nd = nd])
    case full
    have "vsize b = 0" using b by (metis length_0_conv length_vec_data)
    moreover have "0 < sint (chunkSize ?c)" using base(1,2) by (simp add: circ_base_def)
    ultimately show thesis
      using full(2) size_of_int_less [of "chunkSize ?c"] by (simp add: vec_max_size_def)
  qed (use that in auto)
  define w' where "w' = tcp_put_buffer peer put_peer c ?u"
  have "TcpPeerConnection_boostHandler nd peer put_peer (tcp_available nd resolve chunk consume_app)
      (tcp_failed nd resolve chunk consume_app) no_error (length bs) ?v = (Inr (), w')"
    using fits base c tcp_world.reader.handler_unfold [where s = ?u, unfolded u, OF inv fits' cb, of
        "tcp_available nd resolve chunk consume_app" "Inr ()" ?t nd] app ent(3)
    by (simp add: TcpPeerConnection_boostHandler_def fits_read_def clear_context_def on_host_def w'_def
        tcp_get_buffer_def tcp_put_buffer_def put_peer_def)
  then have "tcp_step nd resolve chunk consume_app w w'"
    by (rule tcp_step.read [OF fits, folded tcp_buffer_def])
  then show thesis
    by (rule that) (simp_all add: w'_def tcp_put_buffer_def put_peer_def c(2))
qed

text \<open>Whatever is still to come over the wire can be received.\<close>

lemma consume_all_of_wire:
  assumes "0 < sint chunk"
  shows "\<lbrakk>tcp_reads w; reads (tcp_readBuffer (peer w)) \<noteq> []; prefix (message_bytes (tcp_sent w)) out;
      prefix (tcp_received w @ rest) inn\<rbrakk> \<Longrightarrow>
    \<exists>w'. (end_step nd resolve chunk consume_app inn)\<^sup>*\<^sup>* (w, out) (w', out)
      \<and> tcp_received w' = tcp_received w @ rest"
proof (induction "length rest" arbitrary: w rest rule: less_induct)
  case less
  show ?case
  proof (cases "rest = []")
    case False
    let ?b = "tcp_readBuffer (peer w)"
    define n where "n = snd (hd (reads ?b))"
    have "n = size_of_int (chunkSize ?b)" "0 < sint (chunkSize ?b)"
      using less.prems(1,2) by (auto simp: n_def tcp_reads_def tcp_buffer_def circ_inv_defs)
    then have n: "0 < n" by (simp add: size_of_int_pos)
    with False less.prems(2) have fits: "fits_read (take n rest) ?b"
      by (simp add: fits_read_def n_def)
    obtain v where v: "tcp_step nd resolve chunk consume_app w v" "tcp_received v = tcp_received w @ take n rest"
      "reads (tcp_readBuffer (peer v)) \<noteq> []" "tcp_sent v = tcp_sent w"
      by (rule consume_read [OF less.prems(1) fits, of nd resolve chunk])
    have rest: "tcp_received v @ drop n rest = tcp_received w @ rest" by (simp add: v(2))
    have step: "end_step nd resolve chunk consume_app inn (w, out) (v, out)"
    proof (rule end_step.act [OF v(1)])
      show "prefix (message_bytes (tcp_sent v)) out" using less.prems(3) v(4) by simp
      show "prefix (tcp_received v) inn" using less.prems(4) rest by (metis append_prefixD)
    qed
    have "\<exists>w'. (end_step nd resolve chunk consume_app inn)\<^sup>*\<^sup>* (v, out) (w', out)
        \<and> tcp_received w' = tcp_received v @ drop n rest"
    proof (rule less.hyps)
      show "length (drop n rest) < length rest" using False n by simp
      show "tcp_reads v" by (rule tcp_step_reads [OF v(1) less.prems(1) assms])
    qed (use v less.prems rest in simp_all)
    with step rest show ?thesis by (metis converse_rtranclp_into_rtranclp)
  qed auto
qed

text \<open>A queue that is not stalled can be emptied onto the wire.\<close>

lemma queue_onto_wire:
  "\<lbrakk>end_ok nd resolve chunk app inn (w, out); \<not> tcp_stalled (peer w)\<rbrakk> \<Longrightarrow>
    \<exists>w' out'. (end_step nd resolve chunk app inn)\<^sup>*\<^sup>* (w, out) (w', out')
      \<and> tcp_accepted w' = tcp_accepted w \<and> prefix (message_bytes (tcp_accepted w)) out'"
proof (induction "tcp_outQueue (peer w)" arbitrary: w out)
  case Nil
  with tcp_write_order_facts(1) [of nd resolve chunk app w] have "prefix (message_bytes (tcp_accepted w)) out"
    by (simp add: end_ok_def)
  then show ?case by blast
next
  case (Cons m q)
  have w: "tcp_reach nd resolve chunk app w" and "prefix (tcp_received w) inn"
    and out: "prefix out (message_bytes (tcp_sent w @ [m]))"
    using Cons.prems(1) Cons.hyps(2) [symmetric] by (simp_all add: end_ok_def)
  then obtain bs where bs: "message_bytes (tcp_sent w @ [m]) = out @ bs" by (auto simp: prefix_def)
  have pending: "tcp_pending (peer w) = [m]"
    using tcp_write_order_facts(2) [OF w] Cons.hyps(2) [symmetric] Cons.prems(2) by (auto simp: tcp_stalled_def)
  let ?n = "IoBufferWrapper_BoostSize m"
  let ?v = "w\<lparr>peer := tcp_complete ?n (peer w), tcp_sent := tcp_sent w @ [m]\<rparr>"
  have push: "end_step nd resolve chunk app inn (w, out) (w, out @ bs)"
    using pending by (rule end_step.push) (simp add: bs [simplified])
  obtain r c where rc: "tcp_write_completed no_error ?n (peer w) = (r, c)" by fastforce
  then have "c = tcp_complete ?n (peer w)" using tcp_write_completed_snd by (metis snd_conv)
  with tcp_step.wrote [OF pending rc] have "tcp_step nd resolve chunk app w ?v" by simp
  then have act: "end_step nd resolve chunk app inn (w, out @ bs) (?v, out @ bs)"
    by (rule end_step.act) (use \<open>prefix (tcp_received w) inn\<close> in \<open>simp_all add: bs [simplified]\<close>)
  have q: "tcp_outQueue (peer ?v) = q"
    using tcp_queue.complete_queue [OF pending Cons.hyps(2) [symmetric]] by simp
  have "tcp_sends w" by (rule tcp_reach_sends [OF w])
  then have "\<not> tcp_stalled (peer ?v)"
    using tcp_queue.launched_full [OF _ pending] by (simp add: tcp_sends_def tcp_stalled_eq)
  from Cons.hyps(1) [OF q [symmetric] end_step_ok [OF act end_step_ok [OF push Cons.prems(1)]] this]
  obtain w' out' where "(end_step nd resolve chunk app inn)\<^sup>*\<^sup>* (?v, out @ bs) (w', out')"
    "tcp_accepted w' = tcp_accepted w" "prefix (message_bytes (tcp_accepted w)) out'" by auto
  with push act show ?case by (meson converse_rtranclp_into_rtranclp)
qed

text \<open>What one end can do by itself, the two can do together.\<close>

lemma link_steps_at_a:
  assumes "(end_step nd resolve chunk app_a (wire_ba l))\<^sup>*\<^sup>* (end_a l, wire_ab l) (a, out)"
  shows "(link_step nd resolve chunk app_a app_b)\<^sup>*\<^sup>* l (l\<lparr>end_a := a, wire_ab := out\<rparr>)"
  using assms
proof (induction rule: rtranclp_induct2)
  case (step a out a' out')
  have "link_step nd resolve chunk app_a app_b (l\<lparr>end_a := a, wire_ab := out\<rparr>)
      ((l\<lparr>end_a := a, wire_ab := out\<rparr>)\<lparr>end_a := a', wire_ab := out'\<rparr>)"
    by (rule link_step.at_a) (simp add: step.hyps(2))
  with step.IH show ?case by (simp add: rtranclp.rtrancl_into_rtrancl)
qed simp

lemma link_steps_at_b:
  assumes "(end_step nd resolve chunk app_b (wire_ab l))\<^sup>*\<^sup>* (end_b l, wire_ba l) (b, out)"
  shows "(link_step nd resolve chunk app_a app_b)\<^sup>*\<^sup>* l (l\<lparr>end_b := b, wire_ba := out\<rparr>)"
  using assms
proof (induction rule: rtranclp_induct2)
  case (step b out b' out')
  have "link_step nd resolve chunk app_a app_b (l\<lparr>end_b := b, wire_ba := out\<rparr>)
      ((l\<lparr>end_b := b, wire_ba := out\<rparr>)\<lparr>end_b := b', wire_ba := out'\<rparr>)"
    by (rule link_step.at_b) (simp add: step.hyps(2))
  with step.IH show ?case by (simp add: rtranclp.rtrancl_into_rtrancl)
qed simp

section \<open>Properties\<close>

text \<open>
  C7: End to end, in both directions, whatever the two applications do and however the sockets complete:
  the bytes of the messages accepted at one end start with the bytes the other end received, and these
  end with the bytes that the other end holds for its application. Nothing is lost, repeated, reordered
  or mixed on the way through the two libraries.
\<close>

theorem link_stream:
  assumes "link_reach nd resolve chunk app_a app_b l" and "0 < sint chunk"
  shows "(\<exists>taken held coming. message_bytes (tcp_accepted (end_a l)) = taken @ held @ coming
            \<and> tcp_received (end_b l) = taken @ held
            \<and> vec_data (buffer (tcp_readBuffer (peer (end_b l)))) = map Some held)
    \<and> (\<exists>taken held coming. message_bytes (tcp_accepted (end_b l)) = taken @ held @ coming
            \<and> tcp_received (end_a l) = taken @ held
            \<and> vec_data (buffer (tcp_readBuffer (peer (end_a l)))) = map Some held)"
proof -
  have one_way: "\<exists>taken held coming. message_bytes (tcp_accepted a) = taken @ held @ coming
      \<and> tcp_received b = taken @ held \<and> vec_data (buffer (tcp_readBuffer (peer b))) = map Some held"
    if "end_ok nd resolve chunk f inn (a, out)" and b: "end_ok nd resolve chunk g out (b, out')" for f g inn a b out out'
  proof -
    have "prefix (tcp_received b) (message_bytes (tcp_accepted a))"
      using end_ok_accepted [OF that(1)] b prefix_order.trans by (auto simp: end_ok_def)
    then obtain coming where "message_bytes (tcp_accepted a) = tcp_received b @ coming" by (auto simp: prefix_def)
    moreover have "tcp_reads b"
      using b by (intro tcp_reach_reads [OF _ assms(2), of nd resolve g]) (simp add: end_ok_def)
    then obtain k where "vec_data (buffer (tcp_readBuffer (peer b))) = map Some (drop k (tcp_received b))"
      by (auto simp: tcp_reads_def tcp_buffer_def)
    ultimately show ?thesis
      by (intro exI [of _ "take k (tcp_received b)"] exI [of _ "drop k (tcp_received b)"] exI [of _ coming]) simp
  qed
  have a: "end_ok nd resolve chunk app_a (wire_ba l) (end_a l, wire_ab l)"
    and b: "end_ok nd resolve chunk app_b (wire_ab l) (end_b l, wire_ba l)"
    using link_reach_ok [OF assms(1)] by (simp_all add: link_ok_def)
  from one_way [OF a b] one_way [OF b a] show ?thesis by (rule conjI)
qed

text \<open>Two ends: the second one reads with chunks of two bytes, the first one writes a message.\<close>

definition ex_reading :: "(end_point, nat) tcp_world" where
  "ex_reading = snd (tcp_api_call False no_address 2 (Tcp_begin_read 7 8) (tcp_world_new Plain None))"

definition ex_writing :: "(end_point, nat) tcp_world" where
  "ex_writing = snd (tcp_api_call False no_address 2 (Tcp_write_bytes [1, 2, 3]) (tcp_world_new Plain None))"

definition ex_link :: "(end_point, nat) tcp_link" where
  "ex_link = \<lparr>end_a = ex_writing, end_b = ex_reading, wire_ab = [], wire_ba = []\<rparr>"

lemma ex_link_eval:
  "peer ex_writing = (TcpPeerConnection_new Plain None)\<lparr>tcp_outQueue := [IoBufferWrapper_bytes [1, 2, 3]],
     tcp_calls := [Async_write Plain [1, 2, 3]], tcp_pending := [IoBufferWrapper_bytes [1, 2, 3]]\<rparr>"
  "tcp_accepted ex_writing = [IoBufferWrapper_bytes [1, 2, 3]]" "tcp_sent ex_writing = []" "tcp_received ex_writing = []"
  "reads (tcp_readBuffer (peer ex_reading)) = [(0, 2)]" "tcp_sent ex_reading = []" "tcp_received ex_reading = []"
  by (simp_all add: ex_writing_def ex_reading_def tcp_eval circ_eval)

lemma ex_link_reach: "link_reach False no_address 2 app_a app_b ex_link"
proof -
  let ?n = "link_new Plain None None :: (end_point, nat) tcp_link"
  have a: "end_step False no_address 2 app_a [] (tcp_world_new Plain None, []) (ex_writing, [])"
    by (rule end_step.act, unfold ex_writing_def, rule tcp_step.call [OF surjective_pairing], fold ex_writing_def)
      (simp_all add: ex_link_eval)
  have b: "end_step False no_address 2 app_b [] (tcp_world_new Plain None, []) (ex_reading, [])"
    by (rule end_step.act, unfold ex_reading_def, rule tcp_step.call [OF surjective_pairing], fold ex_reading_def)
      (simp_all add: ex_link_eval)
  have "(link_step False no_address 2 app_a app_b)\<^sup>*\<^sup>* ?n (?n\<lparr>end_a := ex_writing, wire_ab := []\<rparr>)"
    by (rule r_into_rtranclp, rule link_step.at_a) (simp add: link_new_def a)
  also have "(link_step False no_address 2 app_a app_b)\<^sup>*\<^sup>* (?n\<lparr>end_a := ex_writing, wire_ab := []\<rparr>)
      ((?n\<lparr>end_a := ex_writing, wire_ab := []\<rparr>)\<lparr>end_b := ex_reading, wire_ba := []\<rparr>)"
    by (rule r_into_rtranclp, rule link_step.at_b) (simp add: link_new_def b)
  finally show ?thesis by (auto simp: link_reach_def ex_link_def link_new_def)
qed

theorem link_stream_witness:
  "\<exists>coming. message_bytes (tcp_accepted (end_a ex_link)) = tcp_received (end_b ex_link) @ coming"
  using link_stream [OF ex_link_reach [of quiet_app quiet_app]] by auto



end
