(* ===== verification/IoLogging.thy ===== *)
theory IoLogging
  imports WriteQueue
begin

text \<open>
  The log lines of \<open>IoLog.h\<close>, \<open>IoLog.cpp\<close> and \<open>IoLogConsumer.cpp\<close>: a statement
  \<open>LOG() << a << b;\<close> builds its text in a temporary object, and the destructor of the object hands it
  to the function the program has attached.
\<close>

section \<open>The class\<close>

text \<open>
  A \<open>std::wstringstream\<close> is its text with the position where the next output goes: the end for one that
  was filled by output, the start for one that was constructed from a string.
\<close>

record io_log =
  log_text :: string
  log_put :: nat
  log_available :: bool

definition stream_out :: "string \<Rightarrow> io_log \<Rightarrow> io_log" where
  "stream_out x l =
     l\<lparr>log_text := take (log_put l) (log_text l) @ x @ drop (log_put l + length x) (log_text l),
       log_put := log_put l + length x\<rparr>"

definition IoLog_new :: io_log where
  "IoLog_new = \<lparr>log_text = [], log_put = 0, log_available = False\<rparr>"

definition IoLog_copy :: "io_log \<Rightarrow> io_log" where
  "IoLog_copy rhs =
     (let l = \<lparr>log_text = log_text rhs, log_put = 0, log_available = log_available rhs\<rparr>
      in l\<lparr>log_available := True\<rparr>)"

text \<open>The moves return the new object or the target, and the source.\<close>

definition IoLog_move :: "io_log \<Rightarrow> io_log \<times> io_log" where
  "IoLog_move rhs =
     ((stream_out (log_text rhs) IoLog_new)\<lparr>log_available := log_available rhs\<rparr>, rhs\<lparr>log_available := False\<rparr>)"

definition IoLog_move_assign :: "io_log \<Rightarrow> io_log \<Rightarrow> io_log \<times> io_log" where
  "IoLog_move_assign lhs rhs =
     ((stream_out (log_text rhs) lhs)\<lparr>log_available := log_available rhs\<rparr>, rhs\<lparr>log_available := False\<rparr>)"

text \<open>
  \<open>operator<<\<close> for what prints as \<open>x\<close>: a value, a manipulator such as \<open>std::endl\<close>, or a
  \<open>std::string\<close>, which is widened first.
\<close>

definition IoLog_put :: "string \<Rightarrow> io_log \<Rightarrow> io_log" where
  "IoLog_put x l = (stream_out x l)\<lparr>log_available := True\<rparr>"

definition IoLog_Finalise :: "io_log \<Rightarrow> io_log" where
  "IoLog_Finalise l = l\<lparr>log_available := False\<rparr>"

definition IoLog_output :: "io_log \<Rightarrow> string \<Rightarrow> string" where
  "IoLog_output rhs os = os @ log_text rhs"

section \<open>The consumer\<close>

text \<open>
  \<open>lg_consumer\<close> is the attached function, empty until one is attached. Running one, \<open>app c\<close>, gets the
  log by reference and may print, throw, and change the object; here it prints into \<open>lg_lines\<close>.
\<close>

record 'c log_sink =
  lg_consumer :: "'c option"
  lg_lines :: "string list"

type_synonym 'c log_app = "'c \<Rightarrow> io_log \<times> 'c log_sink \<Rightarrow> (unit, io_log \<times> 'c log_sink) outcome"

definition IoLogConsumer_AttachLogger :: "'c option \<Rightarrow> 'c log_sink \<Rightarrow> 'c log_sink" where
  "IoLogConsumer_AttachLogger fn g = g\<lparr>lg_consumer := fn\<rparr>"

definition IoLogConsumer_Consume :: "'c log_app \<Rightarrow> io_log \<Rightarrow> 'c log_sink \<Rightarrow> (unit, io_log \<times> 'c log_sink) outcome" where
  "IoLogConsumer_Consume app l g =
     (case lg_consumer g of Some c \<Rightarrow> app c (l, g) | None \<Rightarrow> (Inr (), (l, g)))"

definition IoLogConsumer_DoLog :: io_log where
  "IoLogConsumer_DoLog = IoLog_new"

text \<open>The destructor drops an exception of the consumer; a fault that is none ends the process.\<close>

definition IoLog_destroy :: "'c log_app \<Rightarrow> io_log \<Rightarrow> 'c log_sink \<Rightarrow> (unit, 'c log_sink) outcome" where
  "IoLog_destroy app l g =
     (if log_available l
      then case IoLogConsumer_Consume app l g of
             (Inl f, (_, g)) \<Rightarrow> if catchable f then (Inr (), g) else (Inl f, g)
           | (Inr _, (_, g)) \<Rightarrow> (Inr (), g)
      else (Inr (), g))"

section \<open>A statement\<close>

text \<open>
  What happens to a log on its way: output into it, a move into a new object (as a function that returns
  it does), after which output goes to the new one, and \<open>Finalise\<close>. At the end all objects are destroyed,
  the last one made first. Afterwards the sink has the lines.
\<close>

datatype log_act = Output string | Hand_on | Finish

fun log_run :: "log_act list \<Rightarrow> io_log list \<Rightarrow> io_log list" where
  "log_run [] ls = ls"
| "log_run (_ # as) [] = []"
| "log_run (Output x # as) (l # ls) = log_run as (IoLog_put x l # ls)"
| "log_run (Hand_on # as) (l # ls) = (case IoLog_move l of (new, old) \<Rightarrow> log_run as (new # old # ls))"
| "log_run (Finish # as) (l # ls) = log_run as (IoLog_Finalise l # ls)"

fun destroy_logs :: "'c log_app \<Rightarrow> io_log list \<Rightarrow> 'c log_sink \<Rightarrow> (unit, 'c log_sink) outcome" where
  "destroy_logs app [] g = (Inr (), g)"
| "destroy_logs app (l # ls) g = and_then (IoLog_destroy app l g) (\<lambda>_. destroy_logs app ls)"

definition log_statement :: "'c log_app \<Rightarrow> log_act list \<Rightarrow> 'c log_sink \<Rightarrow> (unit, 'c log_sink) outcome" where
  "log_statement app as g = destroy_logs app (log_run as [IoLogConsumer_DoLog]) g"

text \<open>A consumer that prints the text of the log; what else it does, if it returns, is left open.\<close>

definition prints :: "'c log_app \<Rightarrow> bool" where
  "prints app \<longleftrightarrow> (\<forall>c l g. \<exists>r l'. app c (l, g) = (r, (l', g\<lparr>lg_lines := lg_lines g @ [IoLog_output l []]\<rparr>))
     \<and> (\<forall>f. r = Inl f \<longrightarrow> catchable f))"

text \<open>The text of a statement, and whether it is due: whether the last act but moves was an output.\<close>

fun act_text :: "log_act list \<Rightarrow> string" where
  "act_text [] = []"
| "act_text (Output x # as) = x @ act_text as"
| "act_text (_ # as) = act_text as"

fun act_due :: "bool \<Rightarrow> log_act list \<Rightarrow> bool" where
  "act_due d [] = d"
| "act_due d (Output x # as) = act_due True as"
| "act_due d (Hand_on # as) = act_due d as"
| "act_due d (Finish # as) = act_due False as"

section \<open>Lemmas\<close>

text \<open>A log that was filled by output has its position at the end of its text.\<close>

lemma stream_out_end: "log_put l = length (log_text l) \<Longrightarrow>
    stream_out x l = l\<lparr>log_text := log_text l @ x, log_put := length (log_text l @ x)\<rparr>"
  by (simp add: stream_out_def)

lemma move_end: "IoLog_move l = (\<lparr>log_text = log_text l, log_put = length (log_text l), log_available = log_available l\<rparr>,
    l\<lparr>log_available := False\<rparr>)"
  by (simp add: IoLog_move_def IoLog_new_def stream_out_def)

lemma log_run_result:
  assumes "log_put l = length (log_text l)" and "\<forall>k \<in> set ls. \<not> log_available k"
  shows "\<exists>l' ls'. log_run as (l # ls) = l' # ls' \<and> log_text l' = log_text l @ act_text as
    \<and> log_available l' = act_due (log_available l) as \<and> (\<forall>k \<in> set ls'. \<not> log_available k)"
  using assms
proof (induction as arbitrary: l ls)
  case (Cons a as)
  show ?case
  proof (cases a)
    case (Output x)
    let ?l = "IoLog_put x l"
    have "log_put ?l = length (log_text ?l)" "log_text ?l = log_text l @ x" "log_available ?l"
      using Cons.prems(1) by (simp_all add: IoLog_put_def stream_out_end)
    with Cons.IH [of ?l ls] Cons.prems(2) Output show ?thesis by auto
  next
    case Hand_on
    let ?n = "\<lparr>log_text = log_text l, log_put = length (log_text l), log_available = log_available l\<rparr>"
    from Cons.IH [of ?n "l\<lparr>log_available := False\<rparr> # ls"] Cons.prems(2) Hand_on show ?thesis
      by (auto simp: move_end)
  next
    case Finish
    with Cons.IH [of "IoLog_Finalise l" ls] Cons.prems show ?thesis by (auto simp: IoLog_Finalise_def)
  qed
qed auto

lemma destroy_unavailable: "\<forall>k \<in> set ls. \<not> log_available k \<Longrightarrow> destroy_logs app ls g = (Inr (), g)"
  by (induction ls) (auto simp: IoLog_destroy_def)

lemma destroy_prints:
  assumes "prints app" and "lg_consumer g = Some c" and "log_available l"
  shows "IoLog_destroy app l g = (Inr (), g\<lparr>lg_lines := lg_lines g @ [log_text l]\<rparr>)"
proof -
  obtain r l' where r: "app c (l, g) = (r, (l', g\<lparr>lg_lines := lg_lines g @ [IoLog_output l []]\<rparr>))"
    "\<And>f. r = Inl f \<Longrightarrow> catchable f"
    using assms(1) unfolding prints_def by metis
  with assms(2,3) show ?thesis
    by (cases r) (simp_all add: IoLog_destroy_def IoLogConsumer_Consume_def IoLog_output_def)
qed

section \<open>Properties\<close>

text \<open>
  C40: A log statement reaches the attached function exactly once, with all of its text in order, however
  often the object is handed on, and whether the function returns or throws; a statement that puts out
  nothing, or is finalised last, never does, and without an attached function nothing happens.
\<close>

theorem log_line_once:
  assumes "prints app"
  shows "log_statement app as g =
    (Inr (), if act_due False as \<and> lg_consumer g \<noteq> None then g\<lparr>lg_lines := lg_lines g @ [act_text as]\<rparr> else g)"
proof -
  obtain l ls where run: "log_run as [IoLogConsumer_DoLog] = l # ls" "log_text l = act_text as"
    "log_available l = act_due False as" "\<forall>k \<in> set ls. \<not> log_available k"
    using log_run_result [of IoLogConsumer_DoLog "[]" as] by (auto simp: IoLogConsumer_DoLog_def IoLog_new_def)
  have "IoLog_destroy app l g =
      (Inr (), if act_due False as \<and> lg_consumer g \<noteq> None then g\<lparr>lg_lines := lg_lines g @ [act_text as]\<rparr> else g)"
  proof (cases "lg_consumer g")
    case None
    with run show ?thesis by (simp add: IoLog_destroy_def IoLogConsumer_Consume_def)
  next
    case (Some c)
    show ?thesis
    proof (cases "log_available l")
      case True
      with destroy_prints [OF assms Some True] run Some show ?thesis by simp
    next
      case False
      with run show ?thesis by (simp add: IoLog_destroy_def)
    qed
  qed
  with run show ?thesis by (simp add: log_statement_def destroy_unavailable)
qed

text \<open>The function of the programs: it prints the text. Here it throws for an empty one.\<close>

definition print_line :: "unit log_app" where
  "print_line c lg = (case lg of (l, g) \<Rightarrow>
     (if log_text l = [] then Inl (RuntimeError ''empty'') else Inr (),
      (l, g\<lparr>lg_lines := lg_lines g @ [IoLog_output l []]\<rparr>)))"

lemma print_line_prints: "prints print_line"
  by (auto simp: prints_def print_line_def)

theorem log_line_once_witness:
  "log_statement print_line [Hand_on, Output ''got '', Output ''12'', Hand_on]
     (IoLogConsumer_AttachLogger (Some ()) \<lparr>lg_consumer = None, lg_lines = []\<rparr>)
   = (Inr (), \<lparr>lg_consumer = Some (), lg_lines = [''got 12'']\<rparr>)"
  using log_line_once [OF print_line_prints] by (simp add: IoLogConsumer_AttachLogger_def)

text \<open>
  A copy prints its text a second time, also one of a log that had nothing to print, and output into it
  goes over the start of the text instead of behind it.
\<close>

lemma copied_log:
  assumes "prints app" and "lg_consumer g = Some c"
  shows "destroy_logs app [IoLog_copy l, l] g =
      (Inr (), g\<lparr>lg_lines := lg_lines g @ [log_text l] @ (if log_available l then [log_text l] else [])\<rparr>)"
    and "length x \<le> length (log_text l) \<Longrightarrow>
      log_text (IoLog_put x (IoLog_copy l)) = x @ drop (length x) (log_text l)"
proof -
  let ?g = "g\<lparr>lg_lines := lg_lines g @ [log_text l]\<rparr>"
  have "IoLog_destroy app (IoLog_copy l) g = (Inr (), ?g)"
    using destroy_prints [OF assms, of "IoLog_copy l"] by (simp add: IoLog_copy_def)
  moreover have "IoLog_destroy app l ?g =
      (Inr (), ?g\<lparr>lg_lines := lg_lines ?g @ (if log_available l then [log_text l] else [])\<rparr>)"
    using destroy_prints [OF assms(1), of ?g c l] assms(2) by (simp add: IoLog_destroy_def)
  ultimately show "destroy_logs app [IoLog_copy l, l] g =
      (Inr (), g\<lparr>lg_lines := lg_lines g @ [log_text l] @ (if log_available l then [log_text l] else [])\<rparr>)"
    by simp
qed (simp add: IoLog_copy_def IoLog_put_def stream_out_def)

text \<open>A move assignment puts the text of the source behind that of the target.\<close>

lemma move_assign_appends:
  "log_put l = length (log_text l) \<Longrightarrow> log_text (fst (IoLog_move_assign l k)) = log_text l @ log_text k"
  by (simp add: IoLog_move_assign_def stream_out_end)

end
