(* ===== verification/EchoServer.thy ===== *)
theory EchoServer
  imports TcpServ
begin

text \<open>
  The echo server over TLS in \<open>EgSslServer.cpp\<close>. Its sessions live on the heap and are owned by nobody
  but the asynchronous operation that is under way for them: each handler either starts the next operation
  or deletes its session.
\<close>

section \<open>State\<close>

text \<open>
  A session has its array of 1024 bytes, indeterminate when it is new, and two histories: the bytes its
  socket received and those it took to send. An operation of boost carries the raw pointer to its session;
  one that is outstanding is a pair of the address and what it does. A write carries the bytes it was given.
  \<open>es_heap\<close> has the sessions that are allocated, \<open>es_fresh\<close> is the next address.
\<close>

record session =
  data :: "byte option list"
  ses_received :: "byte list"
  ses_echoed :: "byte list"

datatype session_op =
    Op_accept
  | Op_handshake
  | Op_read
  | Op_write "byte option list"

record echo_server =
  es_heap :: "nat \<rightharpoonup> session"
  es_fresh :: nat
  es_ops :: "(nat \<times> session_op) list"
  es_context :: "tls_setting list"

definition session_max_length :: nat where
  "session_max_length = 1024"

definition session_new :: session where
  "session_new = \<lparr>data = replicate session_max_length None, ses_received = [], ses_echoed = []\<rparr>"

definition server_new :: echo_server where
  "server_new = \<lparr>es_heap = (\<lambda>_. None), es_fresh = 0, es_ops = [], es_context = []\<rparr>"

section \<open>The class session\<close>

text \<open>A member function called, or a \<open>delete\<close>, through a pointer to a session that is not there any more.\<close>

definition on_session ::
  "nat \<Rightarrow> (session \<Rightarrow> echo_server \<Rightarrow> (unit, echo_server) outcome) \<Rightarrow> echo_server \<Rightarrow> (unit, echo_server) outcome" where
  "on_session i f s =
     (case es_heap s i of None \<Rightarrow> (Inl (Undefined ''use of a deleted session''), s) | Some ses \<Rightarrow> f ses s)"

definition start_op :: "nat \<Rightarrow> session_op \<Rightarrow> echo_server \<Rightarrow> (unit, echo_server) outcome" where
  "start_op i a s = (Inr (), s\<lparr>es_ops := es_ops s @ [(i, a)]\<rparr>)"

definition delete_session :: "nat \<Rightarrow> echo_server \<Rightarrow> (unit, echo_server) outcome" where
  "delete_session i s = on_session i (\<lambda>_ s. (Inr (), s\<lparr>es_heap := (es_heap s)(i := None)\<rparr>)) s"

definition session_start :: "nat \<Rightarrow> echo_server \<Rightarrow> (unit, echo_server) outcome" where
  "session_start i s = on_session i (\<lambda>_. start_op i Op_handshake) s"

definition session_handle_handshake :: "nat \<Rightarrow> error_code \<Rightarrow> echo_server \<Rightarrow> (unit, echo_server) outcome" where
  "session_handle_handshake i error s =
     (if \<not> ec_set error then on_session i (\<lambda>_. start_op i Op_read) s else delete_session i s)"

definition session_handle_read ::
  "nat \<Rightarrow> error_code \<Rightarrow> nat \<Rightarrow> echo_server \<Rightarrow> (unit, echo_server) outcome" where
  "session_handle_read i error bytes_transferred s =
     (if \<not> ec_set error
      then on_session i (\<lambda>ses. start_op i (Op_write (take bytes_transferred (data ses)))) s
      else delete_session i s)"

definition session_handle_write :: "nat \<Rightarrow> error_code \<Rightarrow> echo_server \<Rightarrow> (unit, echo_server) outcome" where
  "session_handle_write i error s =
     (if \<not> ec_set error then on_session i (\<lambda>_. start_op i Op_read) s else delete_session i s)"

section \<open>The class server\<close>

text \<open>The password goes to the OpenSSL library when the private key is loaded.\<close>

definition server_get_password :: string where
  "server_get_password = ''hello''"

definition server_set_context ::
  "(tls_setting list \<Rightarrow> tls_setting \<Rightarrow> fault option) \<Rightarrow> echo_server \<Rightarrow> (unit, echo_server) outcome" where
  "server_set_context throws s =
     (case setup_context throws (es_context s)
             [set_options [default_workarounds, no_sslv2, single_dh_use],
              set_password_callback,
              use_certificate_chain_file ''fd-serv.crt'',
              use_rsa_private_key_file ''fd-rsa-priv.key'',
              use_tmp_dh_file ''dh1024.pem''] of
        Inl f \<Rightarrow> (Inl f, s)
      | Inr context \<Rightarrow> (Inr (), s\<lparr>es_context := context\<rparr>))"

definition server_start_accept :: "echo_server \<Rightarrow> (unit, echo_server) outcome" where
  "server_start_accept s =
     (let new_session = es_fresh s
      in start_op new_session Op_accept
           (s\<lparr>es_heap := (es_heap s)(new_session \<mapsto> session_new), es_fresh := new_session + 1\<rparr>))"

definition server_handle_accept :: "nat \<Rightarrow> error_code \<Rightarrow> echo_server \<Rightarrow> (unit, echo_server) outcome" where
  "server_handle_accept new_session error s =
     and_then (if \<not> ec_set error then session_start new_session s else delete_session new_session s)
       (\<lambda>_. server_start_accept)"

section \<open>Runs\<close>

text \<open>
  An outstanding operation completes, in any order among the sessions, and its handler runs, with the
  outcome \<open>r\<close>. A read that succeeds has put its bytes into the array; a write that succeeds has sent all of
  its bytes, one that fails some first part of them.
\<close>

definition session_upd :: "nat \<Rightarrow> (session \<Rightarrow> session) \<Rightarrow> echo_server \<Rightarrow> echo_server" where
  "session_upd i f s = s\<lparr>es_heap := (es_heap s)(i := map_option f (es_heap s i))\<rparr>"

definition session_fill :: "byte list \<Rightarrow> session \<Rightarrow> session" where
  "session_fill bs ses = ses\<lparr>data := map Some bs @ drop (length bs) (data ses), ses_received := ses_received ses @ bs\<rparr>"

definition session_sent :: "byte option list \<Rightarrow> session \<Rightarrow> session" where
  "session_sent bs ses = ses\<lparr>ses_echoed := ses_echoed ses @ map the bs\<rparr>"

inductive echo_step :: "echo_server \<Rightarrow> (unit, echo_server) outcome \<Rightarrow> bool" where
  accepted: "es_ops s = as @ (i, Op_accept) # bs \<Longrightarrow>
    echo_step s (server_handle_accept i ec (s\<lparr>es_ops := as @ bs\<rparr>))"
| handshaken: "es_ops s = as @ (i, Op_handshake) # bs \<Longrightarrow>
    echo_step s (session_handle_handshake i ec (s\<lparr>es_ops := as @ bs\<rparr>))"
| read: "es_ops s = as @ (i, Op_read) # bs \<Longrightarrow> length xs \<le> session_max_length \<Longrightarrow>
    echo_step s (session_handle_read i no_error (length xs) (session_upd i (session_fill xs) (s\<lparr>es_ops := as @ bs\<rparr>)))"
| read_failed: "es_ops s = as @ (i, Op_read) # bs \<Longrightarrow> ec_set ec \<Longrightarrow>
    echo_step s (session_handle_read i ec n (s\<lparr>es_ops := as @ bs\<rparr>))"
| wrote: "es_ops s = as @ (i, Op_write xs) # bs \<Longrightarrow>
    echo_step s (session_handle_write i no_error (session_upd i (session_sent xs) (s\<lparr>es_ops := as @ bs\<rparr>)))"
| write_failed: "es_ops s = as @ (i, Op_write xs) # bs \<Longrightarrow> ec_set ec \<Longrightarrow>
    echo_step s (session_handle_write i ec (session_upd i (session_sent (take n xs)) (s\<lparr>es_ops := as @ bs\<rparr>)))"

inductive echo_reach :: "echo_server \<Rightarrow> bool" where
  start: "server_start_accept (server_new\<lparr>es_context := context\<rparr>) = (r, s) \<Longrightarrow> echo_reach s"
| step: "echo_reach s \<Longrightarrow> echo_step s (r, s') \<Longrightarrow> echo_reach s'"

section \<open>Ownership\<close>

text \<open>
  What the session of an outstanding operation looks like: before its first read nothing was received;
  while it waits to read everything was echoed; while it writes, what it writes are the received bytes
  that were not echoed yet.
\<close>

fun op_ok :: "session_op \<Rightarrow> session \<Rightarrow> bool" where
  "op_ok Op_accept ses \<longleftrightarrow> ses_received ses = [] \<and> ses_echoed ses = []"
| "op_ok Op_handshake ses \<longleftrightarrow> ses_received ses = [] \<and> ses_echoed ses = []"
| "op_ok Op_read ses \<longleftrightarrow> ses_echoed ses = ses_received ses"
| "op_ok (Op_write xs) ses \<longleftrightarrow> (\<exists>bs. xs = map Some bs \<and> ses_received ses = ses_echoed ses @ bs)"

text \<open>
  The sessions on the heap are those of the outstanding operations, each of exactly one of them. \<open>js\<close>
  are the sessions whose handler is running and that have no operation at the moment.
\<close>

definition owned :: "nat set \<Rightarrow> echo_server \<Rightarrow> bool" where
  "owned js s \<longleftrightarrow> distinct (map fst (es_ops s)) \<and> js \<inter> fst ` set (es_ops s) = {}
     \<and> dom (es_heap s) = js \<union> fst ` set (es_ops s)
     \<and> (\<forall>i \<in> dom (es_heap s). i < es_fresh s)
     \<and> (\<forall>(i, a) \<in> set (es_ops s). \<forall>ses. es_heap s i = Some ses \<longrightarrow> op_ok a ses)"

definition accepts :: "echo_server \<Rightarrow> nat" where
  "accepts s = length (filter (\<lambda>(i, a). a = Op_accept) (es_ops s))"

lemma owned_take:
  assumes "owned {} s" and "es_ops s = as @ (i, a) # bs"
  obtains ses where "es_heap s i = Some ses" and "op_ok a ses" and "owned {i} (s\<lparr>es_ops := as @ bs\<rparr>)"
proof -
  have "i \<in> dom (es_heap s)" using assms by (simp add: owned_def)
  then obtain ses where ses: "es_heap s i = Some ses" by auto
  moreover have "op_ok a ses" using assms ses by (simp add: owned_def)
  moreover have "owned {i} (s\<lparr>es_ops := as @ bs\<rparr>)"
    using assms unfolding owned_def by (intro conjI) auto
  ultimately show thesis by (rule that)
qed

lemma session_upd_frame [simp]:
  "es_ops (session_upd i f s) = es_ops s" "es_fresh (session_upd i f s) = es_fresh s"
  "dom (es_heap (session_upd i f s)) = dom (es_heap s)"
  "j \<noteq> i \<Longrightarrow> es_heap (session_upd i f s) j = es_heap s j"
  "es_heap (session_upd i f s) i = map_option f (es_heap s i)"
  by (auto simp: session_upd_def split: if_splits)

lemma owned_op_ok:
  "owned js s \<Longrightarrow> (j, a) \<in> set (es_ops s) \<Longrightarrow> es_heap s j = Some ses \<Longrightarrow> op_ok a ses"
  unfolding owned_def by blast

lemma owned_upd:
  assumes "owned {i} s"
  shows "owned {i} (session_upd i f s)"
proof -
  have "i \<notin> fst ` set (es_ops s)" using assms by (simp add: owned_def)
  then have same: "es_heap (session_upd i f s) j = es_heap s j" if "(j, a) \<in> set (es_ops s)" for j a
    using that by (intro session_upd_frame) force
  have "\<forall>(j, a) \<in> set (es_ops s). \<forall>ses. es_heap (session_upd i f s) j = Some ses \<longrightarrow> op_ok a ses"
  proof clarify
    fix j a ses
    assume "(j, a) \<in> set (es_ops s)" and "es_heap (session_upd i f s) j = Some ses"
    with same owned_op_ok [OF assms] show "op_ok a ses" by metis
  qed
  with assms show ?thesis unfolding owned_def session_upd_frame by blast
qed

lemma owned_delete:
  assumes "owned {i} s"
  obtains s' where "delete_session i s = (Inr (), s')" and "owned {} s'" and "es_ops s' = es_ops s"
proof -
  have "i \<in> dom (es_heap s)" using assms by (auto simp: owned_def)
  then obtain ses where ses: "es_heap s i = Some ses" by auto
  show thesis
    by (rule that [of "s\<lparr>es_heap := (es_heap s)(i := None)\<rparr>"])
      (use assms ses in \<open>auto simp: delete_session_def on_session_def owned_def split: if_splits\<close>)
qed

lemma owned_start_op:
  assumes "owned {i} s" and "es_heap s i = Some ses" and "op_ok a ses"
  shows "owned {} (s\<lparr>es_ops := es_ops s @ [(i, a)]\<rparr>)"
  using assms by (auto simp: owned_def)

text \<open>Starting an accept makes a new session, which the accept owns.\<close>

lemma owned_start_accept:
  assumes "owned {} s"
  obtains s' where "server_start_accept s = (Inr (), s')" and "owned {} s'" and "accepts s' = accepts s + 1"
proof -
  let ?i = "es_fresh s"
  let ?s = "s\<lparr>es_heap := (es_heap s)(?i \<mapsto> session_new), es_fresh := ?i + 1\<rparr>"
  have d: "dom (es_heap s) = fst ` set (es_ops s)" and dist: "distinct (map fst (es_ops s))"
    and below: "\<And>j. j \<in> dom (es_heap s) \<Longrightarrow> j < ?i"
    using assms unfolding owned_def by blast+
  have fresh: "?i \<notin> dom (es_heap s)" using below by blast
  have ops: "es_ops ?s = es_ops s" and dom': "dom (es_heap ?s) = {?i} \<union> fst ` set (es_ops s)"
    and free: "{?i} \<inter> fst ` set (es_ops s) = {}" and below': "\<forall>j \<in> dom (es_heap ?s). j < es_fresh ?s"
    using fresh below by (auto simp: d less_Suc_eq)
  have ok: "\<forall>(j, a) \<in> set (es_ops s). \<forall>ses. es_heap ?s j = Some ses \<longrightarrow> op_ok a ses"
  proof clarify
    fix j a ses
    assume in_ops: "(j, a) \<in> set (es_ops s)" and h: "es_heap ?s j = Some ses"
    then have "j \<in> dom (es_heap s)" unfolding d by force
    with fresh h have "es_heap s j = Some ses" by (cases "j = ?i") auto
    with owned_op_ok [OF assms in_ops] show "op_ok a ses" .
  qed
  have "owned {?i} ?s"
    unfolding owned_def ops using dist free dom' below' ok by (intro conjI)
  then have "owned {} (?s\<lparr>es_ops := es_ops ?s @ [(?i, Op_accept)]\<rparr>)"
    by (rule owned_start_op [where ses = session_new]) (simp_all add: session_new_def)
  then show thesis
    by (intro that [of "?s\<lparr>es_ops := es_ops ?s @ [(?i, Op_accept)]\<rparr>"])
      (simp_all add: server_start_accept_def start_op_def accepts_def Let_def)
qed

text \<open>A handler that goes on or ends its session.\<close>

lemma owned_handler:
  assumes "owned {i} s" and "es_heap s i = Some ses" and "\<not> ec_set ec \<Longrightarrow> op_ok a ses" and "a \<noteq> Op_accept"
  obtains s' where "(if \<not> ec_set ec then on_session i (\<lambda>_. start_op i a) s else delete_session i s) = (Inr (), s')"
    and "owned {} s'" and "accepts s' = accepts s"
proof (cases "ec_set ec")
  case True
  obtain s' where "delete_session i s = (Inr (), s')" "owned {} s'" "es_ops s' = es_ops s"
    by (rule owned_delete [OF assms(1)])
  with True show thesis by (intro that [of s']) (simp_all add: accepts_def)
next
  case False
  with owned_start_op [OF assms(1,2)] assms(2-4) show thesis
    by (intro that [of "s\<lparr>es_ops := es_ops s @ [(i, a)]\<rparr>"])
      (auto simp: on_session_def start_op_def accepts_def)
qed

section \<open>Every step\<close>

inductive_cases echo_stepE [consumes 1, case_names accepted handshaken read read_failed wrote write_failed]:
  "echo_step s (r, s')"

lemma map_the_Some [simp]: "map the (map Some xs) = xs"
  by (induction xs) auto

lemma accepts_take [simp]:
  "es_ops s = as @ (i, a) # bs \<Longrightarrow> accepts s = accepts (s\<lparr>es_ops := as @ bs\<rparr>) + (if a = Op_accept then 1 else 0)"
  by (simp add: accepts_def)

lemma accepts_upd [simp]: "accepts (session_upd i f s) = accepts s"
  by (simp add: accepts_def)

lemma echo_step_owned:
  assumes "echo_step s (r, s')" and "owned {} s"
  shows "r = Inr () \<and> owned {} s' \<and> accepts s' = accepts s"
  using assms(1)
proof (cases rule: echo_stepE)
  case (accepted as i bs ec)
  let ?t = "s\<lparr>es_ops := as @ bs\<rparr>"
  obtain ses where t: "es_heap s i = Some ses" "op_ok Op_accept ses" "owned {i} ?t"
    by (rule owned_take [OF assms(2) accepted(2)])
  obtain u where u: "(if \<not> ec_set ec then on_session i (\<lambda>_. start_op i Op_handshake) ?t else delete_session i ?t) = (Inr (), u)"
    "owned {} u" "accepts u = accepts ?t"
    by (rule owned_handler [OF t(3), where ec = ec and a = Op_handshake]) (use t in auto)
  obtain v where "server_start_accept u = (Inr (), v)" "owned {} v" "accepts v = accepts u + 1"
    by (rule owned_start_accept [OF u(2)])
  with u accepted show ?thesis by (auto simp: server_handle_accept_def session_start_def split: if_splits)
next
  case (handshaken as i bs ec)
  let ?t = "s\<lparr>es_ops := as @ bs\<rparr>"
  obtain ses where t: "es_heap s i = Some ses" "op_ok Op_handshake ses" "owned {i} ?t"
    by (rule owned_take [OF assms(2) handshaken(2)])
  obtain u where u: "(if \<not> ec_set ec then on_session i (\<lambda>_. start_op i Op_read) ?t else delete_session i ?t) = (Inr (), u)"
    "owned {} u" "accepts u = accepts ?t"
    by (rule owned_handler [OF t(3), where ec = ec and a = Op_read]) (use t in auto)
  with handshaken show ?thesis by (auto simp: session_handle_handshake_def split: if_splits)
next
  case (read as i bs xs)
  let ?t = "s\<lparr>es_ops := as @ bs\<rparr>"
  obtain ses where t: "es_heap s i = Some ses" "op_ok Op_read ses" "owned {i} ?t"
    by (rule owned_take [OF assms(2) read(2)])
  let ?u = "session_upd i (session_fill xs) ?t"
  have h: "es_heap ?u i = Some (session_fill xs ses)" using t by simp
  have ok: "op_ok (Op_write (map Some xs)) (session_fill xs ses)" using t by (simp add: session_fill_def)
  obtain v where v: "(if \<not> ec_set no_error then on_session i (\<lambda>_. start_op i (Op_write (map Some xs))) ?u
      else delete_session i ?u) = (Inr (), v)" "owned {} v" "accepts v = accepts ?u"
    by (rule owned_handler [OF owned_upd [OF t(3)] h ok]) simp
  have "session_handle_read i no_error (length xs) ?u = (Inr (), v)"
    using v(1) t(1) by (simp add: session_handle_read_def on_session_def session_fill_def)
  with v read show ?thesis by simp
next
  case (read_failed as i bs ec n)
  let ?t = "s\<lparr>es_ops := as @ bs\<rparr>"
  obtain ses where t: "owned {i} ?t"
    by (rule owned_take [OF assms(2) read_failed(2)])
  obtain u where "delete_session i ?t = (Inr (), u)" "owned {} u" "es_ops u = es_ops ?t"
    by (rule owned_delete [OF t])
  with read_failed show ?thesis by (simp add: session_handle_read_def) (simp add: accepts_def)
next
  case (wrote as i xs bs)
  let ?t = "s\<lparr>es_ops := as @ bs\<rparr>"
  obtain ses where t: "es_heap s i = Some ses" "op_ok (Op_write xs) ses" "owned {i} ?t"
    by (rule owned_take [OF assms(2) wrote(2)])
  let ?u = "session_upd i (session_sent xs) ?t"
  have h: "es_heap ?u i = Some (session_sent xs ses)" using t by simp
  have ok: "op_ok Op_read (session_sent xs ses)" using t by (auto simp: session_sent_def simp del: list.map_comp map_map)
  obtain v where v: "(if \<not> ec_set no_error then on_session i (\<lambda>_. start_op i Op_read) ?u
      else delete_session i ?u) = (Inr (), v)" "owned {} v" "accepts v = accepts ?u"
    by (rule owned_handler [OF owned_upd [OF t(3)] h ok]) simp
  with wrote show ?thesis by (simp add: session_handle_write_def)
next
  case (write_failed as i xs bs ec n)
  let ?t = "s\<lparr>es_ops := as @ bs\<rparr>"
  obtain ses where t: "owned {i} ?t"
    by (rule owned_take [OF assms(2) write_failed(2)])
  obtain u where "delete_session i (session_upd i (session_sent (take n xs)) ?t) = (Inr (), u)" "owned {} u"
    "es_ops u = es_ops (session_upd i (session_sent (take n xs)) ?t)"
    by (rule owned_delete [OF owned_upd [OF t]])
  with write_failed show ?thesis by (simp add: session_handle_write_def) (simp add: accepts_def)
qed

lemma owned_new: "owned {} (server_new\<lparr>es_context := context\<rparr>)"
  by (simp add: owned_def server_new_def)

lemma echo_reach_owned: "echo_reach s \<Longrightarrow> owned {} s \<and> accepts s = 1"
proof (induction rule: echo_reach.induct)
  case (start ctx r s)
  obtain t where "server_start_accept (server_new\<lparr>es_context := ctx\<rparr>) = (Inr (), t)" "owned {} t"
    "accepts t = accepts (server_new\<lparr>es_context := ctx\<rparr>) + 1"
    by (rule owned_start_accept [OF owned_new])
  with start show ?case by (simp add: accepts_def server_new_def)
next
  case (step s r s')
  with echo_step_owned [OF step.hyps(2)] show ?case by simp
qed

section \<open>Properties\<close>

text \<open>
  C29: Nobody owns a session but its operation, and this suffices: in every run the allocated sessions are
  those of the outstanding operations, each of one of them, and exactly one is being accepted. So no
  session leaks, none is deleted twice, and no handler ever touches a session that was deleted.
\<close>

theorem echo_sessions_owned:
  assumes "echo_reach s"
  shows "distinct (map fst (es_ops s)) \<and> dom (es_heap s) = fst ` set (es_ops s) \<and> accepts s = 1
    \<and> (\<forall>r s'. echo_step s (r, s') \<longrightarrow> r = Inr ())"
proof -
  have own: "owned {} s" and acc: "accepts s = 1" using echo_reach_owned [OF assms] by simp_all
  from own have "distinct (map fst (es_ops s))" "dom (es_heap s) = fst ` set (es_ops s)"
    by (simp_all add: owned_def)
  moreover have "r = Inr ()" if "echo_step s (r, s')" for r s'
    using echo_step_owned [OF that own] by simp
  ultimately show ?thesis using acc by blast
qed

text \<open>A client has connected, shaken hands and sent two bytes; the next one is awaited.\<close>

definition ex_echo :: echo_server where
  "ex_echo = \<lparr>es_heap = (\<lambda>_. None)(0 := Some (session_fill [104, 105] session_new), 1 := Some session_new), es_fresh = 2,
     es_ops = [(1, Op_accept), (0, Op_write [Some 104, Some 105])], es_context = []\<rparr>"

lemmas echo_eval = server_start_accept_def server_handle_accept_def session_handle_handshake_def
  session_handle_read_def session_handle_write_def session_start_def on_session_def start_op_def
  session_upd_def session_fill_def server_new_def Let_def

text \<open>The server has one session being accepted; then that one shakes hands; then it reads.\<close>

definition ex_echo_at :: "(nat \<times> session_op) list \<Rightarrow> echo_server" where
  "ex_echo_at ops = \<lparr>es_heap = (\<lambda>_. None)(0 := Some session_new, 1 := Some session_new), es_fresh = 2,
     es_ops = ops, es_context = []\<rparr>"

lemma ex_echo_accepted: "echo_reach (ex_echo_at [(0, Op_handshake), (1, Op_accept)])"
proof -
  let ?s = "\<lparr>es_heap = (\<lambda>_. None)(0 := Some session_new), es_fresh = 1, es_ops = [(0, Op_accept)], es_context = []\<rparr>"
  have "server_start_accept (server_new\<lparr>es_context := []\<rparr>) = (Inr (), ?s)"
    by (simp add: echo_eval)
  then have "echo_reach ?s" by (rule echo_reach.start)
  moreover have "echo_step ?s (Inr (), ex_echo_at [(0, Op_handshake), (1, Op_accept)])"
    using echo_step.accepted [of ?s "[]" 0 "[]" no_error] by (simp add: echo_eval ex_echo_at_def numeral_2_eq_2)
  ultimately show ?thesis by (rule echo_reach.step)
qed

lemma ex_echo_shaken: "echo_reach (ex_echo_at [(1, Op_accept), (0, Op_read)])"
  using echo_step.handshaken [of "ex_echo_at [(0, Op_handshake), (1, Op_accept)]" "[]" 0 "[(1, Op_accept)]" no_error]
  by (intro echo_reach.step [OF ex_echo_accepted, of "Inr ()"]) (simp add: echo_eval ex_echo_at_def)

lemma ex_echo_reach: "echo_reach ex_echo"
proof (rule echo_reach.step [OF ex_echo_shaken])
  have "length [104 :: byte, 105] \<le> session_max_length" by (simp add: session_max_length_def)
  then show "echo_step (ex_echo_at [(1, Op_accept), (0, Op_read)]) (Inr (), ex_echo)"
    using echo_step.read [of "ex_echo_at [(1, Op_accept), (0, Op_read)]" "[(1, Op_accept)]" 0 "[]" "[104, 105]"]
    by (simp add: echo_eval ex_echo_def ex_echo_at_def fun_upd_twist)
qed

theorem echo_sessions_owned_witness:
  "dom (es_heap ex_echo) = {0, 1} \<and> accepts ex_echo = 1"
  using echo_sessions_owned [OF ex_echo_reach] by (auto simp: ex_echo_def)

text \<open>
  A session echoes exactly what it received: the bytes it sent are a first part of the bytes received,
  all of them while it waits to read again, and what a write under way was given is the rest, none of it
  indeterminate.
\<close>

lemma echo_returns_received:
  assumes "echo_reach s" and "(i, a) \<in> set (es_ops s)"
  shows "\<exists>ses bs. es_heap s i = Some ses \<and> ses_received ses = ses_echoed ses @ bs
    \<and> (case a of Op_write xs \<Rightarrow> xs = map Some bs | _ \<Rightarrow> bs = [])"
proof -
  have own: "owned {} s" using echo_reach_owned [OF assms(1)] by simp
  then have "i \<in> dom (es_heap s)" using assms(2) unfolding owned_def by force
  then obtain ses where ses: "es_heap s i = Some ses" by blast
  from owned_op_ok [OF own assms(2) ses] ses show ?thesis by (cases a) auto
qed

lemma echo_returns_received_witness:
  "\<exists>ses. es_heap ex_echo 0 = Some ses \<and> ses_received ses = ses_echoed ses @ [104, 105]"
  using echo_returns_received [OF ex_echo_reach, of 0 "Op_write [Some 104, Some 105]"]
  by (auto simp: ex_echo_def)

end
