(* ===== verification/UnixClient.thy ===== *)
theory UnixClient
  imports IoTimers
begin

text \<open>
  The client program's connection wrapper \<open>UnixDomainClient/ClientUnixConnection.cpp\<close> and the manager
  of such connections, \<open>UnixDomainClient/UnixConnectionManager.cpp\<close>. Each connection has a thread of
  its own that waits, in turn, for the connect, for an error or a stop, and for the error that closing
  brings; the callbacks of the I/O services hand it what it waits for through two promises.
\<close>

section \<open>A connection\<close>

text \<open>
  \<open>uc_phase\<close> is where the thread of the connection is: in the three waits of \<open>RunOnce\<close> or before and
  after them. A stream handle is a number; a callback may be given none. \<open>uc_connPromise\<close> and
  \<open>uc_errPromise\<close> say whether the promises are satisfied, \<open>uc_futures\<close> whether their futures were taken,
  \<open>uc_task\<close> whether the future of the thread is valid. What is called on handles is recorded:
  \<open>uc_closed\<close> has the handles that were closed, \<open>uc_consumed\<close> what was consumed from which. Times are
  whole seconds, the epoch is 0. A member function is one step, as is each part of the thread between
  two waits.
\<close>

datatype work_phase =
    Not_started
  | Begun
  | Await_connect
  | Await_error
  | Await_close
  | Finished bool

record unix_client =
  uc_path :: string
  uc_shouldRun :: bool
  uc_ioError :: bool
  uc_expired :: bool
  uc_conn :: "nat option"
  uc_connPromise :: "nat option option"
  uc_errPromise :: bool
  uc_futures :: bool
  uc_task :: bool
  uc_heartbeat :: int
  uc_phase :: work_phase
  uc_closed :: "nat list"
  uc_consumed :: "(nat \<times> int) list"

definition ClientUnixConnection_new :: "string \<Rightarrow> unix_client" where
  "ClientUnixConnection_new path =
     \<lparr>uc_path = path, uc_shouldRun = False, uc_ioError = False, uc_expired = False, uc_conn = None,
      uc_connPromise = None, uc_errPromise = False, uc_futures = False, uc_task = False, uc_heartbeat = 0,
      uc_phase = Not_started, uc_closed = [], uc_consumed = []\<rparr>"

definition ClientUnixConnection_Start :: "int \<Rightarrow> unix_client \<Rightarrow> unix_client" where
  "ClientUnixConnection_Start now c =
     c\<lparr>uc_shouldRun := True, uc_heartbeat := now, uc_task := True, uc_phase := Begun\<rparr>"

definition ClientUnixConnection_Expired :: "unix_client \<Rightarrow> bool" where
  "ClientUnixConnection_Expired c = uc_expired c"

definition ClientUnixConnection_GetTimeLastHeartbeat :: "unix_client \<Rightarrow> int" where
  "ClientUnixConnection_GetTimeLastHeartbeat c = uc_heartbeat c"

text \<open>Satisfying a promise a second time throws.\<close>

definition ClientUnixConnection_SetConnection ::
  "string \<Rightarrow> nat option \<Rightarrow> unix_client \<Rightarrow> (unit, unix_client) outcome" where
  "ClientUnixConnection_SetConnection path conn c =
     (if uc_conn c \<noteq> None then (Inr (), c)
      else if path \<noteq> uc_path c then (Inr (), c)
      else if uc_connPromise c \<noteq> None then (Inl (FutureError ''Promise already satisfied''), c)
      else (Inr (), c\<lparr>uc_connPromise := Some conn\<rparr>))"

definition ClientUnixConnection_SetError ::
  "string \<Rightarrow> nat option \<Rightarrow> string \<Rightarrow> unix_client \<Rightarrow> (unit, unix_client) outcome" where
  "ClientUnixConnection_SetError path conn msg c =
     (if uc_conn c = None then (Inr (), c)
      else if uc_conn c \<noteq> conn then (Inr (), c)
      else if path \<noteq> uc_path c then (Inr (), c)
      else if uc_errPromise c then (Inl (FutureError ''Promise already satisfied''), c)
      else (Inr (), c\<lparr>uc_errPromise := True, uc_ioError := True\<rparr>))"

text \<open>
  \<open>Stop\<close> first asks the thread to end and then waits for it: the second part happens once the thread
  has finished, and a second \<open>get\<close> on its future throws.
\<close>

definition ClientUnixConnection_Stop_request :: "unix_client \<Rightarrow> unix_client" where
  "ClientUnixConnection_Stop_request c = c\<lparr>uc_shouldRun := False\<rparr>"

definition ClientUnixConnection_Stop_join :: "unix_client \<Rightarrow> (bool, unix_client) outcome option" where
  "ClientUnixConnection_Stop_join c =
     (if \<not> uc_task c then Some (Inl (FutureError ''No associated state''), c)
      else case uc_phase c of
             Finished ok \<Rightarrow> Some (Inr ok, c\<lparr>uc_task := False\<rparr>)
           | _ \<Rightarrow> None)"

text \<open>
  The destructor stops the connection and drops an exception of \<open>Stop\<close>, which it gets when the
  connection was stopped before or never started; \<open>None\<close> while it still waits for the thread.
\<close>

definition ClientUnixConnection_destroy :: "unix_client \<Rightarrow> unix_client option" where
  "ClientUnixConnection_destroy c =
     map_option snd (ClientUnixConnection_Stop_join (ClientUnixConnection_Stop_request c))"

text \<open>The read callback, which takes what is available off the handle it was called with.\<close>

definition client_reader :: "int \<Rightarrow> nat \<Rightarrow> int \<Rightarrow> unix_client \<Rightarrow> unix_client" where
  "client_reader now conn avail c = c\<lparr>uc_heartbeat := now, uc_consumed := uc_consumed c @ [(conn, avail)]\<rparr>"

section \<open>The thread\<close>

text \<open>
  \<open>Work\<close> runs \<open>RunOnce\<close>, turns an exception into the result false and marks the connection expired.
  \<open>RunOnce\<close> is cut at its waits: what it does before the first one, what it does when each of them
  returns. \<open>wait_for\<close> on a future times out only while its promise is not satisfied. The first part
  calls \<open>AsyncConnect\<close>, which may throw \<open>f\<close>.
\<close>

definition ClientUnixConnection_Work_end :: "bool \<Rightarrow> unix_client \<Rightarrow> unix_client" where
  "ClientUnixConnection_Work_end ok c = c\<lparr>uc_expired := True, uc_phase := Finished ok\<rparr>"

definition RunOnce_begin :: "fault option \<Rightarrow> unix_client \<Rightarrow> unix_client" where
  "RunOnce_begin f c =
     (if uc_futures c then ClientUnixConnection_Work_end False c
      else let c1 = c\<lparr>uc_futures := True\<rparr>
           in case f of Some t \<Rightarrow> ClientUnixConnection_Work_end False c1
                      | None \<Rightarrow> c1\<lparr>uc_phase := Await_connect\<rparr>)"

definition RunOnce_connect_timeout :: "unix_client \<Rightarrow> unix_client" where
  "RunOnce_connect_timeout c = ClientUnixConnection_Work_end False c"

definition RunOnce_connected :: "nat option \<Rightarrow> unix_client \<Rightarrow> unix_client" where
  "RunOnce_connected conn c = c\<lparr>uc_conn := conn, uc_phase := Await_error\<rparr>"

definition RunOnce_predicate :: "unix_client \<Rightarrow> bool" where
  "RunOnce_predicate c \<longleftrightarrow> \<not> uc_shouldRun c \<or> uc_ioError c"

definition RunOnce_woken :: "unix_client \<Rightarrow> unix_client" where
  "RunOnce_woken c =
     (let c1 = (if \<not> uc_ioError c
                then case uc_conn c of None \<Rightarrow> c | Some conn \<Rightarrow> c\<lparr>uc_closed := uc_closed c @ [conn]\<rparr>
                else c)
      in c1\<lparr>uc_phase := Await_close\<rparr>)"

definition RunOnce_end :: "bool \<Rightarrow> unix_client \<Rightarrow> unix_client" where
  "RunOnce_end ready c = ClientUnixConnection_Work_end ready c"

text \<open>What can happen to a connection, from its thread and from the outside.\<close>

datatype client_action =
    Act_start int
  | Act_begin "fault option"
  | Act_connect_timeout
  | Act_connect_ready
  | Act_wake
  | Act_close_ready
  | Act_close_timeout
  | Act_set_connection string "nat option"
  | Act_set_error string "nat option" string
  | Act_read int nat int
  | Act_stop
  | Act_join

inductive unix_act :: "client_action \<Rightarrow> unix_client \<Rightarrow> unix_client \<Rightarrow> bool" where
  start: "uc_phase c = Not_started \<Longrightarrow> unix_act (Act_start now) c (ClientUnixConnection_Start now c)"
| begin_run: "uc_phase c = Begun \<Longrightarrow> unix_act (Act_begin f) c (RunOnce_begin f c)"
| connect_timeout: "uc_phase c = Await_connect \<Longrightarrow> uc_connPromise c = None \<Longrightarrow>
    unix_act Act_connect_timeout c (RunOnce_connect_timeout c)"
| connect_ready: "uc_phase c = Await_connect \<Longrightarrow> uc_connPromise c = Some conn \<Longrightarrow>
    unix_act Act_connect_ready c (RunOnce_connected conn c)"
| wake: "uc_phase c = Await_error \<Longrightarrow> RunOnce_predicate c \<Longrightarrow> unix_act Act_wake c (RunOnce_woken c)"
| close_ready: "uc_phase c = Await_close \<Longrightarrow> uc_errPromise c \<Longrightarrow> unix_act Act_close_ready c (RunOnce_end True c)"
| close_timeout: "uc_phase c = Await_close \<Longrightarrow> \<not> uc_errPromise c \<Longrightarrow>
    unix_act Act_close_timeout c (RunOnce_end False c)"
| set_connection: "ClientUnixConnection_SetConnection path conn c = (r, c') \<Longrightarrow>
    unix_act (Act_set_connection path conn) c c'"
| set_error: "ClientUnixConnection_SetError path conn msg c = (r, c') \<Longrightarrow>
    unix_act (Act_set_error path conn msg) c c'"
| read: "unix_act (Act_read now conn avail) c (client_reader now conn avail c)"
| stop: "unix_act Act_stop c (ClientUnixConnection_Stop_request c)"
| join: "ClientUnixConnection_Stop_join c = Some (r, c') \<Longrightarrow> unix_act Act_join c c'"

fun unix_run :: "client_action list \<Rightarrow> unix_client \<Rightarrow> unix_client \<Rightarrow> bool" where
  "unix_run [] c c' \<longleftrightarrow> c' = c"
| "unix_run (a # as) c c' \<longleftrightarrow> (\<exists>d. unix_act a c d \<and> unix_run as d c')"

lemmas unix_client_defs =
  ClientUnixConnection_Start_def ClientUnixConnection_SetConnection_def ClientUnixConnection_SetError_def
  ClientUnixConnection_Stop_request_def ClientUnixConnection_Stop_join_def client_reader_def
  ClientUnixConnection_Work_end_def RunOnce_begin_def RunOnce_connect_timeout_def RunOnce_connected_def
  RunOnce_woken_def RunOnce_end_def

section \<open>Invariants\<close>

text \<open>
  The connection is expired exactly when its thread has finished; the result true means that an error
  was reported for the connection; a handle is stored only after the promise brought it, from then until
  the thread has finished; and an error is marked together with its promise.
\<close>

fun phase_ok :: "work_phase \<Rightarrow> unix_client \<Rightarrow> bool" where
  "phase_ok Not_started c \<longleftrightarrow> \<not> uc_expired c \<and> uc_conn c = None \<and> \<not> uc_errPromise c \<and> uc_closed c = []
     \<and> \<not> uc_task c \<and> \<not> uc_futures c"
| "phase_ok Begun c \<longleftrightarrow> \<not> uc_expired c \<and> uc_conn c = None \<and> \<not> uc_errPromise c \<and> uc_closed c = [] \<and> \<not> uc_futures c"
| "phase_ok Await_connect c \<longleftrightarrow> \<not> uc_expired c \<and> uc_conn c = None \<and> \<not> uc_errPromise c \<and> uc_closed c = []"
| "phase_ok Await_error c \<longleftrightarrow> \<not> uc_expired c \<and> uc_connPromise c = Some (uc_conn c)
     \<and> (uc_errPromise c \<longrightarrow> uc_conn c \<noteq> None) \<and> uc_closed c = []"
| "phase_ok Await_close c \<longleftrightarrow> \<not> uc_expired c \<and> uc_connPromise c = Some (uc_conn c)
     \<and> (uc_errPromise c \<longrightarrow> uc_conn c \<noteq> None) \<and> (\<forall>h \<in> set (uc_closed c). uc_conn c = Some h) \<and> length (uc_closed c) \<le> 1"
| "phase_ok (Finished ok) c \<longleftrightarrow> uc_expired c \<and> (uc_errPromise c \<longrightarrow> uc_conn c \<noteq> None) \<and> (ok \<longrightarrow> uc_errPromise c)
     \<and> (uc_conn c \<noteq> None \<longrightarrow> uc_connPromise c = Some (uc_conn c)) \<and> (\<forall>h \<in> set (uc_closed c). uc_conn c = Some h)
     \<and> length (uc_closed c) \<le> 1"

definition unix_client_ok :: "unix_client \<Rightarrow> bool" where
  "unix_client_ok c \<longleftrightarrow> (uc_errPromise c \<longleftrightarrow> uc_ioError c) \<and> phase_ok (uc_phase c) c"

lemma unix_act_ok:
  assumes "unix_act a c c'" and "unix_client_ok c"
  shows "unix_client_ok c'"
  using assms(1)
proof cases
  case (wake)
  then show ?thesis using assms(2)
    by (cases "uc_conn c") (auto simp: unix_client_ok_def RunOnce_woken_def Let_def)
next
  case (set_connection path conn r)
  then show ?thesis using assms(2)
    by (cases "uc_phase c") (auto simp: unix_client_ok_def ClientUnixConnection_SetConnection_def split: if_splits)
next
  case (set_error path conn msg r)
  then show ?thesis using assms(2)
    by (cases "uc_phase c") (auto simp: unix_client_ok_def ClientUnixConnection_SetError_def split: if_splits)
next
  case (read now conn avail)
  then show ?thesis using assms(2)
    by (cases "uc_phase c") (auto simp: unix_client_ok_def client_reader_def)
next
  case stop
  then show ?thesis using assms(2)
    by (cases "uc_phase c") (auto simp: unix_client_ok_def ClientUnixConnection_Stop_request_def)
next
  case (join r)
  then show ?thesis using assms(2)
    by (cases "uc_phase c") (auto simp: unix_client_ok_def ClientUnixConnection_Stop_join_def split: if_splits)
next
  case (begin_run f)
  then show ?thesis using assms(2)
    by (cases f) (auto simp: unix_client_ok_def RunOnce_begin_def ClientUnixConnection_Work_end_def Let_def)
qed (use assms(2) in \<open>auto simp: unix_client_ok_def unix_client_defs\<close>)

lemma unix_run_ok: "unix_run as c c' \<Longrightarrow> unix_client_ok c \<Longrightarrow> unix_client_ok c'"
  by (induction as arbitrary: c) (auto dest: unix_act_ok)

lemma unix_run_append: "unix_run as c d \<Longrightarrow> unix_run bs d d' \<Longrightarrow> unix_run (as @ bs) c d'"
  by (induction as arbitrary: c) auto

lemma unix_act_path: "unix_act a c c' \<Longrightarrow> uc_path c' = uc_path c"
  by (cases rule: unix_act.cases) (auto simp: unix_client_defs Let_def split: if_splits option.splits work_phase.splits)

lemma unix_run_path: "unix_run as c c' \<Longrightarrow> uc_path c' = uc_path c"
  by (induction as arbitrary: c) (auto dest: unix_act_path)

lemma unix_new_ok [simp]: "unix_client_ok (ClientUnixConnection_new path)"
  by (simp add: unix_client_ok_def ClientUnixConnection_new_def)

text \<open>
  What the promises hold came through a callback: the stored handle with a connect callback for the
  path of the connection, the error with an error callback for that path and the stored handle.
\<close>

definition history_ok :: "client_action list \<Rightarrow> unix_client \<Rightarrow> bool" where
  "history_ok as c \<longleftrightarrow>
     (\<forall>conn. uc_connPromise c = Some conn \<longrightarrow> Act_set_connection (uc_path c) conn \<in> set as)
     \<and> (uc_errPromise c \<longrightarrow> (\<exists>msg. Act_set_error (uc_path c) (uc_conn c) msg \<in> set as))"

lemma unix_act_history:
  assumes "unix_act a c c'" and "unix_client_ok c" and "history_ok as c"
  shows "history_ok (as @ [a]) c'"
  using assms(1)
proof cases
  case (connect_ready conn)
  then show ?thesis using assms(2,3) by (auto simp: history_ok_def unix_client_ok_def RunOnce_connected_def)
next
  case wake
  then show ?thesis using assms(3)
    by (cases "uc_conn c") (auto simp: history_ok_def RunOnce_woken_def Let_def)
next
  case (begin_run f)
  then show ?thesis using assms(3)
    by (cases f) (auto simp: history_ok_def RunOnce_begin_def ClientUnixConnection_Work_end_def Let_def)
next
  case (join r)
  then show ?thesis using assms(3)
    by (cases "uc_phase c") (auto simp: history_ok_def ClientUnixConnection_Stop_join_def split: if_splits)
qed (use assms(3) in \<open>auto simp: history_ok_def unix_client_defs split: if_splits\<close>)

lemma unix_run_history:
  "unix_run as c c' \<Longrightarrow> unix_client_ok c \<Longrightarrow> history_ok bs c \<Longrightarrow> history_ok (bs @ as) c'"
proof (induction as arbitrary: bs c)
  case (Cons a as)
  then obtain d where d: "unix_act a c d" "unix_run as d c'" by auto
  from Cons.IH [OF d(2) unix_act_ok [OF d(1) Cons.prems(2)] unix_act_history [OF d(1) Cons.prems(2,3)]]
  show ?case by simp
qed simp

lemma unix_new_history:
  assumes "unix_run as (ClientUnixConnection_new path) c"
  shows "history_ok as c" and "uc_path c = path"
  using unix_run_history [OF assms unix_new_ok, of "[]"] unix_run_path [OF assms]
  by (simp_all add: history_ok_def ClientUnixConnection_new_def)

section \<open>The manager\<close>

text \<open>
  The map of connections by their path, under a mutex that every function holds from beginning to end:
  none of them calls another, and starting a connection only makes its thread. The handler of the
  heartbeat timer, which takes no lock, reports the connections that were silent for too long.
\<close>

record manager =
  mg_connections :: "string \<rightharpoonup> unix_client"
  mg_heartbeatTimeout :: int

definition UnixConnectionManager_new :: "int \<Rightarrow> manager" where
  "UnixConnectionManager_new heartbeatTimeout =
     \<lparr>mg_connections = (\<lambda>_. None), mg_heartbeatTimeout = heartbeatTimeout\<rparr>"

text \<open>Stopping the manager does nothing: its connections go on.\<close>

definition UnixConnectionManager_Stop :: "manager \<Rightarrow> manager" where
  "UnixConnectionManager_Stop m = m"

definition UnixConnectionManager_TryAddConnection :: "int \<Rightarrow> string \<Rightarrow> manager \<Rightarrow> bool \<times> manager" where
  "UnixConnectionManager_TryAddConnection now path m =
     (case mg_connections m path of
        Some _ \<Rightarrow> (False, m)
      | None \<Rightarrow> (True, m\<lparr>mg_connections := (mg_connections m)
                         (path \<mapsto> ClientUnixConnection_Start now (ClientUnixConnection_new path))\<rparr>))"

definition UnixConnectionManager_HandleConnectCallback ::
  "string \<Rightarrow> nat option \<Rightarrow> manager \<Rightarrow> (unit, manager) outcome" where
  "UnixConnectionManager_HandleConnectCallback path newConn m =
     (case mg_connections m path of
        None \<Rightarrow> (Inr (), m)
      | Some c \<Rightarrow> (case ClientUnixConnection_SetConnection path newConn c of
                     (r, c) \<Rightarrow> (r, m\<lparr>mg_connections := (mg_connections m)(path \<mapsto> c)\<rparr>)))"

definition UnixConnectionManager_HandleErrorCallback ::
  "string \<Rightarrow> nat option \<Rightarrow> string \<Rightarrow> manager \<Rightarrow> (unit, manager) outcome" where
  "UnixConnectionManager_HandleErrorCallback path conn msg m =
     (case mg_connections m path of
        None \<Rightarrow> (Inr (), m)
      | Some c \<Rightarrow> (case ClientUnixConnection_SetError path conn msg c of
                     (r, c) \<Rightarrow> (r, m\<lparr>mg_connections := (mg_connections m)(path \<mapsto> c)\<rparr>)))"

definition heartbeat_lost :: "int \<Rightarrow> manager \<Rightarrow> string \<Rightarrow> bool" where
  "heartbeat_lost now m path \<longleftrightarrow>
     (case mg_connections m path of
        None \<Rightarrow> False
      | Some c \<Rightarrow> now - ClientUnixConnection_GetTimeLastHeartbeat c > mg_heartbeatTimeout m)"

definition heartbeat_timer :: periodic_timer where
  "heartbeat_timer = PeriodicTimer 99 ''Heartbeat''"

definition UnixConnectionManager_Start :: "'cb \<Rightarrow> 'cb timers \<Rightarrow> (unit, 'cb timers) outcome" where
  "UnixConnectionManager_Start handler ts =
     IoServices_SetPeriodicTimer heartbeat_timer 5 (Some handler)
       (IoServices_InitialisePeriodicTimer heartbeat_timer ts)"

text \<open>A run of the manager: calls, callbacks for a path, and what the threads of its connections do.\<close>

inductive manager_step :: "manager \<Rightarrow> manager \<Rightarrow> bool" where
  add: "UnixConnectionManager_TryAddConnection now path m = (ok, m') \<Longrightarrow> manager_step m m'"
| connected: "UnixConnectionManager_HandleConnectCallback path conn m = (r, m') \<Longrightarrow> manager_step m m'"
| failed: "UnixConnectionManager_HandleErrorCallback path conn msg m = (r, m') \<Longrightarrow> manager_step m m'"
| act: "mg_connections m path = Some c \<Longrightarrow> unix_act a c c' \<Longrightarrow>
    manager_step m (m\<lparr>mg_connections := (mg_connections m)(path \<mapsto> c')\<rparr>)"

inductive_cases manager_stepE [consumes 1, case_names add connected failed act]: "manager_step m m'"

lemma unix_act_expired:
  assumes "unix_act a c c'" and "uc_phase c = Finished ok"
  shows "uc_phase c' = Finished ok \<and> uc_expired c' = uc_expired c"
  using assms by cases (auto simp: unix_client_defs split: if_splits)

text \<open>A connection stays in the map, and a finished one stays finished.\<close>

definition mg_keeps :: "manager \<Rightarrow> manager \<Rightarrow> bool" where
  "mg_keeps m m' \<longleftrightarrow> (\<forall>path c. mg_connections m path = Some c \<longrightarrow>
     (\<exists>c'. mg_connections m' path = Some c'
        \<and> (\<forall>ok. uc_phase c = Finished ok \<longrightarrow> uc_phase c' = Finished ok \<and> uc_expired c' = uc_expired c)))"

lemma mg_keeps_update:
  assumes "mg_connections m path = Some c" and "unix_act a c c'"
  shows "mg_keeps m (m\<lparr>mg_connections := (mg_connections m)(path \<mapsto> c')\<rparr>)"
  using assms unix_act_expired [OF assms(2)] by (auto simp: mg_keeps_def)

lemma manager_step_keeps:
  assumes "manager_step m m'"
  shows "mg_keeps m m'"
  using assms
proof (cases rule: manager_stepE)
  case (add now path ok)
  then show ?thesis
    by (auto simp: mg_keeps_def UnixConnectionManager_TryAddConnection_def split: option.splits)
next
  case (connected path conn r)
  show ?thesis
  proof (cases "mg_connections m path")
    case (Some c)
    obtain q c' where "ClientUnixConnection_SetConnection path conn c = (q, c')" by fastforce
    with connected Some mg_keeps_update [OF Some unix_act.set_connection] show ?thesis
      by (auto simp: UnixConnectionManager_HandleConnectCallback_def)
  qed (use connected in \<open>auto simp: mg_keeps_def UnixConnectionManager_HandleConnectCallback_def\<close>)
next
  case (failed path conn msg r)
  show ?thesis
  proof (cases "mg_connections m path")
    case (Some c)
    obtain q c' where "ClientUnixConnection_SetError path conn msg c = (q, c')" by fastforce
    with failed Some mg_keeps_update [OF Some unix_act.set_error] show ?thesis
      by (auto simp: UnixConnectionManager_HandleErrorCallback_def)
  qed (use failed in \<open>auto simp: mg_keeps_def UnixConnectionManager_HandleErrorCallback_def\<close>)
next
  case (act path c a c')
  then show ?thesis by (simp add: mg_keeps_update)
qed

lemma manager_run_keeps: "manager_step\<^sup>*\<^sup>* m m' \<Longrightarrow> mg_keeps m m'"
proof (induction rule: rtranclp_induct)
  case (step t u)
  from step.IH manager_step_keeps [OF step.hyps(2)] show ?case unfolding mg_keeps_def by meson
qed (auto simp: mg_keeps_def)

text \<open>
  What the manager does to a connection are actions of that connection: its map holds, under every
  path, a connection of that path in a run of its own.
\<close>

definition mg_runs :: "manager \<Rightarrow> bool" where
  "mg_runs m \<longleftrightarrow> (\<forall>path c. mg_connections m path = Some c \<longrightarrow>
     (\<exists>as. unix_run as (ClientUnixConnection_new path) c))"

lemma mg_runs_update:
  assumes "mg_runs m" and "mg_connections m path = Some c" and "unix_act a c c'"
  shows "mg_runs (m\<lparr>mg_connections := (mg_connections m)(path \<mapsto> c')\<rparr>)"
proof -
  obtain as where "unix_run as (ClientUnixConnection_new path) c"
    using assms(1,2) by (auto simp: mg_runs_def)
  then have "unix_run (as @ [a]) (ClientUnixConnection_new path) c'"
    by (rule unix_run_append) (simp add: assms(3))
  with assms(1) show ?thesis by (auto simp: mg_runs_def)
qed

lemma manager_step_runs:
  assumes "manager_step m m'" and "mg_runs m"
  shows "mg_runs m'"
  using assms(1)
proof (cases rule: manager_stepE)
  case (add now path ok)
  have "\<exists>as. unix_run as (ClientUnixConnection_new path) (ClientUnixConnection_Start now (ClientUnixConnection_new path))"
    by (rule exI [of _ "[Act_start now]"]) (auto intro!: unix_act.start simp: ClientUnixConnection_new_def)
  with add assms(2) show ?thesis
    by (auto simp: mg_runs_def UnixConnectionManager_TryAddConnection_def split: option.splits if_splits)
next
  case (connected path conn r)
  show ?thesis
  proof (cases "mg_connections m path")
    case (Some c)
    obtain q c' where "ClientUnixConnection_SetConnection path conn c = (q, c')" by fastforce
    with connected Some mg_runs_update [OF assms(2) Some unix_act.set_connection] show ?thesis
      by (auto simp: UnixConnectionManager_HandleConnectCallback_def)
  qed (use connected assms(2) in \<open>auto simp: UnixConnectionManager_HandleConnectCallback_def\<close>)
next
  case (failed path conn msg r)
  show ?thesis
  proof (cases "mg_connections m path")
    case (Some c)
    obtain q c' where "ClientUnixConnection_SetError path conn msg c = (q, c')" by fastforce
    with failed Some mg_runs_update [OF assms(2) Some unix_act.set_error] show ?thesis
      by (auto simp: UnixConnectionManager_HandleErrorCallback_def)
  qed (use failed assms(2) in \<open>auto simp: UnixConnectionManager_HandleErrorCallback_def\<close>)
next
  case (act path c a c')
  then show ?thesis using mg_runs_update [OF assms(2)] by simp
qed

lemma manager_new_runs: "mg_runs (UnixConnectionManager_new t)"
  by (simp add: mg_runs_def UnixConnectionManager_new_def)

lemma manager_run_runs: "manager_step\<^sup>*\<^sup>* m m' \<Longrightarrow> mg_runs m \<Longrightarrow> mg_runs m'"
  by (induction rule: rtranclp_induct) (auto dest: manager_step_runs)

section \<open>Properties\<close>

text \<open>
  C37: In every run of a connection: it is expired exactly when its thread has finished; the result true
  means that an error was reported for the path and the very handle it had stored; a handle is stored
  only when a connect callback for the path brought it; and only that handle is ever closed, at most once.
\<close>

theorem unix_client_sound:
  assumes "unix_run as (ClientUnixConnection_new path) c"
  shows "(ClientUnixConnection_Expired c \<longleftrightarrow> (\<exists>ok. uc_phase c = Finished ok))
    \<and> (uc_phase c = Finished True \<longrightarrow> uc_conn c \<noteq> None \<and> (\<exists>msg. Act_set_error path (uc_conn c) msg \<in> set as))
    \<and> (uc_conn c \<noteq> None \<longrightarrow> Act_set_connection path (uc_conn c) \<in> set as)
    \<and> (uc_closed c = [] \<or> (\<exists>h. uc_conn c = Some h \<and> uc_closed c = [h]))"
proof -
  have ok: "phase_ok (uc_phase c) c"
    using unix_run_ok [OF assms unix_new_ok] by (simp add: unix_client_ok_def)
  note h = unix_new_history [OF assms, unfolded history_ok_def]
  from ok show ?thesis
  proof (cases "uc_phase c")
    case Await_close
    with ok h show ?thesis by (cases "uc_closed c") (auto simp: ClientUnixConnection_Expired_def)
  next
    case (Finished b)
    with ok h show ?thesis by (cases "uc_closed c") (auto simp: ClientUnixConnection_Expired_def)
  qed (use h in \<open>auto simp: ClientUnixConnection_Expired_def\<close>)
qed

text \<open>A whole life: connect, stop, and the error that closing brings.\<close>

definition whole_life :: "client_action list" where
  "whole_life = [Act_start 0, Act_begin None, Act_set_connection ''/tmp/s'' (Some 7), Act_connect_ready, Act_stop,
     Act_wake, Act_set_error ''/tmp/s'' (Some 7) ''closed'', Act_close_ready]"

lemma whole_life_run:
  "\<exists>c. unix_run whole_life (ClientUnixConnection_new ''/tmp/s'') c \<and> uc_phase c = Finished True \<and> uc_closed c = [7]"
  unfolding whole_life_def unix_run.simps
  by (intro exI conjI, rule unix_act.start, simp add: ClientUnixConnection_new_def,
      rule unix_act.begin_run, simp add: ClientUnixConnection_new_def unix_client_defs,
      rule unix_act.set_connection, simp add: ClientUnixConnection_new_def unix_client_defs,
      rule unix_act.connect_ready, simp, simp,
      rule unix_act.stop,
      rule unix_act.wake, simp add: unix_client_defs, simp add: unix_client_defs RunOnce_predicate_def,
      rule unix_act.set_error, simp add: unix_client_defs Let_def,
      rule unix_act.close_ready, simp add: unix_client_defs Let_def, simp add: unix_client_defs Let_def, rule refl,
      simp_all add: unix_client_defs Let_def)

theorem unix_client_sound_witness:
  "\<exists>c. unix_run whole_life (ClientUnixConnection_new ''/tmp/s'') c \<and> ClientUnixConnection_Expired c
     \<and> uc_conn c = Some 7 \<and> uc_closed c = [7]"
proof -
  obtain c where c: "unix_run whole_life (ClientUnixConnection_new ''/tmp/s'') c" "uc_phase c = Finished True"
    "uc_closed c = [7]"
    using whole_life_run by blast
  with unix_client_sound [OF c(1)] show ?thesis by auto
qed


text \<open>A client that has stored its handle, and one whose handle was brought but not stored yet.\<close>

definition brought :: unix_client where
  "brought = (ClientUnixConnection_new ''/tmp/s'')\<lparr>uc_shouldRun := True, uc_task := True, uc_futures := True,
     uc_phase := Await_connect, uc_connPromise := Some (Some 7)\<rparr>"

lemma brought_run:
  "unix_run [Act_start 0, Act_begin None, Act_set_connection ''/tmp/s'' (Some 7)]
     (ClientUnixConnection_new ''/tmp/s'') brought"
  unfolding unix_run.simps
  by (intro exI conjI, rule unix_act.start, simp add: ClientUnixConnection_new_def,
      rule unix_act.begin_run, simp add: ClientUnixConnection_new_def unix_client_defs,
      rule unix_act.set_connection, simp add: ClientUnixConnection_new_def unix_client_defs,
      simp add: brought_def ClientUnixConnection_new_def unix_client_defs)

lemma stored_run:
  "unix_run ([Act_start 0, Act_begin None, Act_set_connection ''/tmp/s'' (Some 7)] @ [Act_connect_ready])
     (ClientUnixConnection_new ''/tmp/s'') (RunOnce_connected (Some 7) brought)"
  by (rule unix_run_append [OF brought_run]) (auto intro!: unix_act.connect_ready simp: brought_def)


lemma early_error_step:
  assumes "unix_act a d d'" and "\<And>q h m. a \<noteq> Act_set_error q h m" and "a \<noteq> Act_stop"
    and "uc_phase d = Await_connect \<and> uc_connPromise d = Some (Some h) \<or> uc_phase d = Await_error"
    and "uc_shouldRun d" and "\<not> uc_ioError d" and "\<not> uc_expired d"
  shows "(uc_phase d' = Await_connect \<and> uc_connPromise d' = Some (Some h) \<or> uc_phase d' = Await_error)
    \<and> uc_shouldRun d' \<and> \<not> uc_ioError d' \<and> \<not> uc_expired d'"
  using assms
  by cases (auto simp: unix_client_defs RunOnce_predicate_def split: if_splits)

text \<open>
  An error that comes between the connect callback and the moment the thread stores the handle is
  lost: it is ignored as one of a client that is not connected. As the connection reports no other
  error, the thread then waits for good: the client never expires, however long it runs, until it is
  stopped.
\<close>

lemma early_error_lost:
  assumes "unix_run as\<^sub>0 (ClientUnixConnection_new path) c" and "uc_phase c = Await_connect"
    and "uc_connPromise c = Some (Some h)" and "uc_shouldRun c"
    and "unix_run as c c'" and "\<And>q k m. Act_set_error q k m \<notin> set as" and "Act_stop \<notin> set as"
  shows "ClientUnixConnection_SetError path (Some h) msg c = (Inr (), c)
    \<and> \<not> ClientUnixConnection_Expired c' \<and> uc_phase c' \<in> {Await_connect, Await_error}"
proof -
  have c: "uc_conn c = None" "\<not> uc_ioError c" "\<not> uc_expired c"
    using unix_run_ok [OF assms(1) unix_new_ok] assms(2) by (auto simp: unix_client_ok_def)
  have "\<lbrakk>unix_run as d c'; uc_phase d = Await_connect \<and> uc_connPromise d = Some (Some h) \<or> uc_phase d = Await_error;
      uc_shouldRun d; \<not> uc_ioError d; \<not> uc_expired d\<rbrakk> \<Longrightarrow> (uc_phase c' = Await_connect \<or> uc_phase c' = Await_error)
      \<and> \<not> uc_expired c'" for d
    using assms(6,7)
  proof (induction as arbitrary: d)
    case (Cons a as)
    from Cons.prems(1) obtain e where e: "unix_act a d e" "unix_run as e c'" by auto
    have "(uc_phase e = Await_connect \<and> uc_connPromise e = Some (Some h) \<or> uc_phase e = Await_error)
        \<and> uc_shouldRun e \<and> \<not> uc_ioError e \<and> \<not> uc_expired e"
      using early_error_step [OF e(1) _ _ Cons.prems(2-5)] Cons.prems(6,7) by auto
    with Cons.IH [OF e(2)] Cons.prems(6,7) show ?case by auto
  qed auto
  from this [OF assms(5)] c assms(2-4) show ?thesis
    by (auto simp: ClientUnixConnection_Expired_def ClientUnixConnection_SetError_def)
qed

lemma early_error_lost_witness:
  "ClientUnixConnection_SetError ''/tmp/s'' (Some 7) ''reset'' brought = (Inr (), brought)
    \<and> \<not> ClientUnixConnection_Expired (RunOnce_connected (Some 7) brought)"
proof -
  have run: "unix_run [Act_connect_ready] brought (RunOnce_connected (Some 7) brought)"
    by (auto simp: brought_def intro!: unix_act.connect_ready)
  have "uc_phase brought = Await_connect" "uc_connPromise brought = Some (Some 7)" "uc_shouldRun brought"
    by (simp_all add: brought_def)
  from early_error_lost [OF brought_run this run] show ?thesis by simp
qed

text \<open>
  In every run of the manager the connection under a path is a connection to that path in a run of
  its own, so a callback for the path is never ignored as one for another path: the connect callback
  throws exactly when the promise of a connection without a handle was satisfied before.
\<close>

lemma manager_connections_run:
  assumes "manager_step\<^sup>*\<^sup>* (UnixConnectionManager_new t) m" and "mg_connections m path = Some c"
  shows "(\<exists>as. unix_run as (ClientUnixConnection_new path) c) \<and> uc_path c = path \<and> unix_client_ok c
    \<and> (fst (UnixConnectionManager_HandleConnectCallback path conn m) = Inr () \<longleftrightarrow>
        uc_conn c \<noteq> None \<or> uc_connPromise c = None)"
proof -
  have "mg_runs m" using manager_run_runs [OF assms(1) manager_new_runs] .
  with assms(2) obtain as where as: "unix_run as (ClientUnixConnection_new path) c"
    unfolding mg_runs_def by blast
  have "uc_path c = path"
    using unix_run_path [OF as] by (simp add: ClientUnixConnection_new_def)
  moreover from this have "fst (UnixConnectionManager_HandleConnectCallback path conn m) = Inr () \<longleftrightarrow>
        uc_conn c \<noteq> None \<or> uc_connPromise c = None"
    using assms(2)
    by (simp add: UnixConnectionManager_HandleConnectCallback_def ClientUnixConnection_SetConnection_def)
  ultimately show ?thesis using as unix_run_ok [OF as unix_new_ok] by blast
qed

lemma manager_connections_run_witness:
  "let m = snd (UnixConnectionManager_TryAddConnection 0 ''/tmp/s'' (UnixConnectionManager_new 60))
   in fst (UnixConnectionManager_HandleConnectCallback ''/tmp/s'' (Some 7) m) = Inr ()"
proof -
  let ?a = "UnixConnectionManager_TryAddConnection 0 ''/tmp/s'' (UnixConnectionManager_new 60)"
  let ?c = "ClientUnixConnection_Start 0 (ClientUnixConnection_new ''/tmp/s'')"
  have run: "manager_step\<^sup>*\<^sup>* (UnixConnectionManager_new 60) (snd ?a)"
    by (rule r_into_rtranclp) (rule manager_step.add [OF surjective_pairing])
  have c: "mg_connections (snd ?a) ''/tmp/s'' = Some ?c"
    by (simp add: UnixConnectionManager_TryAddConnection_def UnixConnectionManager_new_def)
  have "uc_connPromise ?c = None"
    by (simp add: ClientUnixConnection_Start_def ClientUnixConnection_new_def)
  with manager_connections_run [OF run c, of "Some 7"] show ?thesis unfolding Let_def by blast
qed

text \<open>
  A path can be added once. Whatever happens afterwards, also when the connection to it timed out,
  was refused or has ended, adding the path again is refused and starts nothing, and a connection that
  has expired stays so.
\<close>

lemma manager_path_once:
  assumes "UnixConnectionManager_TryAddConnection now path m\<^sub>0 = (ok, m)" and "manager_step\<^sup>*\<^sup>* m m'"
  shows "UnixConnectionManager_TryAddConnection later path m' = (False, m')
    \<and> (\<forall>m'' c. manager_step\<^sup>*\<^sup>* m' m'' \<and> mg_connections m' path = Some c \<and> uc_phase c = Finished False
         \<and> ClientUnixConnection_Expired c \<longrightarrow>
         (\<exists>c''. mg_connections m'' path = Some c'' \<and> ClientUnixConnection_Expired c''))"
proof -
  obtain c where "mg_connections m path = Some c"
    using assms(1) by (auto simp: UnixConnectionManager_TryAddConnection_def split: option.splits)
  with manager_run_keeps [OF assms(2)] obtain c' where "mg_connections m' path = Some c'"
    unfolding mg_keeps_def by blast
  then have "UnixConnectionManager_TryAddConnection later path m' = (False, m')"
    by (simp add: UnixConnectionManager_TryAddConnection_def)
  moreover have "\<exists>c''. mg_connections m'' path = Some c'' \<and> ClientUnixConnection_Expired c''"
    if "manager_step\<^sup>*\<^sup>* m' m''" "mg_connections m' path = Some d" "uc_phase d = Finished False"
      "ClientUnixConnection_Expired d" for m'' d
    using manager_run_keeps [OF that(1)] that(2-4) unfolding mg_keeps_def ClientUnixConnection_Expired_def by blast
  ultimately show ?thesis by blast
qed

lemma manager_path_once_witness:
  "let m = snd (UnixConnectionManager_TryAddConnection 0 ''/tmp/s'' (UnixConnectionManager_new 60));
       m' = m\<lparr>mg_connections := (mg_connections m)(''/tmp/s'' \<mapsto>
              RunOnce_begin (Some (SystemError 2)) (ClientUnixConnection_Start 0 (ClientUnixConnection_new ''/tmp/s'')))\<rparr>
   in UnixConnectionManager_TryAddConnection 9 ''/tmp/s'' m' = (False, m')"
proof -
  let ?c = "ClientUnixConnection_Start 0 (ClientUnixConnection_new ''/tmp/s'')"
  let ?a = "UnixConnectionManager_TryAddConnection 0 ''/tmp/s'' (UnixConnectionManager_new 60)"
  have c: "mg_connections (snd ?a) ''/tmp/s'' = Some ?c"
    by (simp add: UnixConnectionManager_TryAddConnection_def UnixConnectionManager_new_def)
  have "manager_step (snd ?a) ((snd ?a)\<lparr>mg_connections := (mg_connections (snd ?a))(''/tmp/s'' \<mapsto>
      RunOnce_begin (Some (SystemError 2)) ?c)\<rparr>)"
    by (rule manager_step.act [OF c]) (rule unix_act.begin_run, simp add: ClientUnixConnection_Start_def)
  from manager_path_once [OF surjective_pairing r_into_rtranclp, OF this] show ?thesis
    by (simp add: Let_def)
qed

end
