(* ===== verification/ProgramOptions.thy ===== *)
theory ProgramOptions
  imports IoPrelude
begin

text \<open>
  The options of the console programs. Parsing is done by \<open>boost::program_options\<close>: it is a parameter of
  the models, and what it finds is a map from the names of options to their values.
\<close>

text \<open>A \<open>wchar_t\<close> is a signed word of 32 bits, a \<open>char\<close> a signed byte.\<close>

type_synonym wide = "c_int list"

text \<open>
  \<open>given\<close> is \<open>vm.count(name) > 0\<close>, and \<open>as\<close> throws \<open>boost::bad_any_cast\<close> when the value is of
  another type.
\<close>

datatype option_value = IntValue c_int | StringValue string | WideValue wide | NoValue

type_synonym variables_map = "string \<Rightarrow> option_value option"

definition given :: "variables_map \<Rightarrow> string \<Rightarrow> bool" where
  "given vm name \<longleftrightarrow> vm name \<noteq> None"

definition as_int :: "variables_map \<Rightarrow> string \<Rightarrow> fault + c_int" where
  "as_int vm name =
     (case vm name of Some (IntValue n) \<Rightarrow> Inr n | _ \<Rightarrow> Inl (AppException ''boost::bad_any_cast''))"

definition as_string :: "variables_map \<Rightarrow> string \<Rightarrow> fault + string" where
  "as_string vm name =
     (case vm name of Some (StringValue s) \<Rightarrow> Inr s | _ \<Rightarrow> Inl (AppException ''boost::bad_any_cast''))"

definition as_wide :: "variables_map \<Rightarrow> string \<Rightarrow> fault + wide" where
  "as_wide vm name =
     (case vm name of Some (WideValue w) \<Rightarrow> Inr w | _ \<Rightarrow> Inl (AppException ''boost::bad_any_cast''))"

text \<open>Steps that may throw and have no state.\<close>

definition chain :: "fault + 'a \<Rightarrow> ('a \<Rightarrow> fault + 'b) \<Rightarrow> fault + 'b" where
  "chain r k = (case r of Inl f \<Rightarrow> Inl f | Inr a \<Rightarrow> k a)"

lemma chain_simps [simp]: "chain (Inl f) k = Inl f" "chain (Inr a) k = k a"
  by (simp_all add: chain_def)

text \<open>The assignment of an option over what its variable holds, when the option is given.\<close>

definition assign_option :: "variables_map \<Rightarrow> string \<Rightarrow> (variables_map \<Rightarrow> string \<Rightarrow> fault + 'a) \<Rightarrow> 'a \<Rightarrow> fault + 'a" where
  "assign_option vm name as_type initial = (if given vm name then as_type vm name else Inr initial)"

end
