(* ===== verification/ClientProgram.thy ===== *)
theory ClientProgram
  imports UnixClient IoWorkers ProgramOptions
begin

text \<open>
  The client program \<open>UnixDomainClient/main.cpp\<close>: its settings, from the command line and a
  configuration file, the start of its parts, and class \<open>SigHandler\<close>, which keeps the hardware watchdog
  alive from a thread of its own until a signal destroys it.
\<close>

section \<open>Settings\<close>

text \<open>
  Durations are whole seconds. The variables \<open>connectTimeout\<close>, \<open>heartbeatTimeout\<close>, \<open>startupSleep\<close> and
  \<open>watchdogTimeout\<close> are not initialised: \<open>junk\<close> is what their memory holds.
\<close>

record client_config =
  domainPath :: string
  connectTimeout :: int
  heartbeatTimeout :: int
  startupSleep :: int
  watchdogTimeout :: c_int
  magicClose :: bool

definition as_seconds :: "variables_map \<Rightarrow> string \<Rightarrow> fault + int" where
  "as_seconds vm name = chain (as_int vm name) (\<lambda>n. Inr (sint n))"

definition command_line_settings :: "variables_map \<Rightarrow> client_config \<Rightarrow> fault + client_config" where
  "command_line_settings vm junk =
     chain (assign_option vm ''path'' as_string ''/var/run/domain'') (\<lambda>path.
     chain (assign_option vm ''connect-timeout'' as_seconds (connectTimeout junk)) (\<lambda>connect.
     chain (assign_option vm ''watchdog-timeout'' as_int (watchdogTimeout junk)) (\<lambda>watchdog.
     chain (assign_option vm ''startup-sleep'' as_seconds (startupSleep junk)) (\<lambda>sleep.
       Inr (junk\<lparr>domainPath := path, connectTimeout := connect, startupSleep := sleep,
                 watchdogTimeout := watchdog, magicClose := given vm ''magic-close''\<rparr>)))))"

text \<open>
  Reading the file is boost's: an \<open>ini_file\<close> says, for each type, which entries are there and convert
  to it. \<open>pt.get\<close> gives its second argument otherwise; a duration passes through an \<open>int\<close>.
\<close>

record ini_file =
  ini_string :: "string \<Rightarrow> string option"
  ini_bool :: "string \<Rightarrow> bool option"
  ini_int :: "string \<Rightarrow> c_int option"

definition ini_settings :: "ini_file \<Rightarrow> client_config \<Rightarrow> client_config" where
  "ini_settings pt c =
     (let get = (\<lambda>found initial. case found of None \<Rightarrow> initial | Some x \<Rightarrow> x)
      in c\<lparr>domainPath := (case ini_string pt ''common.domain-path'' of None \<Rightarrow> domainPath c | Some p \<Rightarrow> p),
           magicClose := (case ini_bool pt ''client.magic-close'' of None \<Rightarrow> magicClose c | Some b \<Rightarrow> b),
           watchdogTimeout := get (ini_int pt ''client.watchdog-timeout'') (watchdogTimeout c),
           connectTimeout := sint (get (ini_int pt ''client.connect-timeout'') (of_int (connectTimeout c))),
           heartbeatTimeout := sint (get (ini_int pt ''client.heartbeat-timeout'') (of_int (heartbeatTimeout c)))\<rparr>)"

text \<open>
  The file: \<open>None\<close> if it can not be opened, and \<open>Inl msg\<close> if it can not be parsed.
\<close>

definition client_settings ::
  "variables_map \<Rightarrow> client_config \<Rightarrow> (string + ini_file) option \<Rightarrow> fault + client_config" where
  "client_settings vm junk configFile =
     chain (command_line_settings vm junk) (\<lambda>c.
       case configFile of
         None \<Rightarrow> Inl (RuntimeError (''Master service failed to load: '' @ ''/etc/catapult/optimeye.ini''))
       | Some (Inl msg) \<Rightarrow> Inl (RuntimeError (''ini parse error: '' @ msg))
       | Some (Inr pt) \<Rightarrow> Inr (ini_settings pt c))"

section \<open>The signal handler object\<close>

text \<open>
  What is asked of the watchdog device through its handle, in order; the program ignores the results, also
  that of opening the device. \<open>sh_keeper\<close> is where the thread of the object is, \<open>sh_ending\<close> where its
  destructor is, which runs in the signal handler on some thread of the program: \<open>sh_on\<close> says whether
  on the object's own thread, on that of the loop of the I/O services, or on another. \<open>sh_global\<close> says
  whether the global pointer still holds the object.
\<close>

datatype device_call = Set_timeout c_int | Get_support | Keep_alive | Write_magic | Close_device

datatype keeper = Testing | Calling | Sleeping | Ended

datatype ending = Alive | Entered | Flag_cleared | Stopped | Magic_passed | Closed | Gone

datatype signal_thread = Other_thread | Keeper_thread | Loop_thread

record 'w sig_handler =
  sh_shouldRun :: bool
  sh_magicClose :: bool
  sh_watchdogTimeout :: c_int
  sh_services :: "'w service"
  sh_mgr :: manager
  sh_calls :: "device_call list"
  sh_keeper :: keeper
  sh_ending :: ending
  sh_on :: signal_thread
  sh_global :: bool

definition SigHandler_new :: "'w service \<Rightarrow> manager \<Rightarrow> c_int \<Rightarrow> bool \<Rightarrow> 'w sig_handler" where
  "SigHandler_new services mgr timeout magic =
     \<lparr>sh_shouldRun = True, sh_magicClose = magic, sh_watchdogTimeout = timeout, sh_services = services,
      sh_mgr = mgr, sh_calls = [Set_timeout timeout, Get_support], sh_keeper = Testing,
      sh_ending = Alive, sh_on = Other_thread, sh_global = True\<rparr>"

text \<open>The thread: the test of its loop, the call, the end of the sleep.\<close>

definition task_test :: "'w sig_handler \<Rightarrow> 'w sig_handler" where
  "task_test s = s\<lparr>sh_keeper := (if sh_shouldRun s then Calling else Ended)\<rparr>"

definition task_call :: "'w sig_handler \<Rightarrow> 'w sig_handler" where
  "task_call s = s\<lparr>sh_calls := sh_calls s @ [Keep_alive], sh_keeper := Sleeping\<rparr>"

definition task_wake :: "'w sig_handler \<Rightarrow> 'w sig_handler" where
  "task_wake s = s\<lparr>sh_keeper := Testing\<rparr>"

text \<open>The signal handler, on the thread \<open>t\<close>: only the first one finds the object.\<close>

definition sig_handler_call :: "signal_thread \<Rightarrow> 'w sig_handler \<Rightarrow> 'w sig_handler" where
  "sig_handler_call t s = (if sh_global s then s\<lparr>sh_global := False, sh_ending := Entered, sh_on := t\<rparr> else s)"

text \<open>The destructor, statement by statement.\<close>

definition destroy_clear :: "'w sig_handler \<Rightarrow> 'w sig_handler" where
  "destroy_clear s = s\<lparr>sh_shouldRun := False, sh_ending := Flag_cleared\<rparr>"

definition destroy_stop :: "'w sig_handler \<Rightarrow> 'w sig_handler" where
  "destroy_stop s =
     s\<lparr>sh_mgr := UnixConnectionManager_Stop (sh_mgr s), sh_services := IoServicesImpl_Stop (sh_services s),
       sh_ending := Stopped\<rparr>"

definition destroy_magic :: "'w sig_handler \<Rightarrow> 'w sig_handler" where
  "destroy_magic s =
     (if sh_magicClose s then s\<lparr>sh_calls := sh_calls s @ [Write_magic], sh_ending := Magic_passed\<rparr>
      else s\<lparr>sh_ending := Magic_passed\<rparr>)"

definition destroy_close :: "'w sig_handler \<Rightarrow> 'w sig_handler" where
  "destroy_close s = s\<lparr>sh_calls := sh_calls s @ [Close_device], sh_ending := Closed\<rparr>"

definition destroy_join :: "'w sig_handler \<Rightarrow> 'w sig_handler" where
  "destroy_join s = s\<lparr>sh_ending := Gone\<rparr>"

lemmas sig_handler_defs = task_test_def task_call_def task_wake_def sig_handler_call_def destroy_clear_def
  destroy_stop_def destroy_magic_def destroy_close_def destroy_join_def

section \<open>Runs\<close>

text \<open>
  The thread and the destructor take their steps in any order, but while a signal handler runs on a thread
  that thread does nothing else: the object's own thread stands still during a destructor that runs on it, and
  stopping the services, which waits for the thread of their loop, does not return on that thread. The
  last statement waits for the object's thread. The services and the manager are what they are when the
  signal comes; a signal comes at any time, again and again, but not on a thread that has ended.
\<close>

definition task_runs :: "'w sig_handler \<Rightarrow> bool" where
  "task_runs s \<longleftrightarrow> (sh_on s = Keeper_thread \<longrightarrow> sh_ending s = Alive)"

inductive sh_step :: "'w sig_handler \<Rightarrow> 'w sig_handler \<Rightarrow> bool" where
  test: "task_runs s \<Longrightarrow> sh_keeper s = Testing \<Longrightarrow> sh_step s (task_test s)"
| call: "task_runs s \<Longrightarrow> sh_keeper s = Calling \<Longrightarrow> sh_step s (task_call s)"
| wake: "task_runs s \<Longrightarrow> sh_keeper s = Sleeping \<Longrightarrow> sh_step s (task_wake s)"
| clear: "sh_ending s = Entered \<Longrightarrow> sh_step s (destroy_clear s)"
| stop: "sh_ending s = Flag_cleared \<Longrightarrow> sh_on s = Loop_thread \<longrightarrow> \<not> runHandleValid (sh_services s) \<Longrightarrow>
    sh_step s (destroy_stop s)"
| magic: "sh_ending s = Stopped \<Longrightarrow> sh_step s (destroy_magic s)"
| close: "sh_ending s = Magic_passed \<Longrightarrow> sh_step s (destroy_close s)"
| join: "sh_ending s = Closed \<Longrightarrow> sh_keeper s = Ended \<Longrightarrow> sh_step s (destroy_join s)"

inductive_cases sh_stepE [consumes 1, case_names test call wake clear stop magic close join]: "sh_step s s'"

inductive sh_reach :: "c_int \<Rightarrow> bool \<Rightarrow> 'w sig_handler \<Rightarrow> bool" for timeout magic where
  start: "sh_reach timeout magic (SigHandler_new services mgr timeout magic)"
| others: "sh_reach timeout magic s \<Longrightarrow> sh_ending s = Alive \<Longrightarrow>
    sh_reach timeout magic (s\<lparr>sh_services := services, sh_mgr := mgr\<rparr>)"
| signal: "sh_reach timeout magic s \<Longrightarrow> t = Keeper_thread \<longrightarrow> sh_keeper s \<noteq> Ended \<Longrightarrow>
    sh_reach timeout magic (sig_handler_call t s)"
| step: "sh_reach timeout magic s \<Longrightarrow> sh_step s s' \<Longrightarrow> sh_reach timeout magic s'"

section \<open>Invariant\<close>

text \<open>
  The calls are those of the constructor, then keep-alives, then what the destructor adds: the magic
  character if it is wanted, the close, and among them at most the one keep-alive that the thread was about
  to make when its flag was cleared.
\<close>

definition magic_part :: "bool \<Rightarrow> device_call list" where
  "magic_part magic = (if magic then [Write_magic] else [])"

fun ending_ok :: "bool \<Rightarrow> ending \<Rightarrow> keeper \<Rightarrow> device_call list \<Rightarrow> bool" where
  "ending_ok magic Magic_passed t as \<longleftrightarrow>
     as = magic_part magic \<or> (t \<noteq> Calling \<and> as = magic_part magic @ [Keep_alive])"
| "ending_ok magic Closed t as \<longleftrightarrow>
     as = magic_part magic @ [Close_device]
     \<or> (t \<noteq> Calling \<and> as \<in> {magic_part magic @ [Keep_alive, Close_device], magic_part magic @ [Close_device, Keep_alive]})"
| "ending_ok magic Gone t as \<longleftrightarrow>
     t = Ended
     \<and> as \<in> {magic_part magic @ [Close_device], magic_part magic @ [Keep_alive, Close_device],
              magic_part magic @ [Close_device, Keep_alive]}"
| "ending_ok magic _ t as \<longleftrightarrow> as = []"

definition sh_ok :: "c_int \<Rightarrow> bool \<Rightarrow> 'w sig_handler \<Rightarrow> bool" where
  "sh_ok timeout magic s \<longleftrightarrow>
     (sh_ending s \<in> {Alive, Entered} \<longleftrightarrow> sh_shouldRun s) \<and> (sh_global s \<longleftrightarrow> sh_ending s = Alive)
     \<and> sh_magicClose s = magic
     \<and> (sh_ending s \<noteq> Alive \<and> sh_on s = Keeper_thread \<longrightarrow> sh_keeper s \<noteq> Ended)
     \<and> (\<exists>n as. sh_calls s = [Set_timeout timeout, Get_support] @ replicate n Keep_alive @ as
                \<and> ending_ok magic (sh_ending s) (sh_keeper s) as)"

lemma replicate_snoc: "replicate n x @ [x] = replicate (Suc n) x"
  by (simp add: replicate_append_same)

lemma keep_alive_ok:
  assumes "ending_ok magic e Calling as"
  shows "\<exists>m bs. replicate n Keep_alive @ as @ [Keep_alive] = replicate m Keep_alive @ bs \<and> ending_ok magic e Sleeping bs"
proof (cases e)
  case Magic_passed
  with assms show ?thesis by (intro exI [of _ n] exI [of _ "as @ [Keep_alive]"]) auto
next
  case Closed
  with assms show ?thesis by (intro exI [of _ n] exI [of _ "as @ [Keep_alive]"]) auto
qed (use assms in \<open>auto simp: replicate_snoc intro!: exI [of _ "Suc n"] exI [of _ "[]"]\<close>)

lemma ending_ok_keeper:
  "ending_ok magic e t as \<Longrightarrow> t \<noteq> Ended \<Longrightarrow> t' \<noteq> Calling \<or> e \<in> {Alive, Entered} \<Longrightarrow> ending_ok magic e t' as"
  by (cases e) auto

lemma sh_okI:
  assumes "sh_calls s = [Set_timeout timeout, Get_support] @ replicate n Keep_alive @ as"
    and "ending_ok magic (sh_ending s) (sh_keeper s) as"
    and "sh_ending s \<in> {Alive, Entered} \<longleftrightarrow> sh_shouldRun s" and "sh_global s \<longleftrightarrow> sh_ending s = Alive"
    and "sh_magicClose s = magic" and "sh_ending s \<noteq> Alive \<and> sh_on s = Keeper_thread \<longrightarrow> sh_keeper s \<noteq> Ended"
  shows "sh_ok timeout magic s"
  using assms unfolding sh_ok_def by blast

lemma sh_step_ok:
  assumes "sh_step s s'" and "sh_ok timeout magic s"
  shows "sh_ok timeout magic s'"
proof -
  obtain n as where calls: "sh_calls s = [Set_timeout timeout, Get_support] @ replicate n Keep_alive @ as"
    and e: "ending_ok magic (sh_ending s) (sh_keeper s) as"
    using assms(2) by (auto simp: sh_ok_def)
  have rest: "sh_ending s \<in> {Alive, Entered} \<longleftrightarrow> sh_shouldRun s" "sh_global s \<longleftrightarrow> sh_ending s = Alive"
    "sh_magicClose s = magic" "sh_ending s \<noteq> Alive \<and> sh_on s = Keeper_thread \<longrightarrow> sh_keeper s \<noteq> Ended"
    using assms(2) unfolding sh_ok_def by blast+
  from assms(1) show ?thesis
  proof (cases rule: sh_stepE)
    case test
    with ending_ok_keeper [OF e, of "if sh_shouldRun s then Calling else Ended"] rest calls show ?thesis
      by (intro sh_okI [of _ _ n as]) (auto simp: task_test_def task_runs_def)
  next
    case call
    with keep_alive_ok [of magic "sh_ending s" as n] e obtain m bs where
      "replicate n Keep_alive @ as @ [Keep_alive] = replicate m Keep_alive @ bs" "ending_ok magic (sh_ending s) Sleeping bs"
      by auto
    with call rest calls show ?thesis
      by (intro sh_okI [of _ _ m bs]) (auto simp: task_call_def task_runs_def)
  next
    case wake
    with ending_ok_keeper [OF e, of Testing] rest calls show ?thesis
      by (intro sh_okI [of _ _ n as]) (auto simp: task_wake_def task_runs_def)
  next
    case clear
    with e rest calls show ?thesis by (intro sh_okI [of _ _ n "[]"]) (simp_all add: destroy_clear_def)
  next
    case stop
    with e rest calls show ?thesis by (intro sh_okI [of _ _ n "[]"]) (simp_all add: destroy_stop_def)
  next
    case magic
    with e rest calls show ?thesis
      by (intro sh_okI [of _ _ n "magic_part magic"]) (simp_all add: destroy_magic_def magic_part_def)
  next
    case close
    with e rest calls show ?thesis
      by (intro sh_okI [of _ _ n "as @ [Close_device]"]) (auto simp: destroy_close_def)
  next
    case join
    with e rest calls show ?thesis by (intro sh_okI [of _ _ n as]) (auto simp: destroy_join_def)
  qed
qed

lemma sh_new_ok: "sh_ok timeout magic (SigHandler_new services mgr timeout magic)"
  by (rule sh_okI [of _ _ 0 "[]"]) (simp_all add: SigHandler_new_def)

lemma sh_signal_ok:
  assumes "sh_ok timeout magic s" and "t = Keeper_thread \<longrightarrow> sh_keeper s \<noteq> Ended"
  shows "sh_ok timeout magic (sig_handler_call t s)"
proof (cases "sh_global s")
  case True
  with assms(1) have a: "sh_ending s = Alive" "sh_shouldRun s" "sh_magicClose s = magic"
    unfolding sh_ok_def by blast+
  from assms(1) a(1) obtain n where "sh_calls s = [Set_timeout timeout, Get_support] @ replicate n Keep_alive @ []"
    by (auto simp: sh_ok_def)
  with True a assms(2) show ?thesis by (intro sh_okI [of _ _ n "[]"]) (simp_all add: sig_handler_call_def)
qed (use assms(1) in \<open>simp add: sig_handler_call_def\<close>)

lemma sh_reach_ok: "sh_reach timeout magic s \<Longrightarrow> sh_ok timeout magic s"
  by (induction rule: sh_reach.induct) (simp_all add: sh_new_ok sh_signal_ok sh_step_ok, simp_all add: sh_ok_def)

section \<open>How long a destructor takes\<close>

fun ending_rank :: "ending \<Rightarrow> nat" where
  "ending_rank Flag_cleared = 4"
| "ending_rank Stopped = 3"
| "ending_rank Magic_passed = 2"
| "ending_rank Closed = 1"
| "ending_rank _ = 0"

fun keeper_rank :: "keeper \<Rightarrow> nat" where
  "keeper_rank Calling = 3"
| "keeper_rank Sleeping = 2"
| "keeper_rank Testing = 1"
| "keeper_rank Ended = 0"

definition sh_rank :: "'w sig_handler \<Rightarrow> nat" where
  "sh_rank s = ending_rank (sh_ending s) + keeper_rank (sh_keeper s)"

text \<open>With the flag cleared every step brings the end nearer.\<close>

lemma sh_step_rank:
  assumes "sh_step s s'" and "\<not> sh_shouldRun s" and "sh_ending s \<notin> {Alive, Entered}"
  shows "Suc (sh_rank s') \<le> sh_rank s \<and> \<not> sh_shouldRun s' \<and> sh_ending s' \<notin> {Alive, Entered} \<and> sh_on s' = sh_on s"
  using assms by (cases rule: sh_stepE) (simp_all add: sig_handler_defs sh_rank_def)

lemma sh_rank_bound: "sh_rank s \<le> 7"
  unfolding sh_rank_def by (cases "sh_ending s"; cases "sh_keeper s") simp_all

lemma sh_run_rank:
  assumes "(sh_step ^^ n) s s'" and "\<not> sh_shouldRun s" and "sh_ending s \<notin> {Alive, Entered}"
  shows "n + sh_rank s' \<le> sh_rank s \<and> \<not> sh_shouldRun s' \<and> sh_ending s' \<notin> {Alive, Entered} \<and> sh_on s' = sh_on s"
  using assms(1)
proof (induction n arbitrary: s')
  case (Suc n)
  then obtain u where u: "(sh_step ^^ n) s u" "sh_step u s'" by auto
  from Suc.IH [OF u(1)] sh_step_rank [OF u(2)] show ?case by auto
qed (use assms in simp)

text \<open>A destructor on another thread always has a next step, its own or one of the thread it waits for.\<close>

lemma sh_next:
  assumes "\<not> sh_shouldRun s" and "sh_ending s \<notin> {Alive, Entered, Gone}" and "sh_on s = Other_thread"
  shows "\<exists>s'. sh_step s s'"
proof (cases "sh_ending s")
  case Closed
  have "task_runs s" using assms(3) by (simp add: task_runs_def)
  with Closed show ?thesis by (cases "sh_keeper s") (blast intro: sh_step.intros)+
next
  case Flag_cleared
  with assms(3) have "sh_step s (destroy_stop s)" by (intro sh_step.stop) simp_all
  then show ?thesis by blast
qed (use assms(2) in \<open>simp_all, (blast intro: sh_step.magic sh_step.close)+\<close>)

text \<open>On the loop's own thread it does not get past stopping the services.\<close>

lemma sh_loop_stuck:
  assumes "sh_step s s'" and "sh_on s = Loop_thread \<and> sh_ending s = Flag_cleared \<and> runHandleValid (sh_services s)"
  shows "sh_on s' = Loop_thread \<and> sh_ending s' = Flag_cleared \<and> runHandleValid (sh_services s')"
  using assms by (cases rule: sh_stepE) (auto simp: sig_handler_defs)

lemma sh_loop_stuck_run:
  "(sh_step ^^ n) s s' \<Longrightarrow> sh_on s = Loop_thread \<and> sh_ending s = Flag_cleared \<and> runHandleValid (sh_services s) \<Longrightarrow>
    sh_on s' = Loop_thread \<and> sh_ending s' = Flag_cleared \<and> runHandleValid (sh_services s')"
  by (induction n arbitrary: s') (auto dest: sh_loop_stuck)

lemma sh_run_reach: "(sh_step ^^ n) s s' \<Longrightarrow> sh_reach timeout magic s \<Longrightarrow> sh_reach timeout magic s'"
  by (induction n arbitrary: s') (auto intro: sh_reach.step)

section \<open>Properties\<close>



text \<open>A signal between the test of the flag and the call: the keep-alive goes to the closed handle.\<close>

definition between_test_and_call :: "unit sig_handler" where
  "between_test_and_call = destroy_clear (sig_handler_call Other_thread
     (task_test (SigHandler_new service_new (UnixConnectionManager_new 0) 5 True)))"

definition late_call :: "unit sig_handler" where
  "late_call = task_call (destroy_close (destroy_magic (destroy_stop between_test_and_call)))"

lemma example_reach: "sh_reach 5 True between_test_and_call"
proof -
  let ?a = "SigHandler_new (service_new :: unit service) (UnixConnectionManager_new 0) 5 True"
  have "sh_reach 5 True (task_test ?a)"
    by (rule sh_reach.step [OF sh_reach.start sh_step.test]) (simp_all add: SigHandler_new_def task_runs_def)
  then have b: "sh_reach 5 True (sig_handler_call Other_thread (task_test ?a))" by (rule sh_reach.signal) simp
  show ?thesis unfolding between_test_and_call_def
    by (rule sh_reach.step [OF b sh_step.clear]) (simp add: sig_handler_defs SigHandler_new_def)
qed

lemma example_steps: "(sh_step ^^ 4) between_test_and_call late_call"
proof -
  let ?b = between_test_and_call
  let ?c = "destroy_stop ?b" let ?d = "destroy_magic ?c" let ?e = "destroy_close ?d"
  note defs = between_test_and_call_def sig_handler_defs SigHandler_new_def task_runs_def
  have "sh_step ?b ?c" by (rule sh_step.stop) (simp_all add: defs)
  moreover have "sh_step ?c ?d" by (rule sh_step.magic) (simp add: defs)
  moreover have "sh_step ?d ?e" by (rule sh_step.close) (simp add: defs)
  moreover have "sh_step ?e late_call" unfolding late_call_def by (rule sh_step.call) (simp_all add: defs)
  ultimately show ?thesis by (auto simp: numeral_eq_Suc)
qed



section \<open>Settings and start\<close>

text \<open>
  An entry of the file wins over the command line, which wins over the initial value. The parser promises
  values of the declared types and those of its defaults. The heartbeat timeout has neither an option nor an
  initial value: without an entry it is whatever the memory of the variable held.
\<close>

lemma client_settings_precedence:
  assumes "vm ''connect-timeout'' = Some (IntValue connect)" and "vm ''watchdog-timeout'' = Some (IntValue watchdog)"
    and "vm ''startup-sleep'' = Some (IntValue sleep)" and "vm ''path'' = map_option StringValue path"
  shows "client_settings vm junk (Some (Inr pt)) = Inr
    \<lparr>domainPath = (case ini_string pt ''common.domain-path'' of Some p \<Rightarrow> p
                     | None \<Rightarrow> (case path of Some p \<Rightarrow> p | None \<Rightarrow> ''/var/run/domain'')),
     connectTimeout = sint (case ini_int pt ''client.connect-timeout'' of Some n \<Rightarrow> n | None \<Rightarrow> connect),
     heartbeatTimeout = sint (case ini_int pt ''client.heartbeat-timeout'' of Some n \<Rightarrow> n
                     | None \<Rightarrow> of_int (heartbeatTimeout junk)),
     startupSleep = sint sleep,
     watchdogTimeout = (case ini_int pt ''client.watchdog-timeout'' of Some n \<Rightarrow> n | None \<Rightarrow> watchdog),
     magicClose = (case ini_bool pt ''client.magic-close'' of Some b \<Rightarrow> b | None \<Rightarrow> given vm ''magic-close'')\<rparr>"
  using assms
  by (simp add: client_settings_def command_line_settings_def ini_settings_def assign_option_def given_def
      as_seconds_def as_int_def as_string_def Let_def split: option.split)

text \<open>
  The parts of the program, in the order \<open>main\<close> makes and starts them: the services, the manager, the
  signal handler object, the timer of the manager and its one connection. \<open>late\<close> says whether the services
  failed to report their start in time.
\<close>

definition client_start ::
  "bool \<Rightarrow> int \<Rightarrow> 'cb \<Rightarrow> client_config \<Rightarrow> 'cb timers \<Rightarrow> fault + 'w sig_handler \<times> 'cb timers" where
  "client_start late now handler c ts =
     (case IoServices_Start late service_new of
        (Inl f, _) \<Rightarrow> Inl f
      | (Inr _, services) \<Rightarrow>
          let h = SigHandler_new services (UnixConnectionManager_new (heartbeatTimeout c)) (watchdogTimeout c) (magicClose c)
          in case UnixConnectionManager_Start handler ts of
               (Inl f, _) \<Rightarrow> Inl f
             | (Inr _, ts) \<Rightarrow>
                 Inr (h\<lparr>sh_mgr := snd (UnixConnectionManager_TryAddConnection now (domainPath c) (sh_mgr h))\<rparr>, ts))"

lemma client_start_runs:
  assumes "client_start late now handler c ts = Inr (h, ts')"
  shows "sh_reach (watchdogTimeout c) (magicClose c) h \<and> runHandleValid (sh_services h)
    \<and> mg_connections (sh_mgr h) =
        [domainPath c \<mapsto> ClientUnixConnection_Start now (ClientUnixConnection_new (domainPath c))]"
proof -
  obtain services where s: "IoServices_Start late service_new = (Inr (), services)"
    and h: "h = (SigHandler_new services (UnixConnectionManager_new (heartbeatTimeout c)) (watchdogTimeout c) (magicClose c))
      \<lparr>sh_mgr := (UnixConnectionManager_new (heartbeatTimeout c))\<lparr>mg_connections :=
         [domainPath c \<mapsto> ClientUnixConnection_Start now (ClientUnixConnection_new (domainPath c))]\<rparr>\<rparr>"
    using assms
    by (auto simp: client_start_def UnixConnectionManager_TryAddConnection_def UnixConnectionManager_new_def
        SigHandler_new_def Let_def split: prod.splits sum.splits)
  let ?n = "SigHandler_new services (UnixConnectionManager_new (heartbeatTimeout c)) (watchdogTimeout c) (magicClose c)"
  have "h = ?n\<lparr>sh_services := services, sh_mgr := sh_mgr h\<rparr>" by (simp add: h SigHandler_new_def)
  moreover have "sh_reach (watchdogTimeout c) (magicClose c) (?n\<lparr>sh_services := services, sh_mgr := sh_mgr h\<rparr>)"
    by (rule sh_reach.others [OF sh_reach.start]) (simp add: SigHandler_new_def)
  moreover have "runHandleValid services"
    using s by (auto simp: IoServices_Start_def IoServicesImpl_Start_def service_new_def and_then_def Let_def
        split: if_splits)
  ultimately show ?thesis by (simp add: h SigHandler_new_def)
qed

end
