(* ===== verification/ServerPrograms.thy ===== *)
theory ServerPrograms
  imports DgramApi IoRegistry ProgramOptions
begin

text \<open>
  The rest of the small server programs: the settings and the datagrams of \<open>UnixDomainServer/main.cpp\<close>,
  and the TCP server of \<open>HelloAsio/main.cpp\<close> and \<open>TestCircularAsio/main.cpp\<close> with what the former sends to
  its clients.
\<close>

section \<open>Settings of the UNIX domain server\<close>

text \<open>
  The path and the destination of the datagrams. The configuration file is opened, which must succeed, and
  not read.
\<close>

definition domain_settings :: "variables_map \<Rightarrow> bool \<Rightarrow> fault + string \<times> string" where
  "domain_settings vm good =
     chain (assign_option vm ''path'' as_string ''/var/run/domain'') (\<lambda>domainPath.
     chain (assign_option vm ''dest-udp'' as_string ''255.255.255.255'') (\<lambda>destUdp.
       if \<not> good then Inl (RuntimeError (''Master service failed to load: '' @ ''/etc/catapult/optimeye.ini''))
       else Inr (domainPath, destUdp)))"

lemma domain_settings_found:
  assumes "vm ''path'' = map_option StringValue path" and "vm ''dest-udp'' = map_option StringValue dest"
  shows "domain_settings vm True =
    Inr (case path of None \<Rightarrow> ''/var/run/domain'' | Some p \<Rightarrow> p, case dest of None \<Rightarrow> ''255.255.255.255'' | Some d \<Rightarrow> d)"
  using assms by (simp add: domain_settings_def assign_option_def given_def as_string_def split: option.split)

section \<open>Its datagrams\<close>

text \<open>
  Before its loop the program makes its listener able to broadcast, starts to receive, and makes the end point
  it sends to; each round of the loop then sends two datagrams, the first through an end point of its own.
\<close>

definition domain_port :: c_int where
  "domain_port = 4343"

definition hello_world :: "byte list" where
  "hello_world = map of_char ''hello world''"

definition status_bytes :: "byte list" where
  "status_bytes = [0x23, 0x4d, 0x4a]"

definition domain_listen ::
  "bool \<Rightarrow> udp_boost \<Rightarrow> (string \<Rightarrow> c_int \<Rightarrow> fault + IoEndPoint) \<Rightarrow> string \<Rightarrow> 'cb udp_listener stream_handle \<Rightarrow>
   (IoEndPoint, 'cb udp_listener stream_handle) outcome" where
  "domain_listen nd bst make_ep destUdp h =
     and_then (DgramListener_EnableBroadcast bst h)
       (\<lambda>_ h. and_then (DgramListener_LaunchRead nd h) (\<lambda>_ h. (make_ep destUdp domain_port, h)))"

definition domain_round ::
  "udp_boost \<Rightarrow> (string \<Rightarrow> c_int \<Rightarrow> fault + IoEndPoint) \<Rightarrow> string \<Rightarrow> IoEndPoint \<Rightarrow> 'cb udp_listener stream_handle \<Rightarrow>
   (unit, 'cb udp_listener stream_handle) outcome" where
  "domain_round bst make_ep destUdp dest h =
     and_then (DgramListener_AsyncSendTo_string bst make_ep hello_world destUdp domain_port False h)
       (\<lambda>_. DgramListener_AsyncSendTo_bytes bst status_bytes dest)"

text \<open>
  A round adds exactly its two datagrams to the queue, in order and with the same destination, and sends the
  first of them at once if nothing was queued and the socket is open.
\<close>

lemma queue_datagram:
  assumes "udp_outQueue u \<noteq> [] \<or> socket_is_open bst (udp_calls u)"
    and "UdpBufferWrapper_DestEp m = Some ep" and "IoEndPoint_ToBoost ep = Inr to"
  shows "UdpListener_QueueOrWriteBuffer bst m u =
    (Inr (), if udp_outQueue u \<noteq> [] then u\<lparr>udp_outQueue := udp_outQueue u @ [m]\<rparr>
      else (udp_call (Udp_send_to (UdpBufferWrapper_ToBoost m) to) (u\<lparr>udp_outQueue := [m]\<rparr>))
        \<lparr>udp_pending := udp_pending u @ [m]\<rparr>)"
  using assms
  by (cases "udp_outQueue u") (simp_all add: UdpListener_QueueOrWriteBuffer_def UdpListener_LaunchWrite_def Let_def)

definition hello_datagram :: "IoEndPoint \<Rightarrow> udp_buffer" where
  "hello_datagram ep = \<lparr>bufferWrapper = IoBufferWrapper_move_string hello_world False, destEndPoint = Some ep\<rparr>"

definition status_datagram :: "IoEndPoint \<Rightarrow> udp_buffer" where
  "status_datagram ep = \<lparr>bufferWrapper = IoBufferWrapper_bytes status_bytes, destEndPoint = Some ep\<rparr>"

lemma domain_round_queues:
  assumes "peerConnection h = Some u" and "udp_outQueue u \<noteq> [] \<or> socket_is_open bst (udp_calls u)"
    and "make_ep destUdp domain_port = Inr ep" and "IoEndPoint_ToBoost ep = Inr to" and "IoEndPoint_copy dest = Inr ep'"
  shows "\<exists>u'. domain_round bst make_ep destUdp dest h = (Inr (), h\<lparr>peerConnection := Some u'\<rparr>)
    \<and> udp_outQueue u' = udp_outQueue u @ [hello_datagram ep, status_datagram ep']
    \<and> udp_pending u' = udp_pending u @ (if udp_outQueue u = [] then [hello_datagram ep] else [])"
proof -
  note q = queue_datagram [OF assms(2), of "hello_datagram ep" ep to]
  have first: "DgramListener_AsyncSendTo_string bst make_ep hello_world destUdp domain_port False h =
      (Inr (), h\<lparr>peerConnection := Some (snd (UdpListener_QueueOrWriteBuffer bst (hello_datagram ep) u))\<rparr>)"
    using q assms(1,3,4)
    by (simp add: DgramListener_AsyncSendTo_string_def locked_def UdpListener_AsyncSendTo_string_def
        UdpBufferWrapper_string_to_def hello_datagram_def UdpBufferWrapper_DestEp_def)
  then obtain u1 where first: "DgramListener_AsyncSendTo_string bst make_ep hello_world destUdp domain_port False h =
      (Inr (), h\<lparr>peerConnection := Some u1\<rparr>)"
    and u1: "udp_outQueue u1 = udp_outQueue u @ [hello_datagram ep]"
      "udp_pending u1 = udp_pending u @ (if udp_outQueue u = [] then [hello_datagram ep] else [])"
    using q assms(4) by (simp add: hello_datagram_def UdpBufferWrapper_DestEp_def udp_call_def)
  then have "DgramListener_AsyncSendTo_bytes bst status_bytes dest (h\<lparr>peerConnection := Some u1\<rparr>) =
      (Inr (), h\<lparr>peerConnection := Some (u1\<lparr>udp_outQueue := udp_outQueue u1 @ [status_datagram ep']\<rparr>)\<rparr>)"
    using assms(5)
    by (simp add: DgramListener_AsyncSendTo_bytes_def locked_def UdpListener_AsyncSendTo_bytes_def
        UdpBufferWrapper_bytes_to_def status_datagram_def UdpListener_QueueOrWriteBuffer_def Let_def)
  with first u1 show ?thesis
    by (intro exI [of _ "u1\<lparr>udp_outQueue := udp_outQueue u1 @ [status_datagram ep']\<rparr>"]) (simp add: domain_round_def)
qed

section \<open>The TCP server on port 23\<close>

text \<open>
  Both programs add and start it on services of their own; \<open>HelloAsio\<close> then sends a greeting to every client
  three times in each round of its loop.
\<close>

definition serve_port_23 ::
  "(c_int, end_point) server_env \<Rightarrow> (nat \<Rightarrow> nat) \<Rightarrow> (nat \<Rightarrow> end_point server_conn) \<Rightarrow> nat \<Rightarrow> registry \<Rightarrow>
   (unit, registry) outcome" where
  "serve_port_23 e grow heap n r =
     and_then (IoServicesImpl_AddTcpServer grow (TcpServer_new 23 True True heap n) r)
       (\<lambda>_. IoServicesImpl_StartTcpServer e 23)"

definition hello_greeting :: "byte list" where
  "hello_greeting = map of_char ''Hello World!''"

definition hello_round :: "registry \<Rightarrow> (unit, registry) outcome" where
  "hello_round r =
     and_then (IoServicesImpl_SendToAllServerConnections hello_greeting True r)
       (\<lambda>_ r. and_then (IoServicesImpl_SendToAllServerConnections hello_greeting True r)
          (\<lambda>_. IoServicesImpl_SendToAllServerConnections hello_greeting True))"

lemma serve_port_23_listens:
  assumes "env_bind_throws e 23 = None"
  shows "\<exists>s. serve_port_23 e grow heap n registry_new = (Inr (), registry_new\<lparr>tcpServers := [s], tcpCapacity := grow 0\<rparr>)
    \<and> srv_at s = 23 \<and> srv_open s = Some True \<and> srv_accepting s = [n] \<and> srv_connections s = []"
  using assms
  by (simp add: serve_port_23_def IoServicesImpl_AddTcpServer_def registry_new_def vector_emplace_back_def
      IoServicesImpl_StartTcpServer_def TcpServer_GetPort_def TcpServer_Start_def TcpServer_new_def
      TcpServer_AsyncAccept_def put_conn_def Let_def)

lemma send_to_the_server:
  assumes "\<not> srv_locked s" and "distinct (srv_connections s)" and "tcpServers r = [s]"
  shows "IoServicesImpl_SendToAllServerConnections msg nt r =
    (Inr (), r\<lparr>tcpServers := [s\<lparr>srv_heap :=
       update_conns (tcp_enqueue (IoBufferWrapper_move_string msg nt)) (srv_connections s) (srv_heap s)\<rparr>]\<rparr>)"
  using server_broadcast [OF assms(1,2), of msg nt] assms(3)
  by (simp add: IoServicesImpl_SendToAllServerConnections_def)

text \<open>Every client of the server gets the three greetings, terminated, behind what was queued for it.\<close>

lemma hello_round_greets:
  assumes "\<not> srv_locked s" and "distinct (srv_connections s)" and "tcpServers r = [s]"
  shows "\<exists>t. hello_round r = (Inr (), r\<lparr>tcpServers := [t]\<rparr>) \<and> srv_connections t = srv_connections s
    \<and> (\<forall>i \<in> set (srv_connections s). tcp_outQueue (srv_heap t i) =
         tcp_outQueue (srv_heap s i) @ replicate 3 (IoBufferWrapper_move_string hello_greeting True))"
proof -
  let ?g = "\<lambda>s. s\<lparr>srv_heap := update_conns (tcp_enqueue (IoBufferWrapper_move_string hello_greeting True))
    (srv_connections s) (srv_heap s)\<rparr> :: tcp_server"
  have send: "IoServicesImpl_SendToAllServerConnections hello_greeting True (r\<lparr>tcpServers := [t]\<rparr>) =
      (Inr (), r\<lparr>tcpServers := [?g t]\<rparr>)" if "\<not> srv_locked t" "distinct (srv_connections t)" for t
    using send_to_the_server [OF that, of "r\<lparr>tcpServers := [t]\<rparr>"] by simp
  have "r\<lparr>tcpServers := [s]\<rparr> = r" using assms(3) by (cases r) simp
  with send [of s] send [of "?g s"] send [of "?g (?g s)"] assms(1,2)
  have "hello_round r = (Inr (), r\<lparr>tcpServers := [?g (?g (?g s))]\<rparr>)" by (simp add: hello_round_def)
  then show ?thesis
    by (intro exI [of _ "?g (?g (?g s))"])
      (simp add: update_conns_def tcp_queue.enqueue_queue numeral_3_eq_3)
qed

end
