(* ===== verification/ClientDatagrams.thy ===== *)
theory ClientDatagrams
  imports IoListeners ServerPrograms
begin

text \<open>
  The datagrams of the program \<open>UnixDomainClient\<close> (the last part of \<open>main.cpp\<close>): a sender that is connected to a
  fixed address, and the loop of the main thread that writes to it, over the datagram listeners of the services
  object.
\<close>

section \<open>The program\<close>

text \<open>
  The callbacks only write to the system log and set the two flags of \<open>main\<close>, which are therefore functions of
  what the application was told. The flag of an error is not looked at anywhere.
\<close>

definition client_dgram_app :: "dgram_event \<Rightarrow> dgrams \<Rightarrow> dgram_api app_step list" where
  "client_dgram_app ev s = []"

definition isConnected :: "dgrams \<Rightarrow> bool" where
  "isConnected s \<longleftrightarrow> (\<exists>ev \<in> set (dg_told s). case ev of Told_dgram_connected i \<Rightarrow> True | _ \<Rightarrow> False)"

definition isInError :: "dgrams \<Rightarrow> bool" where
  "isInError s \<longleftrightarrow> (\<exists>ev \<in> set (dg_told s). case ev of Told_dgram_error i m \<Rightarrow> True | _ \<Rightarrow> False)"

text \<open>Making the sender and connecting it; its number is the result.\<close>

definition client_sender :: "dgram_env \<Rightarrow> dgrams \<Rightarrow> (nat, dgrams) outcome" where
  "client_sender e s =
     and_then (dgram_do e Unbound s)
       (\<lambda>_ s. let i = last (dg_held s)
              in and_then (dgram_do e (Dg_connect i ''192.168.7.1'' 8784) s) (\<lambda>_ s. (Inr i, s)))"

text \<open>
  The loop. A round is one element of the list: whether the signal handler object is still there when it is
  looked at, and what the handlers do while the thread sleeps.
\<close>

definition client_dgram_round :: "dgram_env \<Rightarrow> nat \<Rightarrow> dgrams \<Rightarrow> (unit, dgrams) outcome" where
  "client_dgram_round e i s =
     (if isConnected s then dgram_do e (Dg_write i hello_world False) s else (Inr (), s))"

fun client_dgram_loop ::
  "dgram_env \<Rightarrow> nat \<Rightarrow> (bool \<times> (dgrams \<Rightarrow> dgrams)) list \<Rightarrow> dgrams \<Rightarrow> (unit, dgrams) outcome" where
  "client_dgram_loop e i [] s = (Inr (), s)"
| "client_dgram_loop e i ((running, handlers) # rounds) s =
     (if \<not> running then (Inr (), s)
      else and_then (client_dgram_round e i s) (\<lambda>_ s. client_dgram_loop e i rounds (handlers s)))"

section \<open>What it does\<close>

text \<open>The sender is set up without reading, and its connect is outstanding before the loop begins.\<close>

lemma sender_set_up:
  obtains u where "UdpListener_SetupChainedRead nd (Some On_datagram) (Some On_dgram_error) DatagramMtu False UdpListener_new
      = (Inr (), u)" and "udp_errorCallback u = Some On_dgram_error"
  by (cases "UdpListener_SetupChainedRead nd (Some On_datagram) (Some On_dgram_error) DatagramMtu False UdpListener_new")
    (auto simp: UdpListener_SetupChainedRead_def udp_on_buffer_def on_host_def IoCircularBuffer_BeginChainedRead_def
      UdpListener_readSome_def UdpListener_new_def IoCircularBuffer_move_assign_def IoCircularBuffer_default_def
      IoCircularBuffer_new_def cassert_def Let_def)

lemma client_sender_connects:
  assumes "dg_from_string e ''192.168.7.1'' = Inr ip"
  shows "\<exists>s. client_sender e dgrams_new = (Inr 0, s) \<and> dg_map s = [0] \<and> dg_held s = [0]
    \<and> dg_connecting s = [(0, ip, 8784)] \<and> dg_told s = []"
proof -
  obtain u where "UdpListener_SetupChainedRead (dg_nd e) (Some On_datagram) (Some On_dgram_error) DatagramMtu False
      UdpListener_new = (Inr (), u)" and "udp_errorCallback u = Some On_dgram_error"
    by (rule sender_set_up)
  with assms show ?thesis
    by (simp add: client_sender_def IoServices_UnboundDgramListener_def IoServicesImpl_MakeUnboundUdpListener_def
        dg_add_def dg_hand_out_def IoServices_SetupReadCallbacks_def on_host_def dgrams_new_def dg_connect_def
        DgramListener_AsyncConnect_def locked_def dg_handle_def dg_alive_def dg_put_handle_def dg_put_def dg_get_def
        UdpListener_AsyncConnect_def cassert_def udp_call_def Let_def)
qed

text \<open>
  Before the connect completed a round does nothing. Then it queues its datagram while the listener lives; when
  the listener is gone, which an error brings about, the write throws and ends the loop.
\<close>

lemma client_round_waits: "\<not> isConnected s \<Longrightarrow> client_dgram_round e i s = (Inr (), s)"
  by (simp add: client_dgram_round_def)

lemma client_round_writes:
  assumes "isConnected s" and "i \<in> set (dg_held s)" and "dg_alive i s" and "udp_outQueue (dg_get i s) \<noteq> []"
  shows "client_dgram_round e i s =
    (Inr (), dg_put i ((dg_get i s)\<lparr>udp_outQueue := udp_outQueue (dg_get i s) @ [UdpBufferWrapper_move_string hello_world False]\<rparr>) s)"
  using assms
  by (simp add: client_dgram_round_def dg_use_def DgramListener_AsyncWrite_string_def locked_def dg_handle_def
      UdpListener_AsyncWrite_string_def UdpListener_QueueOrWriteBuffer_def dg_put_handle_def Let_def)

lemma client_round_expired:
  assumes "isConnected s" and "i \<in> set (dg_held s)" and "\<not> dg_alive i s"
  shows "client_dgram_round e i s = (Inl (RuntimeError ''DGRAM Async Write Connection expired.''), s)"
  using assms
  by (simp add: client_dgram_round_def dg_use_def DgramListener_AsyncWrite_string_def locked_def dg_handle_def
      dg_put_handle_def)

lemma client_loop_expired:
  assumes "isConnected s" and "i \<in> set (dg_held s)" and "\<not> dg_alive i s"
  shows "client_dgram_loop e i ((True, handlers) # rounds) s =
    (Inl (RuntimeError ''DGRAM Async Write Connection expired.''), s)"
  by (simp add: client_round_expired [OF assms])

end
