(* ===== verification/DomainServer.thy ===== *)
theory DomainServer
  imports IoRegistry IoTimers
begin

text \<open>
  The server program of UNIX domain sockets, class \<open>Impl\<close> of \<open>UnixDomainServer/main.cpp\<close>: it keeps a
  handle of every connection its server accepts and writes a heartbeat to each of them whenever a periodic
  timer expires. The server and the timers are those of the library.
\<close>

section \<open>State\<close>

text \<open>
  \<open>hb_server\<close> is the server of the program in the registry of the services object, \<open>hb_connections\<close> the
  handles in the order they were stored, by the connection they were made for: the map of the source is
  keyed by the handle itself, and every accept makes a new one. A handle reaches its connection as long as
  the server lists it.
\<close>

record heartbeat_app =
  hb_server :: unix_server
  hb_connections :: "nat list"

definition hb_handle :: "nat \<Rightarrow> unix_server \<Rightarrow> server_cb domain_conn stream_handle" where
  "hb_handle i s =
     (if i \<in> set (srv_connections s) then UnixStreamConnection_new (get_conn i s) False
      else \<lparr>peerConnection = None, isClientSide = False\<rparr>)"

section \<open>Operations\<close>

definition Impl_acceptor :: "nat \<Rightarrow> heartbeat_app \<Rightarrow> heartbeat_app" where
  "Impl_acceptor conn a = a\<lparr>hb_connections := hb_connections a @ [conn]\<rparr>"

text \<open>The read callback only writes a line to the system log.\<close>

definition Impl_clientReader :: "nat \<Rightarrow> c_int \<Rightarrow> unix_server \<Rightarrow> (unit, unix_server) outcome" where
  "Impl_clientReader conn avail s = (Inr (), s)"

definition heartbeat_text :: "byte list" where
  "heartbeat_text = map of_char ''heartbeat''"

text \<open>One round of the loop: an exception of the write is caught.\<close>

definition Impl_write :: "nat \<Rightarrow> heartbeat_app \<Rightarrow> (unit, heartbeat_app) outcome" where
  "Impl_write i a =
     (case UnixStreamConnection_AsyncWrite_string heartbeat_text True (hb_handle i (hb_server a)) of
        (r, h) \<Rightarrow>
          let a1 = (case peerConnection h of None \<Rightarrow> a | Some c \<Rightarrow> a\<lparr>hb_server := put_conn i c (hb_server a)\<rparr>)
          in case r of
               Inl f \<Rightarrow> if catchable f then (Inr (), a1) else (Inl f, a1)
             | Inr _ \<Rightarrow> (Inr (), a1))"

definition Impl_timeout :: "heartbeat_app \<Rightarrow> (unit, heartbeat_app) outcome" where
  "Impl_timeout a = for_each Impl_write (hb_connections a) a"

definition domain_heartbeat :: periodic_timer where
  "domain_heartbeat = PeriodicTimer 99 ''Heartbeat''"

text \<open>\<open>Start\<close> on the registry and the timers of the services object, stopping at the first exception.\<close>

definition Impl_Start ::
  "(nat \<Rightarrow> nat) \<Rightarrow> (string \<Rightarrow> string set \<Rightarrow> string set) \<Rightarrow> (string \<Rightarrow> string set \<Rightarrow> fault + string set) \<Rightarrow>
   (nat \<Rightarrow> string server_conn) \<Rightarrow> nat \<Rightarrow> 'cb \<Rightarrow> string \<Rightarrow> registry \<times> 'cb timers \<Rightarrow> (unit, registry \<times> 'cb timers) outcome" where
  "Impl_Start grow delete bind heap n timeout path s =
     and_then (on_host fst (\<lambda>r s. (r, snd s)) (IoServicesImpl_AddUnixServer grow (UnixServer_new path True True heap n)) s)
       (\<lambda>_ s. and_then (on_host fst (\<lambda>r s. (r, snd s)) (IoServicesImpl_StartUnixServer delete bind path) s)
          (\<lambda>_ s. on_host snd (\<lambda>t s. (fst s, t))
             (\<lambda>t. IoServices_SetPeriodicTimer domain_heartbeat 5 (Some timeout)
                (IoServices_InitialisePeriodicTimer domain_heartbeat t)) s))"

section \<open>Runs\<close>

text \<open>
  The server runs with an accept callback that stores the handle and does nothing else, so a step of the
  server stores handles of the connections that it puts on the list.
\<close>

definition hb_env :: "(string, string) server_env \<Rightarrow> bool" where
  "hb_env e \<longleftrightarrow> (\<forall>i s. env_accept e i s = (Inr (), s)) \<and> env_read e = Impl_clientReader"

inductive hb_step :: "(string, string) server_env \<Rightarrow> heartbeat_app \<Rightarrow> heartbeat_app \<Rightarrow> bool" for e where
  server: "unix_server_step e (hb_server a) s \<Longrightarrow>
    hb_step e a (fold Impl_acceptor (filter (\<lambda>i. i \<notin> set (srv_connections (hb_server a))) (srv_connections s))
      (a\<lparr>hb_server := s\<rparr>))"
| heartbeat: "Impl_timeout a = (r, a') \<Longrightarrow> hb_step e a a'"

inductive_cases hb_stepE [consumes 1, case_names server heartbeat]: "hb_step e a a'"

section \<open>Invariant\<close>

text \<open>Every listed connection has its handle, once, and no handle is of a connection still to be accepted.\<close>

definition hb_ok :: "heartbeat_app \<Rightarrow> bool" where
  "hb_ok a \<longleftrightarrow> srv_inv (hb_server a) \<and> all_plain (hb_server a)
     \<and> set (srv_connections (hb_server a)) \<subseteq> set (hb_connections a)
     \<and> distinct (hb_connections a @ srv_accepting (hb_server a))
     \<and> (\<forall>i \<in> set (hb_connections a). i < srv_next (hb_server a))"

lemma fold_acceptor: "fold Impl_acceptor is a = a\<lparr>hb_connections := hb_connections a @ is\<rparr>"
  by (induction "is" arbitrary: a) (simp_all add: Impl_acceptor_def)

lemma hb_env_frame: "hb_env e \<Longrightarrow> server_app_frame e"
  by (simp add: hb_env_def server_app_frame_def Impl_clientReader_def)

lemma write_heartbeat:
  assumes "all_plain (hb_server a)"
  shows "Impl_write i a =
    (Inr (), if i \<in> set (srv_connections (hb_server a))
       then a\<lparr>hb_server := put_conn i (tcp_enqueue (IoBufferWrapper_move_string heartbeat_text True)
              (get_conn i (hb_server a))) (hb_server a)\<rparr>
       else a)"
proof (cases "i \<in> set (srv_connections (hb_server a))")
  case True
  then show ?thesis
    using all_plain_get [OF assms, of i]
    by (simp add: Impl_write_def hb_handle_def UnixStreamConnection_new_def UnixStreamConnection_AsyncWrite_string_def
        locked_def TcpDomainConnection_AsyncWrite_string_def domain_queue_eq queue_or_launch_ok)
next
  case False
  then show ?thesis
    by (cases a) (simp add: Impl_write_def hb_handle_def UnixStreamConnection_AsyncWrite_string_def locked_def)
qed

lemma enqueue_class [simp]: "tcp_class (tcp_enqueue m c) = tcp_class c"
  by (simp add: tcp_send_defs Let_def split: list.split transport.split)

lemma heartbeat_loop:
  assumes "all_plain (hb_server a)" and "distinct is"
  shows "for_each Impl_write is a = (Inr (), a\<lparr>hb_server := (hb_server a)\<lparr>srv_heap :=
      update_conns (tcp_enqueue (IoBufferWrapper_move_string heartbeat_text True))
        (filter (\<lambda>i. i \<in> set (srv_connections (hb_server a))) is) (srv_heap (hb_server a))\<rparr>\<rparr>)"
  using assms
proof (induction "is" arbitrary: a)
  case (Cons i "is")
  let ?g = "tcp_enqueue (IoBufferWrapper_move_string heartbeat_text True)" and ?s = "hb_server a"
  show ?case
  proof (cases "i \<in> set (srv_connections ?s)")
    case True
    let ?t = "put_conn i (?g (get_conn i ?s)) ?s"
    have "all_plain ?t" using all_plain_put [OF Cons.prems(1)] all_plain_get [OF Cons.prems(1), of i] by simp
    with Cons.IH [of "a\<lparr>hb_server := ?t\<rparr>"] Cons.prems(2) True show ?thesis
      by (auto simp: write_heartbeat [OF Cons.prems(1)] put_conn_def get_conn_def update_conns_def fun_eq_iff)
  next
    case False
    with Cons.IH [of a] Cons.prems show ?thesis by (simp add: write_heartbeat [OF Cons.prems(1)])
  qed
qed (simp add: update_conns_def)

lemma update_plain: "all_plain s \<Longrightarrow> all_plain (s\<lparr>srv_heap := update_conns (tcp_enqueue m) is (srv_heap s)\<rparr>)"
  by (simp add: all_plain_def update_conns_def)

lemma hb_step_ok:
  assumes "hb_env e" and "hb_step e a a'" and ok: "hb_ok a"
  shows "hb_ok a'"
  using assms(2)
proof (cases rule: hb_stepE)
  case (server s)
  let ?s = "hb_server a" and ?new = "filter (\<lambda>i. i \<notin> set (srv_connections (hb_server a))) (srv_connections s)"
  note frame = hb_env_frame [OF assms(1)]
  have inv: "srv_inv ?s" and plain: "all_plain ?s" using ok by (simp_all add: hb_ok_def)
  have step: "server_step e ?s s" by (rule unix_step_tcp [OF server(2) plain])
  have inv': "srv_inv s" and "all_plain s"
    using server_step_inv [OF frame step inv] server_step_plain [OF frame step plain] inv by (auto simp: srv_inv_def)
  have a': "hb_server a' = s" "hb_connections a' = hb_connections a @ ?new"
    using server(1) by (simp_all add: fold_acceptor)
  from frame step show ?thesis
  proof (cases rule: server_step_frame)
    case frame
    then have "?new = []" by (auto simp: srv_frame_def filter_empty_conv)
    with frame ok inv' \<open>all_plain s\<close> a' show ?thesis by (auto simp: hb_ok_def srv_frame_def)
  next
    case (accepted i ec r)
    have acc: "srv_accepting ?s = [i]" using inv accepted(1) by (cases "srv_accepting ?s") (auto simp: srv_inv_def)
    have o: "srv_open (?s\<lparr>srv_accepting := remove1 i (srv_accepting ?s)\<rparr>) \<noteq> None"
      using inv by (simp add: srv_inv_def)
    note out = accept_handler_outcome [OF frame o accepted(2)]
    have new: "set ?new \<subseteq> {i}" "distinct ?new"
      using out inv' by (auto simp: srv_inv_def)
    have i: "i \<notin> set (hb_connections a)" "i < srv_next ?s"
      using ok acc inv by (auto simp: hb_ok_def srv_inv_def)
    have succ: "srv_next ?s \<le> srv_next s" and sub: "set (srv_accepting s) \<subseteq> {srv_next ?s}"
      using out acc by (auto split: if_splits)
    have "distinct (hb_connections a')" using ok new i a' by (auto simp: hb_ok_def)
    moreover have "\<forall>j \<in> set (hb_connections a'). j < srv_next ?s"
      using ok new i a' by (auto simp: hb_ok_def)
    moreover have "distinct (srv_accepting s)" using inv' by (simp add: srv_inv_def)
    ultimately have "distinct (hb_connections a' @ srv_accepting s)" "\<forall>j \<in> set (hb_connections a'). j < srv_next s"
      using sub succ by fastforce+
    moreover have "set (srv_connections s) \<subseteq> set (hb_connections a')" using ok a' by (auto simp: hb_ok_def)
    ultimately show ?thesis using inv' \<open>all_plain s\<close> a' by (simp add: hb_ok_def)
  qed
next
  case (heartbeat r)
  then have "a' = snd (for_each Impl_write (hb_connections a) a)" by (simp add: Impl_timeout_def)
  with ok heartbeat_loop [of a "hb_connections a"] show ?thesis
    by (simp add: hb_ok_def srv_inv_def update_plain)
qed

lemma hb_steps_ok: "(hb_step e)\<^sup>*\<^sup>* a a' \<Longrightarrow> hb_env e \<Longrightarrow> hb_ok a \<Longrightarrow> hb_ok a'"
  by (induction rule: rtranclp_induct) (auto intro: hb_step_ok)

lemma hb_start_ok:
  assumes "UnixServer_Start delete bind (UnixServer_new path acc rd heap n, files) = (Inr (), (s, files'))"
    and "\<And>i. tcp_class (heap i) = Plain"
  shows "hb_ok \<lparr>hb_server = s, hb_connections = []\<rparr>"
proof -
  have "srv_connections s = []"
    using assms(1) by (auto simp: UnixServer_Start_def UnixServer_new_def UnixServer_AsyncAccept_def put_conn_def
        Let_def split: sum.splits)
  with unix_start_state [OF assms(1)] assms(2) show ?thesis
    by (simp add: hb_ok_def all_plain_def srv_inv_def TcpDomainConnection_new_def)
qed

section \<open>Properties\<close>


text \<open>The program after its server was started and a client has connected.\<close>

definition hb_started :: "unix_server" where
  "hb_started = fst (snd (UnixServer_Start fs_delete fs_bind (unix_example, {})))"

definition hb_example :: heartbeat_app where
  "hb_example = \<lparr>hb_server = snd (UnixServer_AcceptHandler quiet_unix 0 no_error (hb_started\<lparr>srv_accepting := []\<rparr>)),
     hb_connections = [0]\<rparr>"

lemma hb_started_start:
  "UnixServer_Start fs_delete fs_bind (unix_example, {}) = (Inr (), (hb_started, {''/tmp/s''}))"
  by (simp add: hb_started_def UnixServer_Start_def fs_delete_def fs_bind_def UnixServer_AsyncAccept_def
      unix_example_def UnixServer_new_def Let_def)

lemma hb_started_eq: "hb_started = unix_example\<lparr>srv_open := Some True, srv_accepting := [0], srv_next := 1,
    srv_heap := (srv_heap unix_example)(0 := TcpDomainConnection_new (Some On_error))\<rparr>"
  by (simp add: hb_started_def unix_example_def UnixServer_Start_def UnixServer_new_def UnixServer_AsyncAccept_def
      fs_delete_def fs_bind_def put_conn_def Let_def)

lemma hb_example_server:
  "srv_connections (hb_server hb_example) = [0]" "tcp_outQueue (get_conn 0 (hb_server hb_example)) = []"
proof -
  obtain c where c: "TcpPeerConnection_BeginChainedRead False (Some On_available) (Some On_error) ChunkSize
      (TcpDomainConnection_new (Some On_error)) = (Inr (), c)" "tcp_outQueue c = []"
    by (simp add: TcpDomainConnection_new_def TcpPeerConnection_BeginChainedRead_def tcp_on_buffer_def circ_eval
        ChunkSize_def)
  then show "srv_connections (hb_server hb_example) = [0]" "tcp_outQueue (get_conn 0 (hb_server hb_example)) = []"
    by (simp_all add: hb_example_def hb_started_eq unix_example_def UnixServer_new_def UnixServer_AcceptHandler_def
        UnixServer_OnAccept_def UnixServer_AsyncAccept_def domain_begin_eq on_host_def put_conn_def get_conn_def
        with_mutex_def quiet_unix_def Let_def)
qed

lemma hb_example_run: "(hb_step quiet_unix)\<^sup>*\<^sup>* \<lparr>hb_server = hb_started, hb_connections = []\<rparr> hb_example"
proof (rule r_into_rtranclp)
  have acc: "srv_accepting hb_started = [0]" "srv_connections hb_started = []"
    by (simp_all add: hb_started_eq unix_example_def UnixServer_new_def)
  have "unix_server_step quiet_unix hb_started (hb_server hb_example)"
    by (rule unix_server_step.accepted [where i = 0 and ec = no_error and r = "fst (UnixServer_AcceptHandler quiet_unix 0
        no_error (hb_started\<lparr>srv_accepting := []\<rparr>))"]) (simp_all add: acc hb_example_def)
  then show "hb_step quiet_unix \<lparr>hb_server = hb_started, hb_connections = []\<rparr> hb_example"
    using hb_step.server [of quiet_unix "\<lparr>hb_server = hb_started, hb_connections = []\<rparr>" "hb_server hb_example"]
    by (simp add: acc hb_example_server) (simp add: hb_example_def Impl_acceptor_def)
qed


text \<open>No handle is ever taken out of the map: the error callback that would do it is given to nobody.\<close>

lemma write_keeps_handles: "hb_connections (snd (Impl_write i a)) = hb_connections a"
  by (auto simp: Impl_write_def Let_def split: prod.splits sum.splits option.splits)

lemma loop_keeps_handles: "hb_connections (snd (for_each Impl_write is a)) = hb_connections a"
proof (induction "is" arbitrary: a)
  case (Cons i "is")
  obtain r b where "Impl_write i a = (r, b)" by fastforce
  with Cons.IH [of b] write_keeps_handles [of i a] show ?case by (cases r) simp_all
qed simp

lemma handles_stay:
  assumes "(hb_step e)\<^sup>*\<^sup>* a a'"
  obtains more where "hb_connections a' = hb_connections a @ more"
proof -
  have "\<exists>more. hb_connections a' = hb_connections a @ more"
    using assms
  proof (induction rule: rtranclp_induct)
    case (step b c)
    from step.hyps(2) have "\<exists>more. hb_connections c = hb_connections b @ more"
    proof (cases rule: hb_stepE)
      case (heartbeat r)
      with loop_keeps_handles [of "hb_connections b" b] show ?thesis by (simp add: Impl_timeout_def)
    qed (simp add: fold_acceptor)
    with step.IH show ?case by auto
  qed simp
  with that show thesis by blast
qed

end
