(* ===== verification/SslServerProgram.thy ===== *)
theory SslServerProgram
  imports IoRegistry ProgramOptions
begin

text \<open>
  The program \<open>RunSslServer/main.cpp\<close>: it widens its arguments, has them parsed, makes the security
  options of a TCP server from them and starts the server. The parser is \<open>boost::program_options\<close>, a
  parameter of the model.
\<close>

section \<open>Wide strings\<close>

text \<open>
  The program makes each kind of string from the characters of the other, one by one: the one way extends
  the sign, the other keeps the low byte.
\<close>

definition wide_of_string :: "string \<Rightarrow> wide" where
  "wide_of_string s = map (\<lambda>c. scast (of_char c :: byte)) s"

definition string_of_wide :: "wide \<Rightarrow> string" where
  "string_of_wide w = map (\<lambda>x. char_of (unat (ucast x :: byte))) w"

definition wide_args :: "string list \<Rightarrow> wide list" where
  "wide_args argv = map wide_of_string argv"

section \<open>Options\<close>

text \<open>The assignment of an option that is given, over the initial value of its variable.\<close>

definition wide_option :: "variables_map \<Rightarrow> string \<Rightarrow> string \<Rightarrow> fault + wide" where
  "wide_option vm name initial = assign_option vm name as_wide (wide_of_string initial)"

text \<open>The security options, made narrow; the callback narrows the password when it is called.\<close>

definition RunSslServer_security :: "wide \<Rightarrow> wide \<Rightarrow> wide \<Rightarrow> wide \<Rightarrow> bool \<Rightarrow> wide \<Rightarrow> security_options" where
  "RunSslServer_security cert privateKey diffieHellman password verifyClient clientVerifyFile =
     \<lparr>CertificateFilename = string_of_wide cert,
      PrivKeyFilename = string_of_wide privateKey,
      DHExchangeFilename = string_of_wide diffieHellman,
      GetPasswordCallback = Some (Inr (string_of_wide password)),
      VerifyClient = verifyClient,
      ClientVerifyFile = string_of_wide clientVerifyFile\<rparr>"

text \<open>
  From the options to the exit code of the program (\<open>Inl\<close>) or the port of the server and its security
  options (\<open>Inr\<close>).
\<close>

definition RunSslServer_options :: "variables_map \<Rightarrow> fault + c_int + c_int \<times> security_options" where
  "RunSslServer_options vm =
     (if given vm ''help'' then Inr (Inl 1)
      else
        chain (wide_option vm ''cert'' ''fd-serv.crt'') (\<lambda>cert.
        chain (wide_option vm ''private-key'' ''fd-rsa-priv.key'') (\<lambda>privateKey.
        chain (wide_option vm ''diffie-hellman'' ''dh1024.pem'') (\<lambda>diffieHellman.
        chain (wide_option vm ''client-file'' ''CARoot.pem'') (\<lambda>clientVerifyFile.
        chain (as_int vm ''port'') (\<lambda>port.
          if given vm ''password''
          then chain (as_wide vm ''password'') (\<lambda>password.
            Inr (Inr (port, RunSslServer_security cert privateKey diffieHellman password
                              (given vm ''verify-client'') clientVerifyFile)))
          else Inr (Inl (- 1))))))))"

section \<open>The program\<close>

text \<open>
  \<open>Inr (Some code)\<close> is the end of \<open>main\<close>, \<open>Inr None\<close> its loop, which sleeps for ever. The services
  object is its own; a caught exception ends the program with the code 0.
\<close>

definition RunSslServer_serve ::
  "(c_int, end_point) server_env \<Rightarrow> (nat \<Rightarrow> nat) \<Rightarrow> (nat \<Rightarrow> end_point server_conn) \<Rightarrow> nat \<Rightarrow>
   c_int \<Rightarrow> security_options \<Rightarrow> (c_int option, registry) outcome" where
  "RunSslServer_serve e grow heap n port options =
     and_then (IoServicesImpl_AddTcpServer grow (TcpServer_new port True True heap n) registry_new)
       (\<lambda>_ r. and_then (IoServicesImpl_StartTcpServer_secure e port options r) (\<lambda>_ r. (Inr None, r)))"

definition RunSslServer_main ::
  "(wide list \<Rightarrow> fault + variables_map) \<Rightarrow> (c_int, end_point) server_env \<Rightarrow> (nat \<Rightarrow> nat) \<Rightarrow>
   (nat \<Rightarrow> end_point server_conn) \<Rightarrow> nat \<Rightarrow> string list \<Rightarrow> (c_int option, registry) outcome" where
  "RunSslServer_main parse e grow heap n argv =
     (case (case chain (parse (wide_args argv)) RunSslServer_options of
              Inl f \<Rightarrow> (Inl f, registry_new)
            | Inr (Inl code) \<Rightarrow> (Inr (Some code), registry_new)
            | Inr (Inr (port, options)) \<Rightarrow> RunSslServer_serve e grow heap n port options) of
        (Inl f, r) \<Rightarrow> if catchable f then (Inr (Some 0), r) else (Inl f, r)
      | (Inr x, r) \<Rightarrow> (Inr x, r))"

section \<open>Lemmas\<close>

lemma byte_of_wide: "ucast (scast (b :: byte) :: c_int) = b"
  by (rule bit_word_eqI) (auto simp: bit_simps)

lemma wide_of_byte:
  fixes x :: c_int
  shows "scast (ucast x :: byte) = x \<longleftrightarrow> - 128 \<le> sint x \<and> sint x < 128"
proof
  assume "scast (ucast x :: byte) = x"
  then have "sint x = sint (scast (ucast x :: byte) :: c_int)" by simp
  also have "\<dots> = sint (ucast x :: byte)" by (rule sint_up_scast) (simp add: is_up)
  finally show "- 128 \<le> sint x \<and> sint x < 128"
    using sint_ge [of "ucast x :: byte"] sint_lt [of "ucast x :: byte"] by simp
next
  assume r: "- 128 \<le> sint x \<and> sint x < 128"
  have "sint (scast (ucast x :: byte) :: c_int) = sint (ucast x :: byte)"
    by (rule sint_up_scast) (simp add: is_up)
  also have "\<dots> = sint x"
  proof -
    have "sint (ucast x :: byte) = signed_take_bit 7 (uint x)" by (simp add: signed_ucast_eq)
    moreover have "sint x = signed_take_bit 31 (uint x)" by (simp add: sint_uint)
    ultimately have "sint (ucast x :: byte) = signed_take_bit 7 (sint x)"
      by (simp add: signed_take_bit_signed_take_bit)
    with r show ?thesis by (simp add: signed_take_bit_int_eq_self)
  qed
  finally show "scast (ucast x :: byte) = x" by (simp add: signed_word_eqI)
qed

lemma unat_of_char_byte: "unat (of_char c :: byte) = of_char c"
proof -
  have "unat (of_nat (of_char c) :: byte) = of_char c" by (simp add: unat_of_nat)
  then show ?thesis by (simp only: of_nat_of_char)
qed

lemma of_char_of_unat_byte: "(of_char (char_of (unat (b :: byte))) :: byte) = b"
proof -
  have "of_char (char_of (unat b)) = unat b" using unsigned_less [where ?'a = nat, of b] by simp
  then have "of_nat (of_char (char_of (unat b))) = (of_nat (unat b) :: byte)" by simp
  then show ?thesis by (simp only: of_nat_of_char) simp
qed

lemma string_of_wide_of_string [simp]: "string_of_wide (wide_of_string s) = s"
  by (induction s) (simp_all add: string_of_wide_def wide_of_string_def byte_of_wide unat_of_char_byte)

lemma wide_of_string_of_wide: "wide_of_string (string_of_wide w) = w \<longleftrightarrow> (\<forall>x \<in> set w. - 128 \<le> sint x \<and> sint x < 128)"
  by (induction w) (simp_all add: string_of_wide_def wide_of_string_def of_char_of_unat_byte wide_of_byte)

text \<open>
  What the parser promises: every option of the description that is given has a value of its declared
  type, which is the argument \<open>opt name\<close> as it was widened, the port has one always, and no option is
  there that was not described.
\<close>

definition parsed_from :: "variables_map \<Rightarrow> (string \<Rightarrow> string option) \<Rightarrow> c_int \<Rightarrow> bool" where
  "parsed_from vm opt port \<longleftrightarrow> vm ''port'' = Some (IntValue port) \<and> vm ''help'' = None
     \<and> (\<forall>name \<in> {''cert'', ''private-key'', ''diffie-hellman'', ''password'', ''client-file''}.
           vm name = map_option (WideValue \<circ> wide_of_string) (opt name))"

definition opt_or :: "string option \<Rightarrow> string \<Rightarrow> string" where
  "opt_or given_arg initial = (case given_arg of None \<Rightarrow> initial | Some s \<Rightarrow> s)"

lemma parsed_wide_option:
  assumes "parsed_from vm opt port" and "name \<in> {''cert'', ''private-key'', ''diffie-hellman'', ''client-file''}"
  shows "wide_option vm name initial = Inr (wide_of_string (opt_or (opt name) initial))"
  using assms by (cases "opt name") (auto simp: parsed_from_def wide_option_def assign_option_def given_def as_wide_def opt_or_def)

lemma options_of_parsed:
  assumes "parsed_from vm opt port"
  shows "RunSslServer_options vm =
    (case opt ''password'' of
       None \<Rightarrow> Inr (Inl (- 1))
     | Some password \<Rightarrow> Inr (Inr (port,
         \<lparr>CertificateFilename = opt_or (opt ''cert'') ''fd-serv.crt'',
          PrivKeyFilename = opt_or (opt ''private-key'') ''fd-rsa-priv.key'',
          DHExchangeFilename = opt_or (opt ''diffie-hellman'') ''dh1024.pem'',
          GetPasswordCallback = Some (Inr password),
          VerifyClient = given vm ''verify-client'',
          ClientVerifyFile = opt_or (opt ''client-file'') ''CARoot.pem''\<rparr>)))"
proof -
  have "\<not> given vm ''help''" "as_int vm ''port'' = Inr port"
    using assms by (simp_all add: parsed_from_def given_def as_int_def)
  moreover have pw: "vm ''password'' = map_option (WideValue \<circ> wide_of_string) (opt ''password'')"
    using assms by (simp add: parsed_from_def)
  ultimately show ?thesis
    by (cases "opt ''password''")
      (simp_all add: RunSslServer_options_def RunSslServer_security_def parsed_wide_option [OF assms] given_def as_wide_def)
qed

lemma serve_runs:
  "RunSslServer_serve e grow heap n port options =
    (let s = (TcpServer_new port True True heap n)\<lparr>srv_security := options\<rparr>;
         r = \<lambda>s. registry_new\<lparr>tcpServers := [s], tcpCapacity := grow 0\<rparr>
     in case env_bind_throws e port of
          Some f \<Rightarrow> (Inl f, r s)
        | None \<Rightarrow>
            (case setup_context (env_context_throws e) [] (TcpServer_context options) of
               Inl f \<Rightarrow> (Inl f, r (s\<lparr>srv_open := Some True\<rparr>))
             | Inr context \<Rightarrow>
                 (Inr None, r (s\<lparr>srv_open := Some True, srv_accepting := [n], srv_contexts := (srv_contexts s)(n := context),
                    srv_heap := heap(n := TcpSslConnection_new (Some On_error)), srv_next := n + 1\<rparr>))))"
  by (simp add: RunSslServer_serve_def IoServicesImpl_AddTcpServer_def registry_new_def vector_emplace_back_def
      IoServicesImpl_StartTcpServer_secure_def TcpServer_GetPort_def TcpServer_Start_secure_def TcpServer_new_def
      TcpServer_AsyncSecureAccept_def put_conn_def Let_def split: option.split sum.split)

section \<open>Properties\<close>

text \<open>
  The server program serves with what its command line says. Without a password it ends with the code
  -1 before it makes anything. With one, and unless binding the port or loading the security files throws, which
  ends it with the code 0, its registry has one server, which listens on the given port and waits for its
  first client with a TLS context made from the file names of the command line, each character as it was
  given in spite of the detour over wide strings, and from the initial ones where none was given; the
  password callback gives the password.
\<close>

lemma ssl_program_serves:
  assumes "parse (wide_args argv) = Inr vm" and "parsed_from vm opt port"
  shows "case opt ''password'' of
      None \<Rightarrow> RunSslServer_main parse e grow heap n argv = (Inr (Some (- 1)), registry_new)
    | Some password \<Rightarrow>
        let options = \<lparr>CertificateFilename = opt_or (opt ''cert'') ''fd-serv.crt'',
              PrivKeyFilename = opt_or (opt ''private-key'') ''fd-rsa-priv.key'',
              DHExchangeFilename = opt_or (opt ''diffie-hellman'') ''dh1024.pem'',
              GetPasswordCallback = Some (Inr password), VerifyClient = given vm ''verify-client'',
              ClientVerifyFile = opt_or (opt ''client-file'') ''CARoot.pem''\<rparr>;
            failure = \<lambda>f. fst (RunSslServer_main parse e grow heap n argv) = (if catchable f then Inr (Some 0) else Inl f)
        in case env_bind_throws e port of
             Some f \<Rightarrow> failure f
           | None \<Rightarrow>
               (case setup_context (env_context_throws e) [] (TcpServer_context options) of
                  Inl f \<Rightarrow> failure f
                | Inr context \<Rightarrow>
                    \<exists>s. RunSslServer_main parse e grow heap n argv =
                          (Inr None, registry_new\<lparr>tcpServers := [s], tcpCapacity := grow 0\<rparr>)
                      \<and> srv_at s = port \<and> srv_open s = Some True \<and> srv_security s = options
                      \<and> srv_accepting s = [n] \<and> srv_contexts s n = TcpServer_context options)"
proof (cases "opt ''password''")
  case None
  with assms show ?thesis by (simp add: RunSslServer_main_def options_of_parsed)
next
  case (Some password)
  with assms show ?thesis
    by (auto simp: RunSslServer_main_def options_of_parsed serve_runs TcpServer_new_def Let_def
        dest!: setup_context_made split: option.split sum.split)
qed

definition example_options :: variables_map where
  "example_options = [''port'' \<mapsto> IntValue 443, ''password'' \<mapsto> WideValue (wide_of_string ''secret''),
     ''cert'' \<mapsto> WideValue (wide_of_string ''my.crt'')]"

lemma ssl_program_serves_witness:
  "\<exists>s. RunSslServer_main (\<lambda>_. Inr example_options) quiet_env (\<lambda>n. n + 1) no_conns 0
        [''server'', ''--port=443'', ''--password=secret'', ''--cert=my.crt''] =
        (Inr None, registry_new\<lparr>tcpServers := [s], tcpCapacity := 1\<rparr>)
      \<and> CertificateFilename (srv_security s) = ''my.crt'' \<and> PrivKeyFilename (srv_security s) = ''fd-rsa-priv.key''"
proof -
  let ?opt = "[''password'' \<mapsto> ''secret'', ''cert'' \<mapsto> ''my.crt'']"
  have "parsed_from example_options ?opt 443" by (simp add: parsed_from_def example_options_def)
  from ssl_program_serves [OF _ this, of "\<lambda>_. Inr example_options"
      "[''server'', ''--port=443'', ''--password=secret'', ''--cert=my.crt'']" quiet_env "\<lambda>n. n + 1" no_conns 0]
  show ?thesis
    by (auto simp: quiet_env_def opt_or_def TcpServer_context_def given_def example_options_def Let_def)
qed



end
