(* ===== verification/SslClientProgram.thy ===== *)
theory SslClientProgram
  imports TcpPeer
begin

text \<open>
  The program \<open>RunSslClient/main.cpp\<close>: it connects to a server over TLS and, once connected, has a thread that
  reads words from the standard input and writes each of them to the connection, while the handlers of the
  connection run on the main thread.
\<close>

section \<open>Input and numbers\<close>

text \<open>The white space of the C locale.\<close>

definition isspace :: "byte \<Rightarrow> bool" where
  "isspace c \<longleftrightarrow> c = 0x20 \<or> 0x09 \<le> c \<and> c \<le> 0x0d"

text \<open>
  \<open>cin >> msg\<close> on a new string: the word and the input that is left. At the end of the input it fails and leaves
  the string empty.
\<close>

definition read_word :: "byte list \<Rightarrow> byte list \<times> byte list" where
  "read_word inp =
     (let text = dropWhile isspace inp
      in (takeWhile (\<lambda>c. \<not> isspace c) text, dropWhile (\<lambda>c. \<not> isspace c) text))"

text \<open>\<open>atoi\<close>: white space, a sign, digits. A number that \<open>int\<close> does not hold is undefined.\<close>

definition digits_value :: "byte list \<Rightarrow> int" where
  "digits_value ds = foldl (\<lambda>n d. 10 * n + (uint d - 0x30)) 0 (takeWhile (\<lambda>d. 0x30 \<le> d \<and> d \<le> 0x39) ds)"

definition atoi :: "byte list \<Rightarrow> fault + c_int" where
  "atoi s =
     (let v = (case dropWhile isspace s of
                 [] \<Rightarrow> 0
               | c # ds \<Rightarrow> if c = 0x2d then - digits_value ds else if c = 0x2b then digits_value ds
                           else digits_value (c # ds))
      in if - (2 ^ 31) \<le> v \<and> v < 2 ^ 31 then Inr (of_int v) else Inl (Undefined ''atoi out of range''))"

section \<open>The program\<close>

datatype client_callback = Client_connected | Client_available | Client_error

text \<open>
  The callbacks: a connected client begins to read with the chunk size 12; available data and errors are only
  printed, so nothing is ever consumed.
\<close>

definition ssl_client_chunk :: c_int where
  "ssl_client_chunk = 12"

definition ssl_client_app :: "(end_point, client_callback) tcp_app" where
  "ssl_client_app cb ev w =
     (case ev of Connected \<Rightarrow> [Do (Tcp_begin_read Client_available Client_error)]
      | Available n \<Rightarrow> [] | Failed ec \<Rightarrow> [])"

text \<open>
  The program: the connection, the standard input that is left, whether the thread of \<open>inputLoop\<close> runs, and, as
  a history, the number of rounds of its loop.
\<close>

record ssl_client =
  sc_world :: "(end_point, client_callback) tcp_world"
  sc_input :: "byte list"
  sc_typing :: bool
  sc_rounds :: nat

text \<open>
  Up to the connect, which takes the port and the address from the command line; \<open>load\<close> says whether the file of
  trusted certificates can not be loaded. An argument that is not given is a null pointer.
\<close>

definition RunSslClient_connect ::
  "fault option \<Rightarrow> (string \<Rightarrow> fault + ip_address) \<Rightarrow> byte list list \<Rightarrow> byte list \<Rightarrow> (unit, ssl_client) outcome" where
  "RunSslClient_connect load from_string argv inp =
     (let s = \<lparr>sc_world = tcp_world_new Ssl (Some Client_error), sc_input = inp, sc_typing = False, sc_rounds = 0\<rparr>
      in case load of
        Some f \<Rightarrow> (Inl f, s)
      | None \<Rightarrow>
          (case argv of
             name # port # server # _ \<Rightarrow>
               (case atoi port of
                  Inl f \<Rightarrow> (Inl f, s)
                | Inr p \<Rightarrow>
                    (case TcpPeerConnection_AsyncConnect from_string (Some Client_connected) (map (\<lambda>c. char_of (unat c)) server) p
                            (peer (sc_world s)) of
                       (r, c) \<Rightarrow> (r, s\<lparr>sc_world := (sc_world s)\<lparr>peer := c\<rparr>\<rparr>)))
           | _ \<Rightarrow> (Inl (Undefined ''string of a null pointer''), s)))"

text \<open>A round of the loop of \<open>inputLoop\<close>.\<close>

definition input_round ::
  "bool \<Rightarrow> (string \<Rightarrow> fault + ip_address) \<Rightarrow> ssl_client \<Rightarrow> (unit, ssl_client) outcome" where
  "input_round nd from_string s =
     (case read_word (sc_input s) of
        (msg, rest) \<Rightarrow>
          (case tcp_api_call nd (tcp_resolve from_string) ssl_client_chunk (Tcp_write_string msg True) (sc_world s) of
             (r, w) \<Rightarrow> (r, s\<lparr>sc_world := w, sc_input := rest, sc_rounds := sc_rounds s + 1\<rparr>)))"

text \<open>
  The completion of the handshake calls the connect callback, which begins to read and then starts the thread.
\<close>

definition client_failed ::
  "bool \<Rightarrow> (string \<Rightarrow> fault + ip_address) \<Rightarrow> client_callback \<Rightarrow> error_code \<Rightarrow>
   (end_point, client_callback) tcp_world \<Rightarrow> (unit, (end_point, client_callback) tcp_world) outcome" where
  "client_failed nd from_string = tcp_failed nd (tcp_resolve from_string) ssl_client_chunk ssl_client_app"

definition client_told ::
  "bool \<Rightarrow> (string \<Rightarrow> fault + ip_address) \<Rightarrow> conn_event \<Rightarrow> client_callback \<Rightarrow>
   (end_point, client_callback) tcp_world \<Rightarrow> (unit, (end_point, client_callback) tcp_world) outcome" where
  "client_told nd from_string = tcp_callback nd (tcp_resolve from_string) ssl_client_chunk ssl_client_app"

definition client_handshaken ::
  "bool \<Rightarrow> (string \<Rightarrow> fault + ip_address) \<Rightarrow> error_code \<Rightarrow> ssl_client \<Rightarrow> (unit, ssl_client) outcome" where
  "client_handshaken nd from_string ec s =
     (case TcpSslConnection_HandleHandshake peer (client_failed nd from_string) (client_told nd from_string Connected) ec
             (sc_world s) of
        (r, w) \<Rightarrow> (r, s\<lparr>sc_world := w, sc_typing := sc_typing s \<or> r = Inr () \<and> \<not> ec_set ec\<rparr>))"

text \<open>What happens then, in any order: a round of the loop, or the completion of an operation of the connection.\<close>

inductive ssl_client_step ::
  "bool \<Rightarrow> (string \<Rightarrow> fault + ip_address) \<Rightarrow> ssl_client \<Rightarrow> ssl_client \<Rightarrow> bool" for nd from_string where
  typed: "sc_typing s \<Longrightarrow> input_round nd from_string s = (r, s') \<Longrightarrow> ssl_client_step nd from_string s s'"
| wrote: "tcp_pending (peer (sc_world s)) = m # ms \<Longrightarrow>
    tcp_write_completed ec n (peer (sc_world s)) = (r, c) \<Longrightarrow>
    ssl_client_step nd from_string s (s\<lparr>sc_world := (sc_world s)\<lparr>peer := c,
      tcp_sent := tcp_sent (sc_world s) @ (if n = IoBufferWrapper_BoostSize m then [m] else [])\<rparr>\<rparr>)"
| read: "fits_read bs (tcp_readBuffer (peer (sc_world s))) \<Longrightarrow>
    TcpPeerConnection_boostHandler nd peer put_peer (\<lambda>cb n. client_told nd from_string (Available n) cb)
      (client_failed nd from_string) no_error (length bs)
      (tcp_put_buffer peer put_peer (circ_fill bs (tcp_readBuffer (peer (sc_world s))))
         ((sc_world s)\<lparr>tcp_received := tcp_received (sc_world s) @ bs\<rparr>)) = (r, w') \<Longrightarrow>
    ssl_client_step nd from_string s (s\<lparr>sc_world := w'\<rparr>)"
| read_failed: "reads (tcp_readBuffer (peer (sc_world s))) = slot # slots \<Longrightarrow> n = 0 \<or> ec_set ec \<Longrightarrow>
    TcpPeerConnection_boostHandler nd peer put_peer (\<lambda>cb n. client_told nd from_string (Available n) cb)
      (client_failed nd from_string) ec n
      (tcp_put_buffer peer put_peer ((tcp_readBuffer (peer (sc_world s)))\<lparr>reads := slots\<rparr>) (sc_world s)) = (r, w') \<Longrightarrow>
    ssl_client_step nd from_string s (s\<lparr>sc_world := w'\<rparr>)"
| connected: "TcpPeerConnection_ConnectHandler peer put_peer (client_failed nd from_string)
      (client_told nd from_string Connected) ec (sc_world s) = (r, w') \<Longrightarrow>
    ssl_client_step nd from_string s (s\<lparr>sc_world := w'\<rparr>)"
| handshaken: "client_handshaken nd from_string ec s = (r, s') \<Longrightarrow> ssl_client_step nd from_string s s'"

section \<open>What the server is sent\<close>

text \<open>The words of an input, and the first \<open>n\<close> messages of the loop: after the last word they are empty.\<close>

lemma read_word_shorter: "fst (read_word inp) \<noteq> [] \<Longrightarrow> length (snd (read_word inp)) < length inp"
proof -
  assume "fst (read_word inp) \<noteq> []"
  then have *: "takeWhile (\<lambda>c. \<not> isspace c) (dropWhile isspace inp) \<noteq> []"
    by (simp add: read_word_def Let_def)
  have "length (dropWhile (\<lambda>c. \<not> isspace c) (dropWhile isspace inp)) < length (dropWhile isspace inp)"
    using * by (cases "dropWhile isspace inp") (auto split: if_splits intro: le_imp_less_Suc length_dropWhile_le)
  also have "\<dots> \<le> length inp" by (rule length_dropWhile_le)
  finally show ?thesis by (simp add: read_word_def Let_def)
qed

lemma read_word_end:
  assumes "fst (read_word inp) = []" shows "snd (read_word inp) = []"
proof -
  obtain rest where rest: "dropWhile isspace inp = rest" by simp
  then have "rest = c # cs \<Longrightarrow> \<not> isspace c" for c cs
    by (metis dropWhile_eq_Cons_conv)
  with assms show ?thesis
    by (cases rest) (auto simp: read_word_def rest)
qed

function words :: "byte list \<Rightarrow> byte list list" where
  "words inp = (if fst (read_word inp) = [] then [] else fst (read_word inp) # words (snd (read_word inp)))"
  by auto
termination
  by (relation "measure length") (auto simp: read_word_shorter)

declare words.simps [simp del]

primrec typed_words :: "nat \<Rightarrow> byte list \<Rightarrow> byte list list" where
  "typed_words 0 inp = []"
| "typed_words (Suc n) inp = fst (read_word inp) # typed_words n (snd (read_word inp))"

lemma words_nil [simp]: "words [] = []"
  by (subst words.simps) (simp add: read_word_def)

lemma typed_words_all: "typed_words n inp = take n (words inp) @ replicate (n - length (words inp)) []"
proof (induction n arbitrary: inp)
  case (Suc n)
  show ?case
  proof (cases "fst (read_word inp) = []")
    case True
    with read_word_end [OF True] Suc [of "[]"] show ?thesis by (simp add: words.simps [of inp])
  next
    case False
    with Suc [of "snd (read_word inp)"] show ?thesis by (simp add: words.simps [of inp])
  qed
qed simp

text \<open>Every step is one of the connection, and a handler accepts no message.\<close>

lemma client_callback_accepts: "tcp_accepted (snd (client_told nd from_string ev cb w)) = tcp_accepted w"
  by (cases ev) (simp_all add: client_told_def tcp_callback_def ssl_client_app_def and_then_def tcp_api_call_def
      split: prod.splits sum.splits)

lemma client_told_accepts: "client_told nd from_string ev cb w = (r, w') \<Longrightarrow> tcp_accepted w' = tcp_accepted w"
  by (metis client_callback_accepts snd_conv)

lemma client_failed_told: "client_failed nd from_string cb ec = client_told nd from_string (Failed ec) cb"
  by (simp add: client_failed_def client_told_def tcp_failed_def)

lemmas client_report_accepts = client_callback_accepts client_failed_told tcp_report_def tcp_notify_connected_def put_peer_def

lemma client_read_accepts:
  "tcp_accepted (snd (TcpPeerConnection_boostHandler nd peer put_peer (\<lambda>cb n. client_told nd from_string (Available n) cb)
     (client_failed nd from_string) ec n w)) = tcp_accepted w"
  by (rule tcp_world.boost_handler_rel [where R = "\<lambda>w w'. tcp_accepted w' = tcp_accepted w"])
    (simp_all add: client_callback_accepts client_failed_told tcp_put_buffer_def put_peer_def)

lemma client_connect_accepts:
  "tcp_accepted (snd (TcpPeerConnection_ConnectHandler peer put_peer (client_failed nd from_string)
     (client_told nd from_string Connected) ec w)) = tcp_accepted w"
  by (simp add: TcpPeerConnection_ConnectHandler_def TcpConnection_UpperLayerHandleConnect_def
      TcpSslConnection_UpperLayerHandleConnect_def client_report_accepts split: transport.split option.split)

lemma client_handshake_accepts:
  "tcp_accepted (sc_world (snd (client_handshaken nd from_string ec s))) = tcp_accepted (sc_world s)
   \<and> sc_input (snd (client_handshaken nd from_string ec s)) = sc_input s
   \<and> sc_rounds (snd (client_handshaken nd from_string ec s)) = sc_rounds s"
  by (simp add: client_handshaken_def TcpSslConnection_HandleHandshake_def client_report_accepts
      split: prod.split option.split) (auto dest: client_told_accepts)

lemma ssl_client_step_tcp:
  assumes "ssl_client_step nd from_string s s'" and "tcp_class (peer (sc_world s)) = Ssl"
  shows "tcp_step nd (tcp_resolve from_string) ssl_client_chunk ssl_client_app (sc_world s) (sc_world s')"
  using assms(1)
proof cases
  case (typed r)
  then show ?thesis
    by (auto simp: input_round_def split: prod.splits intro: tcp_step.call)
next
  case (wrote m ms ec n r c)
  from tcp_step.wrote [OF wrote(2,3)] show ?thesis by (simp add: wrote(1))
next
  case (read bs r w')
  then show ?thesis
    by (auto simp: client_told_def client_failed_def tcp_available_def [abs_def] intro!: tcp_step.read)
next
  case (read_failed slot slots n ec r w')
  with tcp_step.read_failed [OF read_failed(2,3)] show ?thesis
    by (simp add: client_told_def client_failed_def tcp_available_def [abs_def])
next
  case (connected ec r w')
  then show ?thesis by (auto simp: client_told_def client_failed_def intro: tcp_step.connected)
next
  case (handshaken ec r)
  with assms(2) show ?thesis
    by (auto simp: client_handshaken_def client_told_def client_failed_def split: prod.splits
        intro: tcp_step.handshaken)
qed

text \<open>The messages accepted are those of the rounds so far.\<close>

definition ssl_client_ok :: "bool \<Rightarrow> (string \<Rightarrow> fault + ip_address) \<Rightarrow> byte list \<Rightarrow> ssl_client \<Rightarrow> bool" where
  "ssl_client_ok nd from_string inp s \<longleftrightarrow> tcp_class (peer (sc_world s)) = Ssl
     \<and> tcp_reach nd (tcp_resolve from_string) ssl_client_chunk ssl_client_app (sc_world s)
     \<and> (\<exists>msgs. tcp_accepted (sc_world s) = map (\<lambda>m. IoBufferWrapper_move_string m True) msgs
          \<and> length msgs = sc_rounds s
          \<and> (\<forall>m. typed_words (sc_rounds s + m) inp = msgs @ typed_words m (sc_input s)))"

lemma ssl_client_ok_start:
  assumes "RunSslClient_connect load from_string argv inp = (Inr (), s0)"
  shows "ssl_client_ok nd from_string inp s0"
proof -
  from assms obtain p server c where
    c: "TcpPeerConnection_AsyncConnect from_string (Some Client_connected) server p
        (TcpPeerConnection_new Ssl (Some Client_error)) = (Inr (), c)"
    and s0: "s0 = \<lparr>sc_world = (tcp_world_new Ssl (Some Client_error))\<lparr>peer := c\<rparr>, sc_input = inp,
        sc_typing = False, sc_rounds = 0\<rparr>"
    by (auto simp: RunSslClient_connect_def Let_def tcp_world_new_def
        split: option.splits list.splits sum.splits prod.splits)
  have "tcp_step nd (tcp_resolve from_string) ssl_client_chunk ssl_client_app
      (tcp_world_new Ssl (Some Client_error)) (sc_world s0)"
    by (rule tcp_step.call [of _ _ _ "Tcp_connect Client_connected server p" _ "Inr ()"])
      (use c in \<open>simp add: s0 tcp_api_call_def TcpPeerConnection_AsyncConnect_def tcp_world_new_def\<close>)
  then have "tcp_reach nd (tcp_resolve from_string) ssl_client_chunk ssl_client_app (sc_world s0)"
    unfolding tcp_reach_def by blast
  moreover have "tcp_class c = Ssl"
    using c by (auto simp: TcpPeerConnection_AsyncConnect_def tcp_connect_to_def TcpPeerConnection_new_def tcp_call_def
        split: sum.splits)
  ultimately show ?thesis by (simp add: ssl_client_ok_def s0 tcp_world_new_def)
qed

lemma ssl_client_step_ok:
  assumes step: "ssl_client_step nd from_string s s'" and ok: "ssl_client_ok nd from_string inp s"
  shows "ssl_client_ok nd from_string inp s'"
proof -
  from ok obtain msgs where cls: "tcp_class (peer (sc_world s)) = Ssl"
    and reach: "tcp_reach nd (tcp_resolve from_string) ssl_client_chunk ssl_client_app (sc_world s)"
    and msgs: "tcp_accepted (sc_world s) = map (\<lambda>m. IoBufferWrapper_move_string m True) msgs"
      "length msgs = sc_rounds s" "\<And>m. typed_words (sc_rounds s + m) inp = msgs @ typed_words m (sc_input s)"
    unfolding ssl_client_ok_def by blast
  note tcp = ssl_client_step_tcp [OF step cls]
  have "tcp_class (peer (sc_world s')) = Ssl"
    using tcp_step_class [OF tcp] cls by (simp add: tcp_class_rel_def)
  moreover have "tcp_reach nd (tcp_resolve from_string) ssl_client_chunk ssl_client_app (sc_world s')"
    using reach tcp unfolding tcp_reach_def by (meson rtranclp.rtrancl_into_rtrancl)
  moreover from step have "tcp_accepted (sc_world s') = tcp_accepted (sc_world s) \<and> sc_input s' = sc_input s
      \<and> sc_rounds s' = sc_rounds s
    \<or> tcp_accepted (sc_world s') = tcp_accepted (sc_world s) @ [IoBufferWrapper_move_string (fst (read_word (sc_input s))) True]
      \<and> sc_input s' = snd (read_word (sc_input s)) \<and> sc_rounds s' = Suc (sc_rounds s)"
  proof cases
    case (typed r)
    then show ?thesis by (auto simp: input_round_def tcp_api_call_def split: prod.splits)
  next
    case (read bs r w')
    with client_read_accepts [of nd from_string no_error "length bs"] show ?thesis
      by (auto simp: tcp_put_buffer_def put_peer_def dest!: arg_cong [where f = "\<lambda>x. tcp_accepted (snd x)"])
  next
    case (read_failed slot slots n ec r w')
    with client_read_accepts [of nd from_string ec n] show ?thesis
      by (auto simp: tcp_put_buffer_def put_peer_def dest!: arg_cong [where f = "\<lambda>x. tcp_accepted (snd x)"])
  next
    case (connected ec r w')
    with client_connect_accepts [of nd from_string ec "sc_world s"] show ?thesis by simp
  next
    case (handshaken ec r)
    with client_handshake_accepts [of nd from_string ec s] show ?thesis by simp
  qed simp
  then have "\<exists>msgs. tcp_accepted (sc_world s') = map (\<lambda>m. IoBufferWrapper_move_string m True) msgs
      \<and> length msgs = sc_rounds s'
      \<and> (\<forall>m. typed_words (sc_rounds s' + m) inp = msgs @ typed_words m (sc_input s'))"
  proof
    assume "tcp_accepted (sc_world s') = tcp_accepted (sc_world s) \<and> sc_input s' = sc_input s \<and> sc_rounds s' = sc_rounds s"
    with msgs show ?thesis by (intro exI [of _ msgs]) simp
  next
    assume *: "tcp_accepted (sc_world s') = tcp_accepted (sc_world s) @ [IoBufferWrapper_move_string (fst (read_word (sc_input s))) True]
      \<and> sc_input s' = snd (read_word (sc_input s)) \<and> sc_rounds s' = Suc (sc_rounds s)"
    have "typed_words (Suc (sc_rounds s) + m) inp =
        (msgs @ [fst (read_word (sc_input s))]) @ typed_words m (snd (read_word (sc_input s)))" for m
      using msgs(3) [of "Suc m"] by simp
    with * msgs(1,2) show ?thesis by (intro exI [of _ "msgs @ [fst (read_word (sc_input s))]"]) simp
  qed
  ultimately show ?thesis unfolding ssl_client_ok_def by blast
qed

definition on_the_wire :: "byte list \<Rightarrow> byte list" where
  "on_the_wire m = (if m = [] then [] else m @ [0])"

lemma on_the_wire_sent: "IoBufferWrapper_ToBoost (IoBufferWrapper_move_string m True) = on_the_wire m"
  by (simp add: io_buffer_defs on_the_wire_def Let_def)

text \<open>
  C39: However the operations of the connection complete, the messages of the TLS client program are the words of its
  input, in order, each with a terminator, and once the input has ended an empty message for every further round
  of the loop, without end; what its socket was given is a first part of them.
\<close>

theorem ssl_client_sends_words:
  assumes "RunSslClient_connect load from_string argv inp = (Inr (), s0)"
    and "(ssl_client_step nd from_string)\<^sup>*\<^sup>* s0 s"
  shows "let msgs = take (sc_rounds s) (words inp) @ replicate (sc_rounds s - length (words inp)) [] in
    tcp_accepted (sc_world s) = map (\<lambda>m. IoBufferWrapper_move_string m True) msgs
    \<and> tcp_handed (peer (sc_world s)) = map on_the_wire (take (length (tcp_handed (peer (sc_world s)))) msgs)"
proof -
  from assms(2) have "ssl_client_ok nd from_string inp s"
    by (induction rule: rtranclp_induct) (auto intro: ssl_client_ok_start [OF assms(1)] ssl_client_step_ok)
  then obtain msgs where
    reach: "tcp_reach nd (tcp_resolve from_string) ssl_client_chunk ssl_client_app (sc_world s)"
    and msgs: "tcp_accepted (sc_world s) = map (\<lambda>m. IoBufferWrapper_move_string m True) msgs"
      "typed_words (sc_rounds s + 0) inp = msgs @ typed_words 0 (sc_input s)"
    unfolding ssl_client_ok_def by blast
  have "tcp_handed (peer (sc_world s)) =
      map IoBufferWrapper_ToBoost (take (length (tcp_handed (peer (sc_world s)))) (tcp_accepted (sc_world s)))"
    using tcp_reach_sends [OF reach] tcp_queue.handed_prefix unfolding tcp_sends_def by metis
  with msgs show ?thesis
    by (simp add: typed_words_all [symmetric] take_map o_def on_the_wire_sent Let_def)
qed

text \<open>A run: connected, with one word typed.\<close>

definition any_address :: "string \<Rightarrow> fault + ip_address" where
  "any_address s = Inr (V4 0)"

definition client_input :: "byte list" where
  "client_input = [0x20, 0x68, 0x69, 0x0a]"

definition client_started :: ssl_client where
  "client_started = snd (RunSslClient_connect None any_address [[], [0x38, 0x30], [0x68]] client_input)"

definition client_typing :: ssl_client where
  "client_typing = snd (client_handshaken True any_address no_error client_started)"

definition client_typed :: ssl_client where
  "client_typed = snd (input_round True any_address client_typing)"

lemma atoi_80: "atoi [0x38, 0x30] = Inr 80"
  by (simp add: atoi_def digits_value_def isspace_def)

lemma client_started_ok: "RunSslClient_connect None any_address [[], [0x38, 0x30], [0x68]] client_input = (Inr (), client_started)"
  by (simp add: client_started_def RunSslClient_connect_def atoi_80 Let_def any_address_def tcp_resolve_def
      TcpPeerConnection_AsyncConnect_def tcp_connect_to_def)

lemma client_typing_on: "sc_typing client_typing" "sc_input client_typing = client_input" "sc_rounds client_typing = 0"
  by (simp_all add: client_typing_def client_handshaken_def client_started_def RunSslClient_connect_def atoi_80
      any_address_def TcpPeerConnection_AsyncConnect_def tcp_connect_to_def tcp_resolve_def
      TcpSslConnection_HandleHandshake_def no_error_def ec_set_def tcp_notify_connected_def client_told_def
      tcp_callback_def ssl_client_app_def tcp_api_call_def TcpPeerConnection_BeginChainedRead_def
      tcp_world_new_def TcpPeerConnection_new_def tcp_call_def tcp_on_buffer_def on_host_def circ_eval
      ssl_client_chunk_def Let_def split: prod.split)

lemma client_words: "words client_input = [[0x68, 0x69]]"
  by (simp add: words.simps [of "_ # _"] client_input_def read_word_def isspace_def)

theorem ssl_client_sends_words_witness:
  "tcp_accepted (sc_world client_typed) = [IoBufferWrapper_move_string [0x68, 0x69] True]"
proof -
  have "ssl_client_step True any_address client_started client_typing"
    unfolding client_typing_def by (rule ssl_client_step.handshaken [OF prod.collapse [symmetric]])
  moreover have "ssl_client_step True any_address client_typing client_typed"
    unfolding client_typed_def by (rule ssl_client_step.typed [OF client_typing_on(1) prod.collapse [symmetric]])
  ultimately have "(ssl_client_step True any_address)\<^sup>*\<^sup>* client_started client_typed"
    by (meson converse_rtranclp_into_rtranclp r_into_rtranclp)
  moreover have "sc_rounds client_typed = 1"
    by (simp add: client_typed_def input_round_def client_typing_on split: prod.split)
  ultimately show ?thesis
    using ssl_client_sends_words [OF client_started_ok] by (simp add: client_words Let_def)
qed

end
