(* ===== verification/HelloPrograms.thy ===== *)
theory HelloPrograms
  imports StreamApi IoTimers IoWorkers TcpServ
begin

text \<open>
  The program \<open>HelloAsio\<close>: its timers (\<open>TestTimer.h\<close>, \<open>TestPeriodicTimer.h\<close>, \<open>main.cpp\<close>) and its read
  callback.
\<close>

section \<open>The timers of HelloAsio\<close>

text \<open>
  An \<open>enum class\<close> over \<open>int\<close> may hold any number; the increment can leave the named ones and overflow. An
  output of a number without a name prints nothing.
\<close>

definition TestPeriodicTimer_General :: c_int where "TestPeriodicTimer_General = 0"

definition TestPeriodicTimer_Secondary :: c_int where "TestPeriodicTimer_Secondary = 1"

definition TestPeriodicTimer_End :: c_int where "TestPeriodicTimer_End = 2"

definition TestPeriodicTimer_ToString :: "c_int \<Rightarrow> fault + string" where
  "TestPeriodicTimer_ToString t =
     (if t = TestPeriodicTimer_General then Inr ''TestPeriodicTimer::General''
      else if t = TestPeriodicTimer_Secondary then Inr ''TestPeriodicTimer::Secondary''
      else if t = TestPeriodicTimer_End then Inr ''TestTimer::End''
      else Inl (RuntimeError ''Unknown TestPeriodicTimer''))"

definition TestPeriodicTimer_ToId :: "c_int \<Rightarrow> fault + periodic_timer" where
  "TestPeriodicTimer_ToId t =
     (case TestPeriodicTimer_ToString t of Inl f \<Rightarrow> Inl f | Inr name \<Rightarrow> Inr (PeriodicTimer t name))"

definition enum_increment :: "c_int \<Rightarrow> fault + c_int" where
  "enum_increment t = (if sint t = 2 ^ 31 - 1 then Inl (Undefined ''signed overflow'') else Inr (t + 1))"

definition TestPeriodicTimer_print :: "c_int \<Rightarrow> string" where
  "TestPeriodicTimer_print t =
     (if t = TestPeriodicTimer_General then ''TestPeriodicTimer::General''
      else if t = TestPeriodicTimer_Secondary then ''TestPeriodicTimer::Secondary''
      else if t = TestPeriodicTimer_End then ''TestPeriodicTimer::End''
      else [])"

definition TestTimer_ToString :: "c_int \<Rightarrow> fault + string" where
  "TestTimer_ToString t =
     (if t = 0 then Inr ''TestTimer::General'' else if t = 1 then Inr ''TestTimer::End''
      else Inl (RuntimeError ''Unknown TestTimer''))"

definition TestTimer_ToId :: "c_int \<Rightarrow> fault + one_shot_timer" where
  "TestTimer_ToId t = (case TestTimer_ToString t of Inl f \<Rightarrow> Inl f | Inr name \<Rightarrow> Inr (Timer t name))"

definition TestTimer_print :: "c_int \<Rightarrow> string" where
  "TestTimer_print t = (if t = 0 then ''TestTimer::General'' else if t = 1 then ''TestTimer::End'' else [])"

lemmas test_timer_defs = TestPeriodicTimer_General_def TestPeriodicTimer_Secondary_def TestPeriodicTimer_End_def
  TestPeriodicTimer_ToString_def TestPeriodicTimer_ToId_def TestPeriodicTimer_print_def

text \<open>
  The handler of both timers counts them apart by their number. \<open>hello_set_timers\<close> is the part of \<open>main\<close> that
  sets them.
\<close>

definition hello_timeout :: "periodic_timer \<Rightarrow> nat \<times> nat \<Rightarrow> nat \<times> nat" where
  "hello_timeout i counts =
     (case counts of (general, secondary) \<Rightarrow>
        if Id i = TestPeriodicTimer_General then (general + 1, secondary)
        else if Id i = TestPeriodicTimer_Secondary then (general, secondary + 1)
        else counts)"

definition hello_set :: "c_int \<Rightarrow> int \<Rightarrow> 'cb \<Rightarrow> 'cb timers \<Rightarrow> (unit, 'cb timers) outcome" where
  "hello_set t du timeout st =
     (case TestPeriodicTimer_ToId t of Inl f \<Rightarrow> (Inl f, st)
      | Inr i \<Rightarrow> IoServices_SetPeriodicTimer i du (Some timeout) st)"

definition hello_set_timers :: "'cb \<Rightarrow> 'cb timers \<Rightarrow> (unit, 'cb timers) outcome" where
  "hello_set_timers timeout st =
     and_then (hello_set TestPeriodicTimer_General 1 timeout st) (\<lambda>_. hello_set TestPeriodicTimer_Secondary 2 timeout)"

text \<open>
  The program never initialises its timers, and setting one that is not initialised does nothing: it waits
  for no timer and both counts stay zero.
\<close>

lemma hello_timers_never_set: "hello_set_timers timeout timers_new = (Inr (), timers_new)"
  by (simp add: hello_set_timers_def hello_set_def test_timer_defs IoServices_SetPeriodicTimer_def
      IoServicesImpl_SetPeriodicTimer_def timers_new_def)

text \<open>Initialised first, they would be waited for, each with a handler that counts it.\<close>

lemma hello_timers_initialised:
  "hello_set_timers timeout (IoServices_InitialisePeriodicTimer (PeriodicTimer 0 ''TestPeriodicTimer::General'')
      (IoServices_InitialisePeriodicTimer (PeriodicTimer 1 ''TestPeriodicTimer::Secondary'') timers_new)) = (r, st) \<Longrightarrow>
    r = Inr () \<and> snd (the (periodicTimers st 0)) = [Wait (PeriodicTimer 0 ''TestPeriodicTimer::General'') 1000 (Some timeout)]
    \<and> snd (the (periodicTimers st 1)) = [Wait (PeriodicTimer 1 ''TestPeriodicTimer::Secondary'') 2000 (Some timeout)]"
  by (auto simp: hello_set_timers_def hello_set_def test_timer_defs IoServices_SetPeriodicTimer_def
      IoServicesImpl_SetPeriodicTimer_def IoServices_InitialisePeriodicTimer_def IoServicesImpl_InitialisePeriodicTimer_def
      cancel_waits_def async_wait_def timers_new_def)

section \<open>The work of HelloAsio\<close>

text \<open>Ten pieces of work, which outlive the block that makes them; a piece is known by its number.\<close>

definition hello_works :: "nat service \<Rightarrow> nat service" where
  "hello_works p = fold IoServices_RunWork [0..<10] p"

text \<open>All of them are posted in order, but at most one worker is added for the ten.\<close>

lemma hello_works_one_worker:
  assumes "pool_ok p" and "workerHandles p + 2 < 2 ^ 32"
  shows "posted (hello_works p) = posted p @ map Some [0..<10]
    \<and> workerHandles (hello_works p) \<le> workerHandles p + 1"
proof -
  have "hello_works p = fold IoServicesImpl_RunWork [0..<10] p"
    unfolding hello_works_def by (rule fold_cong) (simp_all add: IoServices_RunWork_def fun_eq_iff)
  with worker_burst [OF assms, of "[0..<10]"] show ?thesis by (simp del: upt_rec_numeral)
qed

section \<open>The read callback of HelloAsio\<close>

text \<open>
  With at least 25 bytes it makes a string of the first 25 bytes of the buffer, consumes them into an array of
  26, makes a string of that, asserts that both are the same and prints it: the result is what it prints.
\<close>

definition hello_readStream ::
  "bool \<Rightarrow> c_int \<Rightarrow> (end_point, 'cb) tcp_conn stream_handle \<Rightarrow>
   (byte list option, (end_point, 'cb) tcp_conn stream_handle) outcome" where
  "hello_readStream nd bytesAvailable conn =
     (if sint bytesAvailable \<ge> 25
      then and_then
             (if nd then (Inr (), conn)
              else and_then (StreamConnection_Size nd conn)
                     (\<lambda>n conn. cassert nd (int_of_size n = bytesAvailable) ''Size() == bytesAvailable'' conn (Inr (), conn)))
             (\<lambda>_ conn. and_then (StreamConnection_Data nd conn)
                (\<lambda>memory conn.
                   if length memory < 25 \<or> None \<in> set (take 25 memory)
                   then (Inl (Undefined ''string of indeterminate memory''), conn)
                   else
                     let msgFromData = map the (take 25 memory)
                     in case StreamConnection_ConsumeInto nd 25 (conn, replicate 26 (Some 0)) of
                          (Inl f, (conn, buf)) \<Rightarrow> (Inl f, conn)
                        | (Inr _, (conn, buf)) \<Rightarrow>
                            let msgFromBuf = map the (take 25 (buf[25 := Some 0]))
                            in cassert nd (msgFromData = msgFromBuf) ''msgFromData.compare(msgFromBuf) == 0'' conn
                                 (Inr (Some msgFromBuf), conn)))
      else (Inr None, conn))"

text \<open>
  The read callback of \<open>HelloAsio\<close>, called in a read handler with the number of bytes that are there: its
  assertions hold, and it takes exactly the first 25 bytes off the connection and prints them; with fewer it
  leaves them for the next time.
\<close>

lemma hello_reader_takes:
  assumes "peerConnection h = Some c" and "hasContext (tcp_readBuffer c)" and "vec_wf (buffer (tcp_readBuffer c))"
    and "vec_data (buffer (tcp_readBuffer c)) = map Some bs" and "length bs < 2 ^ 31"
  shows "if 25 \<le> length bs
    then \<exists>c'. hello_readStream nd (int_of_size (length bs)) h = (Inr (Some (take 25 bs)), h\<lparr>peerConnection := Some c'\<rparr>)
           \<and> vec_data (buffer (tcp_readBuffer c')) = map Some (drop 25 bs)
    else hello_readStream nd (int_of_size (length bs)) h = (Inr None, h)"
proof (cases "25 \<le> length bs")
  case False
  with assms(5) show ?thesis by (simp add: hello_readStream_def int_of_size_def sint_of_nat_c_int)
next
  case True
  let ?v = "buffer (tcp_readBuffer c)"
  have n: "vsize ?v = length bs" using length_vec_data [OF assms(3)] assms(4) by simp
  have cs: "take 25 (cells ?v) = map Some (take 25 bs)"
    using True n assms(4) by (metis min.absorb1 take_map take_take vec_data_def)
  have cap: "25 \<le> vec_capacity ?v" using assms(3) n True by (simp add: vec_wf_def)
  obtain c' where c': "StreamConnection_ConsumeInto nd 25 (h, replicate 26 (Some 0)) =
      (Inr (), (h\<lparr>peerConnection := Some c'\<rparr>, map Some (take 25 bs) @ drop 25 (replicate 26 (Some 0))))"
    "vec_data (buffer (tcp_readBuffer c')) = map Some (drop 25 bs)"
    using stream_consume_into [OF assms(1-3), of 25 "replicate 26 (Some 0)" nd] cap n True assms(4)
    by (auto simp: take_map drop_map)
  have h: "h\<lparr>peerConnection := Some c\<rparr> = h" using assms(1) by (cases h) simp
  have bytes: "\<not> length (cells ?v) < 25" "None \<notin> set (take 25 (cells ?v))"
    using cap by (auto simp: vec_capacity_def cs)
  have "hello_readStream nd (int_of_size (length bs)) h = (Inr (Some (take 25 bs)), h\<lparr>peerConnection := Some c'\<rparr>)"
    using True assms(5)
    by (cases nd) (use c'(1) in \<open>simp add: hello_readStream_def StreamConnection_Size_def StreamConnection_Data_def
        locked_def assms(1) h bytes [unfolded cs] bytes(1) tcp_read_ops [OF assms(2)] n cs int_of_size_def
        sint_of_nat_c_int Let_def take_map comp_def\<close>)+
  with c'(2) True show ?thesis by auto
qed

definition hello_example :: "(end_point, nat) tcp_conn stream_handle" where
  "hello_example = \<lparr>peerConnection = Some ((TcpPeerConnection_new Plain None)\<lparr>tcp_readBuffer :=
       IoCircularBuffer_new\<lparr>hasContext := True, buffer := \<lparr>cells = replicate 30 (Some 7), vsize = 26\<rparr>\<rparr>\<rparr>),
     isClientSide = True\<rparr>"

lemma hello_reader_takes_witness:
  "\<exists>c'. hello_readStream False (int_of_size 26) hello_example =
        (Inr (Some (replicate 25 7)), hello_example\<lparr>peerConnection := Some c'\<rparr>)
      \<and> vec_data (buffer (tcp_readBuffer c')) = [Some 7]"
  using hello_reader_takes [of hello_example "the (peerConnection hello_example)" "replicate 26 7" False]
  by (simp add: hello_example_def vec_wf_def vec_capacity_def vec_data_def)

end
