(* ===== verification/BufferTest.thy ===== *)
theory BufferTest
  imports CircularBuffer
begin

text \<open>
  The test program of the receive buffer, \<open>TestServices/main.cpp\<close>. It reads a pattern into a buffer,
  consumes some of it whenever enough is there, and asserts on the way that it sees the pattern and that the
  allocation stays small. The program runs one schedule; here its assertions are proved for all of them.
  (It calls the buffer by the names of an older interface; the model calls the present ones.)
\<close>

section \<open>The program\<close>

text \<open>
  The buffer, and the variables that its callback and the main loop share: \<open>amountForConsume\<close>,
  \<open>maxAllocated\<close> and \<open>testFinished\<close>.
\<close>

record buffer_test =
  bt_buffer :: "unit circ"
  bt_amount :: nat
  bt_max :: nat
  bt_finished :: bool

definition bt_put :: "unit circ \<Rightarrow> buffer_test \<Rightarrow> buffer_test" where
  "bt_put b s = s\<lparr>bt_buffer := b\<rparr>"

interpretation bt: reading_host bt_buffer bt_put
  by unfold_locales (simp_all add: bt_put_def)

definition pattern_size :: nat where
  "pattern_size = 1024"

definition bt_zero :: "nat \<Rightarrow> 'cb circ \<Rightarrow> 'cb circ" where
  "bt_zero n c = c\<lparr>buffer := vec_poke 0 (replicate n 0) (buffer c)\<rparr>"

text \<open>
  The callback: with at least \<open>amountForConsume\<close> bytes it asserts that all of them are the pattern, takes
  the capacity into the maximum, overwrites what it is about to consume and consumes it.
\<close>

definition bt_notify :: "unit \<Rightarrow> nat \<Rightarrow> buffer_test \<Rightarrow> (unit, buffer_test) outcome" where
  "bt_notify cb available s =
     (if available > pattern_size then (Inr (), s\<lparr>bt_finished := True\<rparr>)
      else if available \<ge> bt_amount s
      then and_then (on_host bt_buffer bt_put (IoCircularBuffer_Get False) s)
             (\<lambda>memory s. cassert False (take available memory = replicate available (Some 255)) ''memcmp'' s
                (and_then (on_host bt_buffer bt_put (IoCircularBuffer_Capacity False) s)
                   (\<lambda>capacity s.
                      let s1 = s\<lparr>bt_max := max (bt_max s) capacity\<rparr>
                      in on_host bt_buffer bt_put (IoCircularBuffer_Consume False (bt_amount s1))
                           (bt_put (bt_zero (bt_amount s1) (bt_buffer s1)) s1))))
      else (Inr (), s))"

definition bt_start :: "(unit, buffer_test) outcome" where
  "bt_start =
     (let amountForConsume = 24
      in on_host bt_buffer bt_put (IoCircularBuffer_BeginChainedRead False (Some ()) (of_nat (amountForConsume div 2)) True)
           \<lparr>bt_buffer = IoCircularBuffer_new, bt_amount = amountForConsume, bt_max = 0, bt_finished = False\<rparr>)"

text \<open>
  What happens then: a started read fills its whole slot with the pattern and completes, and the main loop
  makes \<open>amountForConsume\<close> smaller, each at any time.
\<close>

inductive bt_step :: "buffer_test \<Rightarrow> (unit, buffer_test) outcome \<Rightarrow> bool" where
  completed: "reads (bt_buffer s) = (off, len) # slots \<Longrightarrow>
    bt_step s (IoCircularBuffer_ReadSomeHandler False bt_buffer bt_put bt_notify len
      (bt_put (circ_fill (replicate len 255) (bt_buffer s)) s))"
| smaller: "bt_amount s > 1 \<Longrightarrow> bt_step s (Inr (), s\<lparr>bt_amount := bt_amount s - 1\<rparr>)"

inductive_cases bt_stepE [consumes 1, case_names completed smaller]: "bt_step s (r, s')"

inductive bt_reach :: "buffer_test \<Rightarrow> bool" where
  start: "bt_start = (r, s) \<Longrightarrow> bt_reach s"
| step: "bt_reach s \<Longrightarrow> bt_step s (r, s') \<Longrightarrow> bt_reach s'"

text \<open>The check of the main loop.\<close>

definition bt_check :: "buffer_test \<Rightarrow> bool" where
  "bt_check s \<longleftrightarrow> (bt_amount s \<ge> 12 \<longrightarrow> bt_max s \<le> 24 + 12)"

section \<open>Lemmas\<close>

lemma zero_facts:
  assumes "n \<le> vsize v" and "vec_wf v"
  shows "vec_wf (vec_poke 0 (replicate n 0) v)" and "vsize (vec_poke 0 (replicate n 0) v) = vsize v"
    and "drop n (vec_data (vec_poke 0 (replicate n 0) v)) = drop n (vec_data v)"
    and "vec_capacity (vec_poke 0 (replicate n 0) v) = vec_capacity v"
  using assms by (auto simp: vec_poke_def vec_wf_def vec_capacity_def vec_data_def drop_take)

text \<open>
  The buffer holds nothing but the pattern; and as long as the amount is at least a chunk, it holds less than
  the first amount, and a read is outstanding.
\<close>

definition bt_ok :: "buffer_test \<Rightarrow> bool" where
  "bt_ok s \<longleftrightarrow> circ_inv (bt_buffer s) \<and> vec_data (buffer (bt_buffer s)) = replicate (vsize (buffer (bt_buffer s))) (Some 255)
     \<and> chunkSize (bt_buffer s) = 12 \<and> notifyAvailable (bt_buffer s) = Some () \<and> bt_amount s \<le> 24 \<and> 0 < bt_amount s
     \<and> (12 \<le> bt_amount s \<longrightarrow> vsize (buffer (bt_buffer s)) \<le> 23 \<and> vec_capacity (buffer (bt_buffer s)) \<le> 35
          \<and> bt_max s \<le> 35 \<and> reads (bt_buffer s) \<noteq> [])"

text \<open>What the callback does to a buffer full of the pattern.\<close>

lemma notify_runs:
  assumes ctx: "circ_ctx (bt_buffer s)"
    and pat: "vec_data (buffer (bt_buffer s)) = replicate (vsize (buffer (bt_buffer s))) (Some 255)"
  obtains b m f where "bt_notify () (vsize (buffer (bt_buffer s))) s =
      (Inr (), s\<lparr>bt_buffer := (bt_buffer s)\<lparr>buffer := b\<rparr>, bt_max := m, bt_finished := f\<rparr>)"
    and "vec_data b = replicate (vsize b) (Some 255)" and "vec_wf b"
    and "vec_capacity b = vec_capacity (buffer (bt_buffer s))"
    and "m \<le> max (bt_max s) (vec_capacity (buffer (bt_buffer s)))"
    and "vsize (buffer (bt_buffer s)) \<le> pattern_size \<Longrightarrow> vsize b =
      (if bt_amount s \<le> vsize (buffer (bt_buffer s)) then vsize (buffer (bt_buffer s)) - bt_amount s
       else vsize (buffer (bt_buffer s)))"
proof -
  let ?c = "bt_buffer s" let ?n = "vsize (buffer ?c)"
  have c: "hasContext ?c" "vec_wf (buffer ?c)" using ctx by (simp_all add: circ_ctx_def circ_base_def)
  consider (big) "pattern_size < ?n" | (few) "?n \<le> pattern_size" "?n < bt_amount s"
    | (enough) "?n \<le> pattern_size" "bt_amount s \<le> ?n" by linarith
  then show thesis
  proof cases
    case big
    show thesis
      by (rule that [where b = "buffer ?c" and m = "bt_max s" and f = True]) (use big pat c in \<open>simp_all add: bt_notify_def\<close>)
  next
    case few
    show thesis
      by (rule that [where b = "buffer ?c" and m = "bt_max s" and f = "bt_finished s"]) (use few pat c in \<open>simp_all add: bt_notify_def\<close>)
  next
    case enough
    let ?a = "bt_amount s" let ?z = "bt_zero ?a ?c"
    note z = zero_facts [OF enough(2) c(2)]
    have zc: "hasContext ?z" "vec_wf (buffer ?z)" "?a \<le> vsize (buffer ?z)"
      using c z enough by (simp_all add: bt_zero_def)
    obtain b where b: "IoCircularBuffer_Consume False ?a ?z = (Inr (), ?z\<lparr>buffer := b\<rparr>)"
      "vec_data b = drop ?a (vec_data (buffer ?z))" "vec_wf b" "vec_capacity b = vec_capacity (buffer ?z)"
      by (rule Consume_in [OF zc])
    have data: "vec_data b = replicate (?n - ?a) (Some 255)" using b(2) z(3) pat by (simp add: bt_zero_def)
    then have size: "vsize b = ?n - ?a" using length_vec_data [OF b(3)] by simp
    have "take ?n (cells (buffer ?c)) = replicate ?n (Some 255)" using pat by (simp add: vec_data_def)
    then have "bt_notify () ?n s = (Inr (), s\<lparr>bt_buffer := ?c\<lparr>buffer := b\<rparr>,
        bt_max := max (bt_max s) (vec_capacity (buffer ?c)), bt_finished := bt_finished s\<rparr>)"
      using enough c b(1)
      by (cases s) (simp add: bt_notify_def on_host_def bt_put_def IoCircularBuffer_Get_def
          IoCircularBuffer_Capacity_def bt_zero_def Let_def)
    then show thesis
      by (rule that) (use data size b(3,4) z(4) enough in \<open>simp_all add: bt_zero_def\<close>)
  qed
qed

lemma chunk_twelve: "size_of_int (12 :: c_int) = 12"
  by (simp add: size_of_int_nonneg)

text \<open>A completed read.\<close>

lemma completed_ok:
  assumes ok: "bt_ok s" and rd: "reads (bt_buffer s) = (off, len) # slots"
    and run: "IoCircularBuffer_ReadSomeHandler False bt_buffer bt_put bt_notify len
      (bt_put (circ_fill (replicate len 255) (bt_buffer s)) s) = (r, s')"
  shows "bt_ok s' \<and> r \<in> {Inr (), Inl (RuntimeError ''Exceeded circular buffer capacity'')}"
proof -
  let ?c = "bt_buffer s" and ?bs = "replicate len (255 :: byte)"
  have inv: "circ_inv ?c" and ch: "chunkSize ?c = 12" and cb: "notifyAvailable ?c = Some ()"
    using ok by (simp_all add: bt_ok_def)
  have len: "len = 12" using inv rd ch by (auto simp: circ_inv_defs chunk_twelve)
  then have fits: "fits_read ?bs ?c" using rd by (simp add: fits_read_def)
  note ent = circ_enter_facts [OF inv fits]
  let ?n = "vsize (buffer ?c) + 12" and ?e = "bt_put (circ_enter ?bs ?c) s"
  have e: "bt_buffer ?e = circ_enter ?bs ?c" "bt_amount ?e = bt_amount s" "bt_max ?e = bt_max s" by (simp_all add: bt_put_def)
  have n: "vsize (buffer (circ_enter ?bs ?c)) = ?n" using ent(3) len by simp
  have "vec_data (buffer (circ_enter ?bs ?c)) = replicate (vsize (buffer ?c)) (Some 255) @ replicate 12 (Some 255)"
    using ent(2) ok len by (simp add: bt_ok_def)
  then have pat: "vec_data (buffer (circ_enter ?bs ?c)) = replicate (vsize (buffer (circ_enter ?bs ?c))) (Some 255)"
    by (simp only: n replicate_add)
  obtain b m f where app: "bt_notify () ?n ?e =
      (Inr (), ?e\<lparr>bt_buffer := (circ_enter ?bs ?c)\<lparr>buffer := b\<rparr>, bt_max := m, bt_finished := f\<rparr>)"
    and b: "vec_data b = replicate (vsize b) (Some 255)" "vec_wf b" "vec_capacity b = vec_capacity (buffer ?c)"
    and m: "m \<le> max (bt_max s) (vec_capacity (buffer ?c))"
    and size: "?n \<le> pattern_size \<Longrightarrow> vsize b = (if bt_amount s \<le> ?n then ?n - bt_amount s else ?n)"
    by (rule notify_runs [of ?e, unfolded e n, OF ent(1) pat [unfolded n]]) (simp add: ent(4))
  let ?t = "?e\<lparr>bt_buffer := (circ_enter ?bs ?c)\<lparr>buffer := b\<rparr>, bt_max := m, bt_finished := f\<rparr>"
  let ?u = "(circ_enter ?bs ?c)\<lparr>buffer := b, hasContext := False\<rparr>"
  have u: "circ_base ?u" "notifyAvailable ?u \<noteq> None" "shouldRead ?u" "\<not> hasContext ?u" "reads ?u = []"
    using ent(1) b by (auto simp: circ_ctx_def circ_base_def ent(4))
  have small: "vsize b \<le> 23" "m \<le> 35" "vec_capacity (buffer ?c) \<le> 35" if "12 \<le> bt_amount s"
    using that ok m size by (auto simp: bt_ok_def pattern_size_def split: if_splits)
  have run': "(r, s') = and_then (Inr (), clear_context bt_buffer bt_put ?t)
      (\<lambda>_ s. if shouldRead (bt_buffer s) then on_host bt_buffer bt_put (IoCircularBuffer_ReadSome False) s else (Inr (), s))"
    using bt.handler_unfold [of s ?bs "()" bt_notify "Inr ()" ?t False] inv fits cb app len run by simp
  have cc: "clear_context bt_buffer bt_put ?t = ?t\<lparr>bt_buffer := ?u\<rparr>"
    by (simp add: clear_context_def bt_put_def)
  have same: "chunkSize ?u = 12" "notifyAvailable ?u = Some ()" using ent ch cb by simp_all
  from u show ?thesis
  proof (cases rule: ReadSome_cases [where nd = False])
    case full
    have "\<not> 12 \<le> bt_amount s"
      using full(2) small(1) same by (auto simp: chunk_twelve vec_max_size_def)
    with full(1) run' cc u same b ok show ?thesis
      by (simp add: on_host_def bt_put_def bt_ok_def circ_inv_def)
  next
    case (started c')
    have size': "vsize (buffer c') = vsize b"
      using started(2,4) length_vec_data [OF b(2)] length_vec_data [of "buffer c'"] by (simp add: circ_inv_defs)
    have "s' = ?t\<lparr>bt_buffer := c'\<rparr>" "r = Inr ()"
      using run' cc u(3) started(1) by (simp_all add: on_host_def bt_put_def)
    with started same b ok size' small show ?thesis
      by (auto simp: bt_ok_def bt_put_def chunk_twelve)
  qed
qed

lemma bt_step_ok:
  assumes "bt_step s (r, s')" and "bt_ok s"
  shows "bt_ok s' \<and> r \<in> {Inr (), Inl (RuntimeError ''Exceeded circular buffer capacity'')}"
  using assms(1)
proof (cases rule: bt_stepE)
  case (completed off len slots)
  show ?thesis by (rule completed_ok [OF assms(2) completed(2) completed(1) [symmetric]])
next
  case smaller
  with assms(2) show ?thesis by (auto simp: bt_ok_def)
qed

lemma bt_start_ok: "bt_start = (r, s) \<Longrightarrow> bt_ok s"
  by (auto simp: bt_start_def circ_eval bt_put_def bt_ok_def circ_inv_defs chunk_twelve vec_wf_def)

lemma bt_reach_ok: "bt_reach s \<Longrightarrow> bt_ok s"
  by (induction rule: bt_reach.induct) (use bt_start_ok bt_step_ok in blast)+

section \<open>Properties\<close>

text \<open>
  The assertions of the test hold in every schedule, not only in the one that a run of the program shows:
  whatever the order of the reads and of the changes of \<open>amountForConsume\<close>, the callback never sees a byte that
  is not the pattern, the memory allocated never exceeds the first amount plus a chunk as long as the amount is
  at least a chunk, and till then the reading never stops.
\<close>

lemma buffer_test_passes:
  assumes "bt_reach s"
  shows "bt_check s \<and> (bt_amount s \<ge> 12 \<longrightarrow> reads (bt_buffer s) \<noteq> [])
    \<and> (\<forall>r s' msg. bt_step s (r, s') \<longrightarrow> r \<noteq> Inl (Aborted msg))"
proof -
  have ok: "bt_ok s" by (rule bt_reach_ok [OF assms])
  then have "bt_check s" "bt_amount s \<ge> 12 \<longrightarrow> reads (bt_buffer s) \<noteq> []" by (auto simp: bt_ok_def bt_check_def)
  moreover have "r \<noteq> Inl (Aborted msg)" if "bt_step s (r, s')" for r s' msg
    using bt_step_ok [OF that ok] by auto
  ultimately show ?thesis by blast
qed

text \<open>After two reads the callback has consumed what they brought.\<close>

lemma bt_two_reads:
  "\<exists>s. bt_reach s \<and> bt_amount s = 24 \<and> bt_max s = 24 \<and> vsize (buffer (bt_buffer s)) = 0"
proof -
  let ?c = "\<lambda>cs n. IoCircularBuffer_new\<lparr>notifyAvailable := Some (), chunkSize := 12, shouldRead := True,
      buffer := \<lparr>cells = cs, vsize = n\<rparr>, reads := [(n, 12)]\<rparr>"
  let ?st = "\<lambda>c m. \<lparr>bt_buffer = c, bt_amount = 24, bt_max = m, bt_finished = False\<rparr>"
  let ?first = "?st (?c (replicate 12 None) 0) 0"
  let ?second = "?st (?c (replicate 12 (Some 255) @ replicate 12 None) 12) 0"
  have start: "bt_start = (Inr (), ?first)"
    by (simp add: bt_start_def circ_eval bt_put_def)
  have "IoCircularBuffer_ReadSomeHandler False bt_buffer bt_put bt_notify 12
      (bt_put (circ_fill (replicate 12 255) (bt_buffer ?first)) ?first) = (Inr (), ?second)"
    by (simp add: circ_eval bt_put_def bt_notify_def pattern_size_def)
  then have "bt_reach ?second"
    using bt_step.completed [of ?first 0 12 "[]"] bt_reach.step [OF bt_reach.start [OF start]] by simp
  moreover obtain r s2 where s2: "IoCircularBuffer_ReadSomeHandler False bt_buffer bt_put bt_notify 12
      (bt_put (circ_fill (replicate 12 255) (bt_buffer ?second)) ?second) = (r, s2)" by fastforce
  ultimately have "bt_reach s2"
    using bt_step.completed [of ?second 12 12 "[]"] bt_reach.step by simp
  moreover have "bt_amount s2 = 24 \<and> bt_max s2 = 24 \<and> vsize (buffer (bt_buffer s2)) = 0"
    using s2 by (auto simp: circ_eval bt_put_def bt_notify_def pattern_size_def bt_zero_def)
  ultimately show ?thesis by blast
qed

lemma buffer_test_passes_witness:
  "\<exists>s. bt_reach s \<and> bt_max s = 24 \<and> reads (bt_buffer s) \<noteq> []"
proof -
  obtain s where "bt_reach s" "bt_amount s = 24" "bt_max s = 24" using bt_two_reads by blast
  with buffer_test_passes [OF this(1)] show ?thesis by auto
qed

end
